(* ===== verification/Axis_Prelude.thy ===== *)
theory Axis_Prelude
  imports
    "HOL-Library.Word"
    "HOL-Library.List_Lexorder"
    "HOL-Library.Char_ord"
begin

text \<open>
  The shared vocabulary of the development: the machine types of \<^verbatim>\<open>include/axis/types.h\<close>
  (\<^verbatim>\<open>uint8_t\<close> to \<^verbatim>\<open>uint64_t\<close> as words), byte strings, the C++ exceptions the program throws
  as values, and the generic facts about lists, sums and maps that the component theories use.
  Nothing in here is specific to a blockchain.
\<close>

section \<open>Machine types\<close>

type_synonym u8 = "8 word"
type_synonym u16 = "16 word"
type_synonym u32 = "32 word"
type_synonym u64 = "64 word"

type_synonym byte = u8
type_synonym bytes = "byte list"

text \<open>
  \<^verbatim>\<open>std::numeric_limits<uint64_t>::max()\<close>.
\<close>

definition u64_max :: u64 where
  "u64_max = 0xFFFFFFFFFFFFFFFF"

lemma u64_max_eq: "u64_max = - 1"
  by (simp add: u64_max_def)

text \<open>
  The overflow guard of the code, \<^verbatim>\<open>sum > max - x\<close>, is exact: it holds just when the unbounded
  sum does not fit in 64 bits.
\<close>

lemma unat_u64_less: "unat (x :: u64) < 2 ^ 64"
  using unsigned_less[of x] by simp

lemma u64_guard_iff: "s > u64_max - x \<longleftrightarrow> 2 ^ 64 \<le> unat s + unat (x :: u64)"
proof -
  have "x \<le> u64_max" by (simp add: u64_max_eq)
  then have "unat (u64_max - x) = unat u64_max - unat x"
    by (rule unat_sub)
  moreover have "unat u64_max = 2 ^ 64 - 1"
    by (simp add: u64_max_def)
  ultimately have "unat (u64_max - x) = 2 ^ 64 - 1 - unat x" by simp
  with unat_u64_less[of x] show ?thesis
    by (auto simp: word_less_nat_alt)
qed

lemma u64_add_exact: "\<not> s > u64_max - x \<Longrightarrow> unat (s + x) = unat s + unat (x :: u64)"
  using u64_guard_iff[of x s] by (simp add: unat_word_ariths)


section \<open>Exceptions\<close>

text \<open>
  The exceptions of the program, all derived from \<^verbatim>\<open>std::exception\<close>: \<^verbatim>\<open>std::runtime_error\<close> with its
  message, and \<^verbatim>\<open>std::out_of_range\<close> as thrown by \<^verbatim>\<open>unordered_map::at\<close>. A computation that can
  throw returns \<open>Inl\<close> of the exception, and \<open>Inr\<close> of its result otherwise.
\<close>

datatype exn = Runtime_error string | Out_of_range string

primrec what :: "exn \<Rightarrow> string" where
  "what (Runtime_error s) = s"
| "what (Out_of_range s) = s"

definition ebind :: "'e + 'a \<Rightarrow> ('a \<Rightarrow> 'e + 'b) \<Rightarrow> 'e + 'b" where
  "ebind m f = (case m of Inl e \<Rightarrow> Inl e | Inr x \<Rightarrow> f x)"

lemma ebind_simps [simp]:
  "ebind (Inl e) f = Inl e"
  "ebind (Inr x) f = f x"
  by (simp_all add: ebind_def)

lemma ebind_Inr_iff: "ebind m f = Inr y \<longleftrightarrow> (\<exists>x. m = Inr x \<and> f x = Inr y)"
  by (cases m) simp_all

lemma ebind_Inl_iff:
  "ebind m f = Inl e \<longleftrightarrow> m = Inl e \<or> (\<exists>x. m = Inr x \<and> f x = Inl e)"
  by (cases m) simp_all


lemma case_sum_Inr_iff:
  "(case x of Inl s \<Rightarrow> Inl s | Inr t \<Rightarrow> Inr (f t)) = Inr y \<longleftrightarrow> (\<exists>t. x = Inr t \<and> y = f t)"
  "Inr y = (case x of Inl s \<Rightarrow> Inl s | Inr t \<Rightarrow> Inr (f t)) \<longleftrightarrow> (\<exists>t. x = Inr t \<and> y = f t)"
  by (auto split: sum.splits)

text \<open>
  A method that changes an object and may throw: the state it leaves behind is part of its result
  also when it throws.
\<close>

type_synonym ('s, 'a) action = "'s \<Rightarrow> (exn + 'a) \<times> 's"

definition sbind :: "('s, 'a) action \<Rightarrow> ('a \<Rightarrow> ('s, 'b) action) \<Rightarrow> ('s, 'b) action" where
  "sbind m f s = (case m s of (Inl e, s') \<Rightarrow> (Inl e, s') | (Inr x, s') \<Rightarrow> f x s')"

definition sreturn :: "'a \<Rightarrow> ('s, 'a) action" where
  "sreturn x s = (Inr x, s)"

definition sthrow :: "exn \<Rightarrow> ('s, 'a) action" where
  "sthrow e s = (Inl e, s)"

lemma sbind_Inr_iff:
  "sbind m f s = (Inr y, t) \<longleftrightarrow> (\<exists>x s'. m s = (Inr x, s') \<and> f x s' = (Inr y, t))"
  by (auto simp: sbind_def split: prod.splits sum.splits)

lemma sbind_Inl_iff:
  "sbind m f s = (Inl e, t) \<longleftrightarrow>
     m s = (Inl e, t) \<or> (\<exists>x s'. m s = (Inr x, s') \<and> f x s' = (Inl e, t))"
  by (auto simp: sbind_def split: prod.splits sum.splits)

lemma sreturn_iff [simp]: "sreturn x s = (r, t) \<longleftrightarrow> r = Inr x \<and> t = s"
  by (auto simp: sreturn_def)

lemma sthrow_iff [simp]: "sthrow e s = (r, t) \<longleftrightarrow> r = Inl e \<and> t = s"
  by (auto simp: sthrow_def)


section \<open>Lists and maps\<close>

named_theorems frame_simps \<open>operations leave the fields they do not write unchanged\<close>

lemma append_eq_length_conv:
  "length xs = length ys \<Longrightarrow> xs @ us = ys @ vs \<longleftrightarrow> xs = ys \<and> us = vs"
  by simp

lemma last_in_append_last: "xs \<noteq> [] \<Longrightarrow> set (xs @ [last xs]) = set xs"
  by auto

lemma fold_invariant_list:
  assumes "\<And>x s. x \<in> set xs \<Longrightarrow> P s \<Longrightarrow> P (f x s)" and "P s"
  shows "P (fold f xs s)"
  using assms by (induction xs arbitrary: s) auto

end
