(* ===== verification/Wire.thy ===== *)
theory Wire
  imports Axis_Prelude
begin

text \<open>
  The binary format of \<^verbatim>\<open>include/axis/types.h\<close>: the \<^verbatim>\<open>Writer\<close>, which appends to a byte buffer, and
  the \<^verbatim>\<open>Reader\<close>, a cursor over a byte string whose reads are bounds-checked and throw. The theory
  states the contract between a writer and a reader once, as the locale \<open>codec\<close>, proves what follows
  from it (a reader rejects exactly the inputs that no value encodes to, counted sequences of a
  codec form a codec again), and interprets it on every primitive field of the source.

  The host is little-endian (the documented wire order): copying a word with \<^verbatim>\<open>memcpy\<close> is \<open>le_bytes\<close>
  and \<open>le_int\<close>. Sizes and offsets (\<^verbatim>\<open>size_t\<close>) are natural numbers; \<open>remain_exact\<close> shows that the
  unsigned subtraction in \<^verbatim>\<open>remain()\<close> does not wrap on the states the reader reaches.
\<close>

section \<open>Words as little-endian bytes\<close>

primrec le_bytes :: "nat \<Rightarrow> int \<Rightarrow> bytes" where
  "le_bytes 0 i = []"
| "le_bytes (Suc n) i = word_of_int i # le_bytes n (i div 256)"

primrec le_int :: "bytes \<Rightarrow> int" where
  "le_int [] = 0"
| "le_int (b # bs) = uint b + 256 * le_int bs"

lemma length_le_bytes [simp]: "length (le_bytes n i) = n"
  by (induction n arbitrary: i) simp_all

lemma le_int_le_bytes: "le_int (le_bytes n i) = i mod 256 ^ n"
proof (induction n arbitrary: i)
  case 0
  then show ?case by simp
next
  case (Suc n)
  have "i mod 256 ^ Suc n = i mod 256 + 256 * ((i div 256) mod 256 ^ n)"
    by (simp add: mod_mult2_eq' zmod_zmult2_eq)
  with Suc show ?case
    by (simp add: uint_word_of_int)
qed

lemma le_int_nonneg: "0 \<le> le_int bs"
  by (induction bs) simp_all

lemma uint_byte_bounds: "0 \<le> uint (b :: byte)" "uint (b :: byte) < 256"
  using uint_lt2p[of b] by simp_all

lemma le_int_less: "le_int bs < 256 ^ length bs"
proof (induction bs)
  case Nil
  then show ?case by simp
next
  case (Cons b bs)
  with uint_byte_bounds(2)[of b] show ?case by simp
qed

lemma le_bytes_le_int [simp]: "le_bytes (length bs) (le_int bs) = bs"
proof (induction bs)
  case Nil
  then show ?case by simp
next
  case (Cons b bs)
  have "(uint b + 256 * le_int bs) div 256 = le_int bs"
    using uint_byte_bounds[of b] by simp
  moreover have "word_of_int (uint b + 256 * le_int bs) = b"
  proof -
    have "(word_of_int (256 * le_int bs) :: byte) = word_of_int 256 * word_of_int (le_int bs)"
      by (simp only: wi_hom_mult)
    also have "(word_of_int 256 :: byte) = 0" by simp
    finally have "word_of_int (256 * le_int bs) = (0 :: byte)" by simp
    then show ?thesis
      by (metis add.right_neutral word_of_int_uint wi_hom_add)
  qed
  ultimately show ?case using Cons by simp
qed


section \<open>Writer\<close>

text \<open>
  \<^verbatim>\<open>struct Writer\<close>: the state is its buffer, and each \<^verbatim>\<open>put_\<close> method appends.
\<close>

type_synonym writer = bytes

definition put_bytes :: "bytes \<Rightarrow> writer \<Rightarrow> writer" where
  "put_bytes d w = w @ d"

definition put_u8 :: "u8 \<Rightarrow> writer \<Rightarrow> writer" where
  "put_u8 v = put_bytes (le_bytes 1 (uint v))"

definition put_u16 :: "u16 \<Rightarrow> writer \<Rightarrow> writer" where
  "put_u16 v = put_bytes (le_bytes 2 (uint v))"

definition put_u32 :: "u32 \<Rightarrow> writer \<Rightarrow> writer" where
  "put_u32 v = put_bytes (le_bytes 4 (uint v))"

definition put_u64 :: "u64 \<Rightarrow> writer \<Rightarrow> writer" where
  "put_u64 v = put_bytes (le_bytes 8 (uint v))"

definition put_i32 :: "u32 \<Rightarrow> writer \<Rightarrow> writer" where
  \<comment> \<open>\<^verbatim>\<open>int32_t\<close> is written as its two's-complement bytes\<close>
  "put_i32 v = put_bytes (le_bytes 4 (uint v))"

text \<open>
  \<^verbatim>\<open>std::array<uint8_t, N>\<close> is a byte list of length \<open>N\<close>; the lengths are those of the source
  (\<^verbatim>\<open>using Hash = ...\<close>) and libsodium's \<^verbatim>\<open>crypto_sign_\<close> constants, which are 32, 64 and 64.
\<close>

type_synonym hash = bytes
type_synonym address = bytes
type_synonym public_key = bytes
type_synonym secret_key = bytes
type_synonym signature = bytes

definition crypto_sign_PUBLICKEYBYTES :: nat where "crypto_sign_PUBLICKEYBYTES = 32"
definition crypto_sign_SECRETKEYBYTES :: nat where "crypto_sign_SECRETKEYBYTES = 64"
definition crypto_sign_BYTES :: nat where "crypto_sign_BYTES = 64"

lemmas crypto_sign_sizes [simp] =
  crypto_sign_PUBLICKEYBYTES_def crypto_sign_SECRETKEYBYTES_def crypto_sign_BYTES_def

definition put_hash :: "hash \<Rightarrow> writer \<Rightarrow> writer" where
  "put_hash h = put_bytes h"

definition put_addr :: "address \<Rightarrow> writer \<Rightarrow> writer" where
  "put_addr a = put_bytes a"

definition put_pk :: "public_key \<Rightarrow> writer \<Rightarrow> writer" where
  "put_pk pk = put_bytes pk"

definition put_sig :: "signature \<Rightarrow> writer \<Rightarrow> writer" where
  "put_sig sig = put_bytes sig"

definition put_span :: "bytes \<Rightarrow> writer \<Rightarrow> writer" where
  "put_span s w = w @ s"

definition put_str :: "bytes \<Rightarrow> writer \<Rightarrow> writer" where
  "put_str sv = put_span sv"

text \<open>A range-\<^verbatim>\<open>for\<close> that puts every element.\<close>

primrec put_many :: "('a \<Rightarrow> writer \<Rightarrow> writer) \<Rightarrow> 'a list \<Rightarrow> writer \<Rightarrow> writer" where
  "put_many put [] w = w"
| "put_many put (x # xs) w = put_many put xs (put x w)"

lemmas put_defs =
  put_bytes_def put_u8_def put_u16_def put_u32_def put_u64_def put_i32_def put_hash_def
  put_addr_def put_pk_def put_sig_def put_span_def put_str_def


section \<open>Reader\<close>

text \<open>
  \<^verbatim>\<open>struct Reader\<close>: the view and the cursor. \<open>check\<close> is the bounds test of every read; the
  \<^verbatim>\<open>take_\<close> methods are in the exception-and-state form \<open>reader \<Rightarrow> exn + 'a \<times> reader\<close>.
\<close>

record reader =
  rdata :: bytes
  roffset :: nat

type_synonym 'a parser = "reader \<Rightarrow> exn + ('a \<times> reader)"

definition mk_reader :: "bytes \<Rightarrow> reader" where
  "mk_reader sv = \<lparr>rdata = sv, roffset = 0\<rparr>"

definition remain :: "reader \<Rightarrow> nat" where
  "remain r = length (rdata r) - roffset r"

definition reader_eof :: exn where
  "reader_eof = Runtime_error ''Reader: unexpected end of data''"

definition check :: "nat \<Rightarrow> reader \<Rightarrow> exn + unit" where
  "check n r = (if n > remain r then Inl reader_eof else Inr ())"

text \<open>\<^verbatim>\<open>check(n)\<close>, copy \<open>n\<close> bytes from the cursor, advance: the body every \<^verbatim>\<open>take_\<close> method shares.\<close>

definition take_raw :: "nat \<Rightarrow> bytes parser" where
  "take_raw n r =
     ebind (check n r) (\<lambda>_.
       Inr (take n (drop (roffset r) (rdata r)), r\<lparr>roffset := roffset r + n\<rparr>))"

definition preturn :: "'a \<Rightarrow> 'a parser" where
  "preturn x r = Inr (x, r)"

definition pthrow :: "exn \<Rightarrow> 'a parser" where
  "pthrow e r = Inl e"

definition pbind :: "'a parser \<Rightarrow> ('a \<Rightarrow> 'b parser) \<Rightarrow> 'b parser" where
  "pbind p f r = (case p r of Inl e \<Rightarrow> Inl e | Inr (x, r') \<Rightarrow> f x r')"

definition take_u8 :: "u8 parser" where
  "take_u8 = pbind (take_raw 1) (\<lambda>b. preturn (word_of_int (le_int b)))"

definition take_u16 :: "u16 parser" where
  "take_u16 = pbind (take_raw 2) (\<lambda>b. preturn (word_of_int (le_int b)))"

definition take_u32 :: "u32 parser" where
  "take_u32 = pbind (take_raw 4) (\<lambda>b. preturn (word_of_int (le_int b)))"

definition take_u64 :: "u64 parser" where
  "take_u64 = pbind (take_raw 8) (\<lambda>b. preturn (word_of_int (le_int b)))"

definition take_hash :: "hash parser" where
  "take_hash = take_raw 32"

definition take_addr :: "address parser" where
  "take_addr = take_raw 20"

definition take_pk :: "public_key parser" where
  "take_pk = take_raw crypto_sign_PUBLICKEYBYTES"

definition take_sig :: "signature parser" where
  "take_sig = take_raw crypto_sign_BYTES"

definition take_view :: "nat \<Rightarrow> bytes parser" where
  "take_view n = take_raw n"

text \<open>\<^verbatim>\<open>for (i = 0; i < n; i++) v.push_back(take())\<close>.\<close>

primrec take_many :: "'a parser \<Rightarrow> nat \<Rightarrow> 'a list parser" where
  "take_many get 0 = preturn []"
| "take_many get (Suc n) = pbind get (\<lambda>x. pbind (take_many get n) (\<lambda>xs. preturn (x # xs)))"

subsection \<open>The unread bytes\<close>

definition unread :: "reader \<Rightarrow> bytes" where
  "unread r = drop (roffset r) (rdata r)"

definition skip :: "nat \<Rightarrow> reader \<Rightarrow> reader" where
  "skip n r = r\<lparr>roffset := roffset r + n\<rparr>"

lemma length_unread [simp]: "length (unread r) = remain r"
  by (simp add: unread_def remain_def)

lemma skip_simps [simp]:
  "rdata (skip n r) = rdata r"
  "roffset (skip n r) = roffset r + n"
  "unread (skip n r) = drop n (unread r)"
  "skip m (skip n r) = skip (n + m) r"
  "skip 0 r = r"
  by (simp_all add: skip_def unread_def add.commute add.assoc)

lemma unread_mk_reader [simp]: "unread (mk_reader sv) = sv"
  and roffset_mk_reader [simp]: "roffset (mk_reader sv) = 0"
  and rdata_mk_reader [simp]: "rdata (mk_reader sv) = sv"
  by (simp_all add: mk_reader_def unread_def)

text \<open>
  A cursor within its view: it is where \<^verbatim>\<open>remain()\<close> computes the number of unread bytes without
  the unsigned subtraction wrapping, and no read leaves it.
\<close>

definition reader_ok :: "reader \<Rightarrow> bool" where
  "reader_ok r \<longleftrightarrow> roffset r \<le> length (rdata r)"

lemma reader_ok_mk_reader [simp]: "reader_ok (mk_reader sv)"
  by (simp add: reader_ok_def)

lemma remain_exact: "reader_ok r \<Longrightarrow> roffset r + remain r = length (rdata r)"
  by (simp add: reader_ok_def remain_def)

lemma reader_ok_skip: "reader_ok r \<Longrightarrow> n \<le> remain r \<Longrightarrow> reader_ok (skip n r)"
  by (auto simp: reader_ok_def remain_def)

lemma take_raw_eq:
  "take_raw n r = (if n > remain r then Inl reader_eof else Inr (take n (unread r), skip n r))"
  by (simp add: take_raw_def check_def unread_def skip_def)

lemma pbind_Inr_iff:
  "pbind p f r = Inr y \<longleftrightarrow> (\<exists>x r'. p r = Inr (x, r') \<and> f x r' = Inr y)"
  by (auto simp: pbind_def split: sum.splits)

lemma pbind_Inl_iff:
  "pbind p f r = Inl e \<longleftrightarrow> p r = Inl e \<or> (\<exists>x r'. p r = Inr (x, r') \<and> f x r' = Inl e)"
  by (auto simp: pbind_def split: sum.splits)

lemma pbind_eqI: "p r = Inr (x, r') \<Longrightarrow> pbind p f r = f x r'"
  by (simp add: pbind_def)

lemma preturn_iff [simp]: "preturn x r = Inr y \<longleftrightarrow> y = (x, r)" "preturn x r \<noteq> Inl e"
  by (auto simp: preturn_def)


section \<open>The contract of a codec\<close>

text \<open>
  A codec is a writer method and a reader method for one type. What the code relies on: writing
  appends, reading back what was written returns the value and moves past it, and the only exception
  a read raises is the reader's.
\<close>

locale lax_codec =
  fixes put :: "'a \<Rightarrow> writer \<Rightarrow> writer"
    and get :: "'a parser"
    and valid :: "'a \<Rightarrow> bool"
  assumes put_append: "put x w = w @ put x []"
    and get_put: "valid x \<Longrightarrow> unread r = put x [] @ rest \<Longrightarrow>
                  get r = Inr (x, skip (length (put x [])) r)"
    and get_exn: "get r = Inl e \<Longrightarrow> e = reader_eof"
begin

lemma bind_put:
  "valid x \<Longrightarrow> unread r = put x [] @ rest \<Longrightarrow>
   pbind get f r = f x (skip (length (put x [])) r)"
  by (simp add: get_put pbind_def)

lemma read_next:
  assumes "valid x" "unread r = put x [] @ rest"
  obtains r' where "get r = Inr (x, r')" and "unread r' = rest"
  using get_put[OF assms] assms(2) by (metis append_eq_conv_conj skip_simps(3))

text \<open>Decoding is unambiguous: an encoding is a prefix of only one value's bytes.\<close>

lemma put_prefix_unique:
  assumes "valid x" "valid y" "put x [] @ us = put y [] @ vs"
  shows "x = y \<and> us = vs"
proof -
  let ?r = "mk_reader (put x [] @ us)"
  have "get ?r = Inr (x, skip (length (put x [])) ?r)"
    by (rule get_put[OF assms(1), where rest = us]) simp
  moreover have "get ?r = Inr (y, skip (length (put y [])) ?r)"
    by (rule get_put[OF assms(2), where rest = vs]) (simp add: assms(3))
  ultimately have "x = y" by simp
  with assms(3) show ?thesis by simp
qed

lemma put_inj: "valid x \<Longrightarrow> valid y \<Longrightarrow> put x [] = put y [] \<Longrightarrow> x = y"
  using put_prefix_unique[of x y "[]" "[]"] by simp

text \<open>A loop of writes, read back by a loop of reads.\<close>

lemma put_many_append: "put_many put xs w = w @ put_many put xs []"
proof (induction xs arbitrary: w)
  case Nil
  then show ?case by simp
next
  case (Cons x xs)
  have "put_many put (x # xs) w = put x w @ put_many put xs []"
    using Cons[of "put x w"] by simp
  also have "\<dots> = w @ (put x [] @ put_many put xs [])"
    using put_append[of x w] by simp
  also have "put x [] @ put_many put xs [] = put_many put xs (put x [])"
    using Cons[of "put x []"] by simp
  finally show ?case by simp
qed

lemma put_many_Cons: "put_many put (x # xs) [] = put x [] @ put_many put xs []"
  using put_many_append[of xs "put x []"] by simp

lemma put_many_concat: "put_many put xs [] = concat (map (\<lambda>x. put x []) xs)"
  by (induction xs) (simp, simp only: put_many_Cons list.map concat.simps)

lemma take_many_put:
  "list_all valid xs \<Longrightarrow> unread r = put_many put xs [] @ rest \<Longrightarrow>
   take_many get (length xs) r = Inr (xs, skip (length (put_many put xs [])) r)"
proof (induction xs arbitrary: r rest)
  case Nil
  then show ?case by (simp add: preturn_def)
next
  case (Cons x xs)
  let ?r = "skip (length (put x [])) r"
  have u: "unread r = put x [] @ (put_many put xs [] @ rest)"
    using Cons.prems(2) by (simp only: put_many_Cons append_assoc)
  then have "unread ?r = put_many put xs [] @ rest" by simp
  with Cons have "take_many get (length xs) ?r =
      Inr (xs, skip (length (put_many put xs [])) ?r)"
    by simp
  moreover have "pbind get f r = f x ?r" for f :: "'a \<Rightarrow> 'a list parser"
    using Cons.prems(1) u by (intro bind_put) auto
  ultimately show ?case
    by (simp add: pbind_eqI preturn_def put_many_Cons del: put_many.simps)
qed

lemma put_many_inj:
  assumes "list_all valid xs" "list_all valid ys" "length xs = length ys"
    and "put_many put xs [] = put_many put ys []"
  shows "xs = ys"
proof -
  let ?r = "mk_reader (put_many put xs [])"
  have x: "take_many get (length ys) ?r = Inr (xs, skip (length (put_many put xs [])) ?r)"
    using take_many_put[OF assms(1), of ?r "[]"] assms(3) by simp
  have y: "take_many get (length ys) ?r = Inr (ys, skip (length (put_many put ys [])) ?r)"
    using take_many_put[OF assms(2), of ?r "[]"] assms(4) by simp
  from trans[OF x[symmetric] y] show ?thesis by simp
qed

lemma length_put_many:
  assumes k: "\<And>x. valid x \<Longrightarrow> length (put x []) = k"
  shows "list_all valid xs \<Longrightarrow> length (put_many put xs []) = k * length xs"
proof (induction xs)
  case Nil
  then show ?case by simp
next
  case (Cons x xs)
  then have "length (put x []) = k" and "length (put_many put xs []) = k * length xs"
    by (simp_all add: k)
  then show ?case by (simp only: put_many_Cons length_append list.size) simp
qed

lemma take_many_exn: "take_many get n r = Inl e \<Longrightarrow> e = reader_eof"
  by (induction n arbitrary: r) (auto simp: pbind_Inl_iff dest: get_exn)

end

text \<open>
  A canonical codec reads nothing but encodings: a read that succeeds has consumed exactly the bytes
  that writing its result produces.
\<close>

locale codec = lax_codec +
  assumes get_sound: "get r = Inr (x, r') \<Longrightarrow>
                  valid x \<and> (\<exists>rest. unread r = put x [] @ rest) \<and> r' = skip (length (put x [])) r"
begin

lemma bind_Inr:
  "pbind get f r = Inr y \<longleftrightarrow>
     (\<exists>x rest. valid x \<and> unread r = put x [] @ rest \<and>
               f x (skip (length (put x [])) r) = Inr y)"
  by (auto simp: pbind_Inr_iff dest: get_sound intro: get_put)

text \<open>A read fails exactly when the unread bytes start with no encoding.\<close>

lemma get_fails_iff:
  "(\<exists>e. get r = Inl e) \<longleftrightarrow> \<not> (\<exists>x rest. valid x \<and> unread r = put x [] @ rest)"
proof (cases "get r")
  case (Inl e)
  then show ?thesis using get_put[of _ r] by fastforce
next
  case (Inr p)
  then show ?thesis using get_sound[of r "fst p" "snd p"] by auto
qed

lemma get_ok: "reader_ok r \<Longrightarrow> get r = Inr (x, r') \<Longrightarrow> reader_ok r'"
  by (drule get_sound) (auto intro!: reader_ok_skip simp flip: length_unread)

lemma take_many_sound:
  "take_many get n r = Inr (xs, r') \<Longrightarrow>
   length xs = n \<and> list_all valid xs \<and> (\<exists>rest. unread r = put_many put xs [] @ rest) \<and>
   r' = skip (length (put_many put xs [])) r"
proof (induction n arbitrary: r xs)
  case 0
  then show ?case by (auto simp: preturn_def)
next
  case (Suc n)
  from Suc.prems obtain x rest ys where x: "valid x" "unread r = put x [] @ rest"
    and ys: "take_many get n (skip (length (put x [])) r) = Inr (ys, r')"
    and xs: "xs = x # ys"
    by (auto simp: bind_Inr pbind_Inr_iff [of "take_many get n"])
  from Suc.IH[OF ys] x xs show ?case
    by (auto simp: put_many_Cons simp del: put_many.simps)
qed

end

section \<open>The primitive fields are codecs\<close>

text \<open>
  Two families: a fixed number of raw bytes (hash, address, key, signature), and a word of
  \<open>8 * n\<close> bits in \<open>n\<close> bytes.
\<close>

lemma raw_codec: "codec put_bytes (take_raw n) (\<lambda>h. length h = n)"
proof
  fix x w
  show "put_bytes x w = w @ put_bytes x []" by (simp add: put_bytes_def)
next
  fix x r rest
  assume n: "length x = n" and u: "unread r = put_bytes x [] @ rest"
  from u have "length (unread r) = length x + length rest" by (simp add: put_bytes_def)
  with n have "\<not> n > remain r" by simp
  with n u show "take_raw n r = Inr (x, skip (length (put_bytes x [])) r)"
    by (simp add: take_raw_eq put_bytes_def)
next
  fix r x r'
  assume "take_raw n r = Inr (x, r')"
  then have n: "n \<le> length (unread r)" and x: "x = take n (unread r)" and r': "r' = skip n r"
    by (auto simp: take_raw_eq split: if_splits)
  from n x have "length x = n" by simp
  moreover have "unread r = x @ drop n (unread r)" by (simp add: x)
  ultimately show "length x = n \<and> (\<exists>rest. unread r = put_bytes x [] @ rest) \<and>
      r' = skip (length (put_bytes x [])) r"
    using r' by (auto simp: put_bytes_def)
next
  fix r e
  assume "take_raw n r = Inl e"
  then show "e = reader_eof" by (simp add: take_raw_eq split: if_splits)
qed

lemma word_le_roundtrip:
  "LENGTH('a::len) = 8 * n \<Longrightarrow> word_of_int (le_int (le_bytes n (uint v))) = (v :: 'a word)"
proof -
  assume "LENGTH('a) = 8 * n"
  then have "(256 :: int) ^ n = 2 ^ LENGTH('a)" by (simp add: power_mult)
  then have "uint v mod 256 ^ n = uint v" using uint_lt2p[of v] by simp
  then show ?thesis by (simp add: le_int_le_bytes)
qed

lemma le_bytes_word_roundtrip:
  "LENGTH('a::len) = 8 * length b \<Longrightarrow>
   le_bytes (length b) (uint (word_of_int (le_int b) :: 'a word)) = b"
proof -
  assume "LENGTH('a) = 8 * length b"
  then have "(256 :: int) ^ length b = 2 ^ LENGTH('a)" by (simp add: power_mult)
  with le_int_less[of b] le_int_nonneg[of b]
  have "uint (word_of_int (le_int b) :: 'a word) = le_int b"
    by (simp add: uint_word_of_int)
  then show ?thesis by simp
qed

lemma word_codec:
  assumes n: "LENGTH('a::len) = 8 * n"
  shows "codec (\<lambda>v :: 'a word. put_bytes (le_bytes n (uint v)))
               (pbind (take_raw n) (\<lambda>b. preturn (word_of_int (le_int b)))) (\<lambda>_. True)"
proof -
  note raw = raw_codec[of n]
  show ?thesis
  proof
    fix x :: "'a word" and w
    show "put_bytes (le_bytes n (uint x)) w = w @ put_bytes (le_bytes n (uint x)) []"
      by (simp add: put_bytes_def)
  next
    fix x :: "'a word" and r rest
    assume "unread r = put_bytes (le_bytes n (uint x)) [] @ rest"
    then show "pbind (take_raw n) (\<lambda>b. preturn (word_of_int (le_int b))) r =
        Inr (x, skip (length (put_bytes (le_bytes n (uint x)) [])) r)"
      using lax_codec.bind_put[OF codec.axioms(1)[OF raw], of "le_bytes n (uint x)" r rest
            "\<lambda>b. preturn (word_of_int (le_int b) :: 'a word)"]
      by (simp add: word_le_roundtrip[OF n] preturn_def)
  next
    fix r r' and x :: "'a word"
    assume "pbind (take_raw n) (\<lambda>b. preturn (word_of_int (le_int b))) r = Inr (x, r')"
    then obtain b rest where b: "length b = n" "unread r = b @ rest"
      and x: "x = word_of_int (le_int b)" and r': "r' = skip n r"
      by (auto simp: codec.bind_Inr[OF raw] put_bytes_def)
    from b n x have "le_bytes n (uint x) = b"
      using le_bytes_word_roundtrip[of b, where 'a = 'a] by simp
    with b r' show "True \<and> (\<exists>rest. unread r = put_bytes (le_bytes n (uint x)) [] @ rest) \<and>
        r' = skip (length (put_bytes (le_bytes n (uint x)) [])) r"
      by (simp add: put_bytes_def)
  next
    fix r e
    assume "pbind (take_raw n) (\<lambda>b. preturn (word_of_int (le_int b)) :: 'a word parser) r = Inl e"
    then show "e = reader_eof"
      using lax_codec.get_exn[OF codec.axioms(1)[OF raw]] by (auto simp: pbind_Inl_iff)
  qed
qed

interpretation wu8: codec put_u8 take_u8 "\<lambda>_. True"
  unfolding put_u8_def take_u8_def by (rule word_codec) simp

interpretation wu16: codec put_u16 take_u16 "\<lambda>_. True"
  unfolding put_u16_def take_u16_def by (rule word_codec) simp

interpretation wu32: codec put_u32 take_u32 "\<lambda>_. True"
  unfolding put_u32_def take_u32_def by (rule word_codec) simp

interpretation wu64: codec put_u64 take_u64 "\<lambda>_. True"
  unfolding put_u64_def take_u64_def by (rule word_codec) simp

interpretation whash: codec put_hash take_hash "\<lambda>h. length h = 32"
  unfolding put_hash_def take_hash_def by (rule raw_codec)

interpretation waddr: codec put_addr take_addr "\<lambda>a. length a = 20"
  unfolding put_addr_def take_addr_def by (rule raw_codec)

interpretation wpk: codec put_pk take_pk "\<lambda>pk. length pk = crypto_sign_PUBLICKEYBYTES"
  unfolding put_pk_def take_pk_def by (rule raw_codec)

interpretation wsig: codec put_sig take_sig "\<lambda>sig. length sig = crypto_sign_BYTES"
  unfolding put_sig_def take_sig_def by (rule raw_codec)

lemma length_put [simp]:
  "length (put_u8 v8 w) = length w + 1"
  "length (put_u16 v16 w) = length w + 2"
  "length (put_u32 v32 w) = length w + 4"
  "length (put_u64 v64 w) = length w + 8"
  "length (put_hash h w) = length w + length h"
  "length (put_addr h w) = length w + length h"
  "length (put_pk h w) = length w + length h"
  "length (put_sig h w) = length w + length h"
  "length (put_str h w) = length w + length h"
  by (simp_all add: put_defs)


section \<open>Counted sequences\<close>

text \<open>
  The pattern of every variable-length field: the size as a \<^verbatim>\<open>uint32_t\<close>, truncated by the cast, then
  the elements; read back by a counted loop.
\<close>

definition put_counted :: "('a \<Rightarrow> writer \<Rightarrow> writer) \<Rightarrow> 'a list \<Rightarrow> writer \<Rightarrow> writer" where
  "put_counted put xs w = put_many put xs (put_u32 (word_of_nat (length xs)) w)"

definition take_counted :: "'a parser \<Rightarrow> 'a list parser" where
  "take_counted get = pbind take_u32 (\<lambda>n. take_many get (unat n))"

lemma unat_u32_of_nat: "n < 2 ^ 32 \<Longrightarrow> unat (word_of_nat n :: u32) = n"
  by (simp add: unat_of_nat take_bit_nat_eq_self)

lemma unat_u32_less: "unat (n :: u32) < 2 ^ 32"
  using unsigned_less[of n] by simp

context lax_codec
begin

lemma put_counted_append: "put_counted put xs w = w @ put_counted put xs []"
  unfolding put_counted_def
  using put_many_append[of xs "put_u32 (word_of_nat (length xs)) w"]
    put_many_append[of xs "put_u32 (word_of_nat (length xs)) []"]
    wu32.put_append[of "word_of_nat (length xs)" w]
  by simp

lemma put_counted_unfold:
  "put_counted put xs [] = put_u32 (word_of_nat (length xs)) [] @ put_many put xs []"
  unfolding put_counted_def
  using put_many_append[of xs "put_u32 (word_of_nat (length xs)) []"] by simp

lemma length_put_counted:
  "length (put_counted put xs []) = 4 + length (put_many put xs [])"
  by (simp add: put_counted_unfold)

lemma take_counted_put:
  assumes "length xs < 2 ^ 32" "list_all valid xs" and u: "unread r = put_counted put xs [] @ rest"
  shows "take_counted get r = Inr (xs, skip (length (put_counted put xs [])) r)"
proof -
  let ?n = "word_of_nat (length xs) :: u32"
  have "unread r = put_u32 ?n [] @ (put_many put xs [] @ rest)"
    using u by (simp add: put_counted_unfold)
  then have "take_counted get r = take_many get (length xs) (skip 4 r)"
    and "unread (skip 4 r) = put_many put xs [] @ rest"
    using assms(1) by (simp_all add: take_counted_def wu32.bind_put unat_u32_of_nat)
  with assms(2) show ?thesis by (simp add: take_many_put length_put_counted)
qed

lemma take_counted_exn: "take_counted get r = Inl e \<Longrightarrow> e = reader_eof"
  by (auto simp: take_counted_def pbind_Inl_iff dest: wu32.get_exn take_many_exn)

lemma counted_lax_codec:
  "lax_codec (put_counted put) (take_counted get) (\<lambda>xs. length xs < 2 ^ 32 \<and> list_all valid xs)"
  by unfold_locales (auto intro: put_counted_append take_counted_put take_counted_exn)

end

context codec
begin

lemma counted_codec:
  "codec (put_counted put) (take_counted get) (\<lambda>xs. length xs < 2 ^ 32 \<and> list_all valid xs)"
proof (intro codec.intro counted_lax_codec codec_axioms.intro)
  fix r xs r'
  assume "take_counted get r = Inr (xs, r')"
  then obtain n rest where u: "unread r = put_u32 n [] @ rest"
    and m: "take_many get (unat n) (skip 4 r) = Inr (xs, r')"
    by (auto simp: take_counted_def wu32.bind_Inr)
  from take_many_sound[OF m] have len: "length xs = unat n" and "list_all valid xs"
    and "\<exists>rest. unread (skip 4 r) = put_many put xs [] @ rest"
    and "r' = skip (length (put_many put xs [])) (skip 4 r)" by auto
  moreover from len have "word_of_nat (length xs) = n" by simp
  moreover from u have "unread (skip 4 r) = rest" by simp
  ultimately show "(length xs < 2 ^ 32 \<and> list_all valid xs) \<and>
      (\<exists>rest. unread r = put_counted put xs [] @ rest) \<and>
      r' = skip (length (put_counted put xs [])) r"
    using u unat_u32_less[of n] by (auto simp: put_counted_unfold)
qed

end


section \<open>Records of fields\<close>

text \<open>
  A record is written field by field and read field by field. Two codecs in sequence form a codec
  of pairs (locale \<open>codec_seq\<close>), and a codec carries over along a bijection (\<open>iso_codec\<close>), here
  between nested pairs and a record; \<open>pbind_assoc\<close> flattens the nested reads into the code's.
\<close>

definition put_seq ::
    "('a \<Rightarrow> writer \<Rightarrow> writer) \<Rightarrow> ('b \<Rightarrow> writer \<Rightarrow> writer) \<Rightarrow> 'a \<times> 'b \<Rightarrow> writer \<Rightarrow> writer" where
  "put_seq puta putb p w = putb (snd p) (puta (fst p) w)"

definition take_seq :: "'a parser \<Rightarrow> 'b parser \<Rightarrow> ('a \<times> 'b) parser" where
  "take_seq geta getb = pbind geta (\<lambda>x. pbind getb (\<lambda>y. preturn (x, y)))"

definition valid_seq :: "('a \<Rightarrow> bool) \<Rightarrow> ('b \<Rightarrow> bool) \<Rightarrow> 'a \<times> 'b \<Rightarrow> bool" where
  "valid_seq va vb p \<longleftrightarrow> va (fst p) \<and> vb (snd p)"

lemma pbind_assoc: "pbind (pbind p f) g = pbind p (\<lambda>x. pbind (f x) g)"
  by (auto simp: pbind_def fun_eq_iff split: sum.splits)

lemma pbind_preturn: "pbind (preturn x) f = f x"
  by (simp add: pbind_def preturn_def fun_eq_iff)

locale codec_seq =
  a: codec puta geta va + b: codec putb getb vb
  for puta :: "'a \<Rightarrow> writer \<Rightarrow> writer" and geta va
    and putb :: "'b \<Rightarrow> writer \<Rightarrow> writer" and getb vb
begin

lemma put_seq_unfold: "put_seq puta putb p [] = puta (fst p) [] @ putb (snd p) []"
  using b.put_append[of "snd p" "puta (fst p) []"] by (simp add: put_seq_def)

lemma put_seq_append: "put_seq puta putb p w = w @ put_seq puta putb p []"
  using a.put_append[of "fst p" w] b.put_append[of "snd p" "puta (fst p) w"]
  by (simp add: put_seq_unfold) (simp add: put_seq_def)

lemma seq_codec: "codec (put_seq puta putb) (take_seq geta getb) (valid_seq va vb)"
proof
  fix p w
  show "put_seq puta putb p w = w @ put_seq puta putb p []" by (rule put_seq_append)
next
  fix p r rest
  assume v: "valid_seq va vb p" and u: "unread r = put_seq puta putb p [] @ rest"
  obtain x y where p: "p = (x, y)" by (cases p)
  have ux: "unread r = puta x [] @ (putb y [] @ rest)"
    using u by (simp add: put_seq_unfold p)
  then have uy: "unread (skip (length (puta x [])) r) = putb y [] @ rest" by simp
  from v p have "va x" and "vb y" by (simp_all add: valid_seq_def)
  then show "take_seq geta getb r = Inr (p, skip (length (put_seq puta putb p [])) r)"
    using a.bind_put[OF _ ux, of "\<lambda>x. pbind getb (\<lambda>y. preturn (x, y))"]
      b.bind_put[OF _ uy, of "\<lambda>y. preturn (x, y)"]
    by (simp add: take_seq_def put_seq_unfold p preturn_def)
next
  fix r p r'
  assume "take_seq geta getb r = Inr (p, r')"
  then obtain x y rest resty where "va x" "unread r = puta x [] @ rest"
    and "vb y" "unread (skip (length (puta x [])) r) = putb y [] @ resty"
    and "p = (x, y)" "r' = skip (length (putb y [])) (skip (length (puta x [])) r)"
    by (auto simp: take_seq_def a.bind_Inr b.bind_Inr)
  then show "valid_seq va vb p \<and> (\<exists>rest. unread r = put_seq puta putb p [] @ rest) \<and>
      r' = skip (length (put_seq puta putb p [])) r"
    by (auto simp: put_seq_unfold valid_seq_def)
next
  fix r e
  assume "take_seq geta getb r = Inl e"
  then show "e = reader_eof"
    by (auto simp: take_seq_def pbind_Inl_iff dest: a.get_exn b.get_exn)
qed

end

context codec
begin

lemma iso_codec:
  assumes fg: "\<And>y. f (g y) = y" and gf: "\<And>x. g (f x) = x"
  shows "codec (\<lambda>y. put (g y)) (pbind get (\<lambda>x. preturn (f x))) (\<lambda>y. valid (g y))"
proof
  fix y w
  show "put (g y) w = w @ put (g y) []" by (rule put_append)
next
  fix y r rest
  assume "valid (g y)" "unread r = put (g y) [] @ rest"
  then show "pbind get (\<lambda>x. preturn (f x)) r = Inr (y, skip (length (put (g y) [])) r)"
    by (simp add: bind_put fg preturn_def)
next
  fix r y r'
  assume "pbind get (\<lambda>x. preturn (f x)) r = Inr (y, r')"
  then show "valid (g y) \<and> (\<exists>rest. unread r = put (g y) [] @ rest) \<and>
      r' = skip (length (put (g y) [])) r"
    by (auto simp: bind_Inr gf)
next
  fix r e
  assume "pbind get (\<lambda>x. preturn (f x)) r = Inl e"
  then show "e = reader_eof" by (auto simp: pbind_Inl_iff dest: get_exn)
qed

end

end
