(* ===== verification/Crypto.thy ===== *)
theory Crypto
  imports Wire
begin

text \<open>
  \<^verbatim>\<open>src/crypto.cpp\<close> and the conversions of \<^verbatim>\<open>include/axis/util.h\<close>: hashing, addresses, signatures, the
  Merkle root, hex strings. libsodium is not part of the repository; its functions are the fields
  of a record \<open>sodium\<close> that every definition takes as an argument, and \<open>sodium_ok\<close> collects the
  documented facts the code relies on. The Merkle root has two models: the loop of the code, level
  by level, and a top-down recursion over complete trees which specifies it.
\<close>

section \<open>libsodium\<close>

text \<open>
  \<^item> \<open>generichash n d\<close>: \<^verbatim>\<open>crypto_generichash\<close> without a key, \<open>n\<close> output bytes (BLAKE2b; the output
    length is a parameter of the hash function, so shorter outputs are not prefixes of longer ones);
  \<^item> \<open>verify_detached sig m pk\<close>: \<^verbatim>\<open>crypto_sign_verify_detached\<close>, 0 for a valid signature;
  \<^item> \<open>sign_detached m sk\<close>: \<^verbatim>\<open>crypto_sign_detached\<close>;
  \<^item> \<open>bin2hex d\<close>: \<^verbatim>\<open>sodium_bin2hex\<close>, the digits before the terminating NUL;
  \<^item> \<open>hex2bin n s\<close>: \<^verbatim>\<open>sodium_hex2bin\<close> with capacity \<open>n\<close>, no ignored characters and no end pointer;
    \<open>None\<close> when it returns nonzero, otherwise the bytes written (\<^verbatim>\<open>bin_len\<close> is their number).
\<close>

record sodium =
  generichash :: "nat \<Rightarrow> bytes \<Rightarrow> bytes"
  verify_detached :: "signature \<Rightarrow> bytes \<Rightarrow> public_key \<Rightarrow> int"
  sign_detached :: "bytes \<Rightarrow> secret_key \<Rightarrow> signature"
  bin2hex :: "bytes \<Rightarrow> string"
  hex2bin :: "nat \<Rightarrow> string \<Rightarrow> bytes option"

definition hash_lengths_ok :: "sodium \<Rightarrow> bool" where
  "hash_lengths_ok so \<longleftrightarrow> (\<forall>n d. 16 \<le> n \<and> n \<le> 64 \<longrightarrow> length (generichash so n d) = n)"

definition bin2hex_ok :: "sodium \<Rightarrow> bool" where
  "bin2hex_ok so \<longleftrightarrow>
     (\<forall>d. length (bin2hex so d) = 2 * length d) \<and>
     (\<forall>d n. length d \<le> n \<longrightarrow> hex2bin so n (bin2hex so d) = Some d)"

definition hex2bin_ok :: "sodium \<Rightarrow> bool" where
  "hex2bin_ok so \<longleftrightarrow>
     (\<forall>n s d. hex2bin so n s = Some d \<longrightarrow> length d \<le> n \<and> 2 * length d = length s)"

definition sodium_ok :: "sodium \<Rightarrow> bool" where
  "sodium_ok so \<longleftrightarrow> hash_lengths_ok so \<and> bin2hex_ok so \<and> hex2bin_ok so"

lemma sodium_okD:
  assumes "sodium_ok so"
  shows "16 \<le> n \<Longrightarrow> n \<le> 64 \<Longrightarrow> length (generichash so n d) = n"
    and "length (bin2hex so d) = 2 * length d"
    and "length d \<le> m \<Longrightarrow> hex2bin so m (bin2hex so d) = Some d"
    and "hex2bin so m s = Some d \<Longrightarrow> length d \<le> m"
    and "hex2bin so m s = Some d \<Longrightarrow> 2 * length d = length s"
  using assms
  by (simp_all add: sodium_ok_def hash_lengths_ok_def bin2hex_ok_def) (auto simp: hex2bin_ok_def)

lemma bin2hex_inj: "sodium_ok so \<Longrightarrow> bin2hex so a = bin2hex so b \<longleftrightarrow> a = b"
proof
  assume so: "sodium_ok so" and eq: "bin2hex so a = bin2hex so b"
  have "length a = length b"
    using sodium_okD(2)[OF so, of a] sodium_okD(2)[OF so, of b] eq by simp
  with sodium_okD(3)[OF so, of a "length a"] sodium_okD(3)[OF so, of b "length a"] eq
  show "a = b" by simp
qed simp


section \<open>Hashing, addresses, signatures\<close>

definition blake2b :: "sodium \<Rightarrow> bytes \<Rightarrow> hash" where
  "blake2b so d = generichash so 32 d"

definition combine_hash :: "sodium \<Rightarrow> hash \<Rightarrow> hash \<Rightarrow> hash" where
  "combine_hash so a b = blake2b so (a @ b)"

definition derive_address :: "sodium \<Rightarrow> public_key \<Rightarrow> address" where
  "derive_address so pk = generichash so 20 pk"

definition verify_sig :: "sodium \<Rightarrow> public_key \<Rightarrow> hash \<Rightarrow> signature \<Rightarrow> bool" where
  "verify_sig so pk msg sig \<longleftrightarrow> verify_detached so sig msg pk = 0"

definition sign_msg :: "sodium \<Rightarrow> secret_key \<Rightarrow> hash \<Rightarrow> signature" where
  "sign_msg so sk msg = sign_detached so msg sk"

lemma length_blake2b [simp]: "sodium_ok so \<Longrightarrow> length (blake2b so d) = 32"
  by (simp add: blake2b_def sodium_okD(1))

lemma length_combine_hash [simp]: "sodium_ok so \<Longrightarrow> length (combine_hash so a b) = 32"
  by (simp add: combine_hash_def)

lemma length_derive_address [simp]: "sodium_ok so \<Longrightarrow> length (derive_address so pk) = 20"
  by (simp add: derive_address_def sodium_okD(1))


section \<open>The Merkle root\<close>

text \<open>\<^verbatim>\<open>Hash{}\<close>: all zeros.\<close>

definition zero_hash :: hash where
  "zero_hash = replicate 32 0"

text \<open>
  One pass of the \<^verbatim>\<open>while\<close> body: \<open>merkle_pairs\<close> is the inner \<^verbatim>\<open>for (i = 0; i < cur.size(); i += 2)\<close>,
  which always sees an even number of hashes, and \<open>merkle_level\<close> duplicates the last hash of an odd
  level first.
\<close>

fun merkle_pairs :: "sodium \<Rightarrow> hash list \<Rightarrow> hash list" where
  "merkle_pairs so (a # b # cs) = combine_hash so a b # merkle_pairs so cs"
| "merkle_pairs so _ = []"

definition merkle_level :: "sodium \<Rightarrow> hash list \<Rightarrow> hash list" where
  "merkle_level so cur =
     merkle_pairs so (if odd (length cur) then cur @ [last cur] else cur)"

lemma length_merkle_pairs: "length (merkle_pairs so xs) = length xs div 2"
  by (induction so xs rule: merkle_pairs.induct) simp_all

lemma length_merkle_level: "length (merkle_level so xs) = (length xs + 1) div 2"
  by (auto simp: merkle_level_def length_merkle_pairs elim: oddE)

function merkle_loop :: "sodium \<Rightarrow> hash list \<Rightarrow> hash list" where
  "merkle_loop so cur = (if length cur > 1 then merkle_loop so (merkle_level so cur) else cur)"
  by pat_completeness auto
termination
  by (relation "measure (\<lambda>(so, cur). length cur)") (auto simp: length_merkle_level)

declare merkle_loop.simps [simp del]

definition compute_merkle_root :: "sodium \<Rightarrow> hash list \<Rightarrow> hash" where
  "compute_merkle_root so leaves =
     (if leaves = [] then zero_hash else merkle_loop so leaves ! 0)"

text \<open>The loop ends with exactly one hash, so the read \<^verbatim>\<open>cur[0]\<close> is in range.\<close>

lemma length_merkle_loop: "xs \<noteq> [] \<Longrightarrow> length (merkle_loop so xs) = 1"
proof (induction so xs rule: merkle_loop.induct)
  case (1 so cur)
  show ?case
  proof (cases "length cur > 1")
    case True
    then have "merkle_level so cur \<noteq> []"
      using length_merkle_level[of so cur] by auto
    with True 1 show ?thesis by (simp add: merkle_loop.simps[of so cur])
  next
    case False
    then have "merkle_loop so cur = cur" by (simp add: merkle_loop.simps[of so cur])
    with False "1.prems" show ?thesis by (simp add: Suc_leI le_antisym)
  qed
qed

lemma compute_merkle_root_level:
  "length xs > 1 \<Longrightarrow> compute_merkle_root so xs = compute_merkle_root so (merkle_level so xs)"
  using length_merkle_level[of so xs]
  by (auto simp: compute_merkle_root_def merkle_loop.simps[of so xs])

lemma compute_merkle_root_single: "compute_merkle_root so [h] = h"
  by (simp add: compute_merkle_root_def merkle_loop.simps)

lemma compute_merkle_root_Nil: "compute_merkle_root so [] = zero_hash"
  by (simp add: compute_merkle_root_def)

lemma compute_merkle_root_two: "compute_merkle_root so [a, b] = combine_hash so a b"
  by (simp add: compute_merkle_root_level merkle_level_def compute_merkle_root_single)

lemma set_merkle_pairs: "set (merkle_pairs so xs) \<subseteq> range (\<lambda>(a, b). combine_hash so a b)"
  by (induction so xs rule: merkle_pairs.induct) auto

lemma merkle_level_hashes:
  "sodium_ok so \<Longrightarrow> h \<in> set (merkle_level so xs) \<Longrightarrow> length h = 32"
  using set_merkle_pairs[of so "if odd (length xs) then xs @ [last xs] else xs"]
  by (force simp: merkle_level_def)

lemma length_compute_merkle_root:
  "sodium_ok so \<Longrightarrow> \<forall>h \<in> set xs. length h = 32 \<Longrightarrow> length (compute_merkle_root so xs) = 32"
proof (induction so xs rule: merkle_loop.induct)
  case (1 so cur)
  show ?case
  proof (cases "length cur > 1")
    case True
    with 1 merkle_level_hashes[OF "1.prems"(1)] show ?thesis
      by (simp add: compute_merkle_root_level)
  next
    case False
    with "1.prems" show ?thesis
      by (cases cur) (auto simp: compute_merkle_root_Nil compute_merkle_root_single zero_hash_def)
  qed
qed

subsection \<open>Specification: the root of a complete tree\<close>

text \<open>
  \<open>tree_root d xs\<close> is the root of the complete binary tree of depth \<open>d\<close> whose leaves are \<open>xs\<close>
  from the left; a subtree with no leaf of its own repeats its left sibling.
\<close>

fun tree_root :: "sodium \<Rightarrow> nat \<Rightarrow> hash list \<Rightarrow> hash" where
  "tree_root so 0 xs = hd xs"
| "tree_root so (Suc d) xs =
     (let l = tree_root so d (take (2 ^ d) xs);
          r = (if length xs \<le> 2 ^ d then l else tree_root so d (drop (2 ^ d) xs))
      in combine_hash so l r)"

lemma merkle_pairs_append:
  "even (length xs) \<Longrightarrow> merkle_pairs so (xs @ ys) = merkle_pairs so xs @ merkle_pairs so ys"
  by (induction so xs rule: merkle_pairs.induct) auto

lemma merkle_level_append:
  "even (length xs) \<Longrightarrow> ys \<noteq> [] \<Longrightarrow>
   merkle_level so (xs @ ys) = merkle_level so xs @ merkle_level so ys"
  by (simp add: merkle_level_def merkle_pairs_append)

lemma tree_root_level:
  "xs \<noteq> [] \<Longrightarrow> length xs \<le> 2 ^ Suc d \<Longrightarrow>
   tree_root so (Suc d) xs = tree_root so d (merkle_level so xs)"
proof (induction d arbitrary: xs)
  case 0
  then consider a where "xs = [a]" | a b where "xs = [a, b]"
    by (cases xs; cases "tl xs") auto
  then show ?case by cases (simp_all add: merkle_level_def)
next
  case (Suc d)
  let ?l = "take (2 ^ Suc d) xs" and ?r = "drop (2 ^ Suc d) xs"
  have l: "tree_root so (Suc d) ?l = tree_root so d (merkle_level so ?l)"
    using Suc.prems by (intro Suc.IH) auto
  show ?case
  proof (cases "length xs \<le> 2 ^ Suc d")
    case True
    then have "length (merkle_level so xs) \<le> 2 ^ d"
      by (simp add: length_merkle_level)
    with True l show ?thesis
      by (simp only: tree_root.simps(2)[of so "Suc d"] tree_root.simps(2)[of so d "merkle_level so xs"])
         (simp add: Let_def)
  next
    case False
    then have r: "tree_root so (Suc d) ?r = tree_root so d (merkle_level so ?r)"
      using Suc.prems by (intro Suc.IH) auto
    have "length ?l = 2 ^ Suc d" and "?r \<noteq> []"
      using False by auto
    then have app: "merkle_level so xs = merkle_level so ?l @ merkle_level so ?r"
      and len: "length (merkle_level so ?l) = 2 ^ d"
      using merkle_level_append[of ?l ?r so] by (simp_all add: length_merkle_level del: drop_eq_Nil)
    have "length ?r > 0" using False by simp
    then have ne: "length (merkle_level so ?r) > 0"
      unfolding length_merkle_level by arith
    from app len ne
    have "tree_root so (Suc d) (merkle_level so xs) =
        combine_hash so (tree_root so d (merkle_level so ?l)) (tree_root so d (merkle_level so ?r))"
      by (simp add: Let_def)
    with False l r show ?thesis
      by (simp only: tree_root.simps(2)[of so "Suc d"] Let_def) simp
  qed
qed

theorem merkle_loop_tree:
  "xs \<noteq> [] \<Longrightarrow> length xs \<le> 2 ^ d \<Longrightarrow> 2 ^ d < 2 * length xs \<Longrightarrow>
   compute_merkle_root so xs = tree_root so d xs"
proof (induction d arbitrary: xs)
  case 0
  then show ?case by (cases xs) (auto simp: compute_merkle_root_single)
next
  case (Suc d)
  then have gt1: "length xs > 1" by (cases d) auto
  have "compute_merkle_root so xs = compute_merkle_root so (merkle_level so xs)"
    using gt1 by (rule compute_merkle_root_level)
  also have "\<dots> = tree_root so d (merkle_level so xs)"
  proof (rule Suc.IH)
    show "merkle_level so xs \<noteq> []"
      using gt1 length_merkle_level[of so xs] by auto
  qed (use Suc.prems in \<open>auto simp: length_merkle_level\<close>)
  also have "\<dots> = tree_root so (Suc d) xs"
    using Suc.prems by (intro tree_root_level[symmetric]) auto
  finally show ?case .
qed

subsection \<open>Binding\<close>

text \<open>
  The byte strings that computing a root hashes, in order. Two lists of the same length with the same
  root are equal, unless two different strings among these have the same BLAKE2b hash.
\<close>

fun pair_inputs :: "hash list \<Rightarrow> bytes list" where
  "pair_inputs (a # b # cs) = (a @ b) # pair_inputs cs"
| "pair_inputs _ = []"

definition level_inputs :: "hash list \<Rightarrow> bytes list" where
  "level_inputs cur = pair_inputs (if odd (length cur) then cur @ [last cur] else cur)"

function merkle_inputs :: "sodium \<Rightarrow> hash list \<Rightarrow> bytes list" where
  "merkle_inputs so cur =
     (if length cur > 1 then level_inputs cur @ merkle_inputs so (merkle_level so cur) else [])"
  by pat_completeness auto
termination
  by (relation "measure (\<lambda>(so, cur). length cur)") (auto simp: length_merkle_level)

declare merkle_inputs.simps [simp del]

lemma merkle_pairs_map: "merkle_pairs so xs = map (blake2b so) (pair_inputs xs)"
  by (induction so xs rule: merkle_pairs.induct) (simp_all add: combine_hash_def)

lemma merkle_level_map: "merkle_level so xs = map (blake2b so) (level_inputs xs)"
  by (simp add: merkle_level_def level_inputs_def merkle_pairs_map)

lemma pair_inputs_inj:
  "pair_inputs xs = pair_inputs ys \<Longrightarrow> length xs = length ys \<Longrightarrow> even (length xs) \<Longrightarrow>
   \<forall>h \<in> set xs \<union> set ys. length h = n \<Longrightarrow> xs = ys"
proof (induction xs arbitrary: ys rule: pair_inputs.induct)
  case (1 a b cs)
  then obtain a' b' cs' where "ys = a' # b' # cs'"
    by (cases ys; cases "tl ys") auto
  with 1 show ?case by auto
qed auto

lemma level_inputs_inj:
  assumes "level_inputs xs = level_inputs ys" "length xs = length ys"
    and "\<forall>h \<in> set xs \<union> set ys. length h = n" and "xs \<noteq> []"
  shows "xs = ys"
proof (cases "odd (length xs)")
  case True
  have "ys \<noteq> []" using assms(2,4) by auto
  have "xs @ [last xs] = ys @ [last ys]"
  proof (rule pair_inputs_inj)
    show "pair_inputs (xs @ [last xs]) = pair_inputs (ys @ [last ys])"
      using assms(1,2) True by (simp add: level_inputs_def)
    show "\<forall>h \<in> set (xs @ [last xs]) \<union> set (ys @ [last ys]). length h = n"
      using assms(3,4) \<open>ys \<noteq> []\<close> by (auto dest: last_in_set)
  qed (use assms(2) True in auto)
  then show ?thesis by simp
next
  case False
  with assms(1,2) have "pair_inputs xs = pair_inputs ys" by (simp add: level_inputs_def)
  with assms False show ?thesis by (auto intro: pair_inputs_inj)
qed

lemma length_level_inputs: "length (level_inputs xs) = length (merkle_level so xs)"
  by (simp add: merkle_level_map)

lemma map_inj_on_eq:
  "inj_on f (set xs \<union> set ys) \<Longrightarrow> map f xs = map f ys \<Longrightarrow> xs = ys"
  by (rule inj_on_map_eq_map[THEN iffD1])

theorem merkle_root_binding:
  "sodium_ok so \<Longrightarrow> length xs = length ys \<Longrightarrow>
   \<forall>h \<in> set xs \<union> set ys. length h = 32 \<Longrightarrow>
   inj_on (blake2b so) (set (merkle_inputs so xs) \<union> set (merkle_inputs so ys)) \<Longrightarrow>
   compute_merkle_root so xs = compute_merkle_root so ys \<Longrightarrow> xs = ys"
proof (induction so xs arbitrary: ys rule: merkle_loop.induct)
  case (1 so xs)
  show ?case
  proof (cases "length xs > 1")
    case False
    with "1.prems" show ?thesis
      by (cases xs; cases ys) (auto simp: compute_merkle_root_single)
  next
    case True
    let ?xs = "merkle_level so xs" and ?ys = "merkle_level so ys"
    from True "1.prems"(2) have True': "length ys > 1" by simp
    have ix: "merkle_inputs so xs = level_inputs xs @ merkle_inputs so ?xs"
      and iy: "merkle_inputs so ys = level_inputs ys @ merkle_inputs so ?ys"
      using True True' by (simp_all add: merkle_inputs.simps[of so xs] merkle_inputs.simps[of so ys])
    have "?xs = ?ys"
    proof (rule "1.IH"[OF True "1.prems"(1)])
      show "length ?xs = length ?ys"
        using "1.prems"(2) by (simp add: length_merkle_level)
      show "\<forall>h \<in> set ?xs \<union> set ?ys. length h = 32"
        using merkle_level_hashes "1.prems"(1) by blast
      show "inj_on (blake2b so) (set (merkle_inputs so ?xs) \<union> set (merkle_inputs so ?ys))"
        using "1.prems"(4) by (rule inj_on_subset) (auto simp: ix iy)
      show "compute_merkle_root so ?xs = compute_merkle_root so ?ys"
        using "1.prems"(5) True True' by (simp add: compute_merkle_root_level)
    qed
    moreover have "inj_on (blake2b so) (set (level_inputs xs) \<union> set (level_inputs ys))"
      using "1.prems"(4) by (rule inj_on_subset) (auto simp: ix iy)
    ultimately have "level_inputs xs = level_inputs ys"
      by (simp add: merkle_level_map map_inj_on_eq)
    then show ?thesis
      using "1.prems"(2,3) True by (intro level_inputs_inj[of xs ys 32]) auto
  qed
qed

text \<open>
  The lengths matter: an odd list longer than one and the same list with its last element repeated
  have the same root.
\<close>

theorem merkle_root_duplicate_last:
  "odd (length xs) \<Longrightarrow> length xs > 1 \<Longrightarrow>
   compute_merkle_root so (xs @ [last xs]) = compute_merkle_root so xs"
  using compute_merkle_root_level[of xs so] compute_merkle_root_level[of "xs @ [last xs]" so]
  by (cases "xs = []") (auto simp: merkle_level_def)


section \<open>Hex and decimal strings (\<^verbatim>\<open>util.h\<close>)\<close>

definition to_hex :: "sodium \<Rightarrow> bytes \<Rightarrow> string" where
  "to_hex so arr = bin2hex so arr"

definition from_hex :: "sodium \<Rightarrow> nat \<Rightarrow> string \<Rightarrow> exn + bytes" where
  "from_hex so N hex =
     (if length hex \<noteq> N * 2 then Inl (Runtime_error ''invalid hex length'')
      else case hex2bin so N hex of
             None \<Rightarrow> Inl (Runtime_error ''invalid hex data'')
           | Some bs \<Rightarrow> Inr bs)"

definition short_hex :: "sodium \<Rightarrow> hash \<Rightarrow> string" where
  "short_hex so h = to_hex so h"

definition short_addr :: "sodium \<Rightarrow> address \<Rightarrow> string" where
  "short_addr so a =
     (let full = to_hex so a in take 8 full @ ''..'' @ drop (length full - 8) full)"

text \<open>\<^verbatim>\<open>std::to_string\<close> on unsigned integers.\<close>

definition digit_char :: "nat \<Rightarrow> char" where
  "digit_char d = char_of (48 + d)"

fun nat_to_string :: "nat \<Rightarrow> string" where
  "nat_to_string n =
     (if n < 10 then [digit_char n] else nat_to_string (n div 10) @ [digit_char (n mod 10)])"

declare nat_to_string.simps [simp del]

definition format_amount :: "u64 \<Rightarrow> u64 \<Rightarrow> string" where
  \<comment> \<open>the second parameter, the number of units of one coin, is not used\<close>
  "format_amount amount _ = nat_to_string (unat amount)"

lemma length_to_hex: "sodium_ok so \<Longrightarrow> length (to_hex so arr) = 2 * length arr"
  by (simp add: to_hex_def sodium_okD(2))

theorem hex_roundtrip: "sodium_ok so \<Longrightarrow> from_hex so (length arr) (to_hex so arr) = Inr arr"
  by (simp add: from_hex_def to_hex_def sodium_okD)

lemma from_hex_length: "sodium_ok so \<Longrightarrow> from_hex so N hex = Inr bs \<Longrightarrow> length bs = N"
  by (auto simp: from_hex_def dest: sodium_okD(5) split: if_splits option.splits)

lemma from_hex_exn:
  "from_hex so N hex = Inl e \<longleftrightarrow>
     (if length hex \<noteq> N * 2 then e = Runtime_error ''invalid hex length''
      else hex2bin so N hex = None \<and> e = Runtime_error ''invalid hex data'')"
  by (auto simp: from_hex_def split: option.splits)

end
