(* ===== verification/Calendar.thy ===== *)
theory Calendar
  imports Crypto
begin

text \<open>
  \<^verbatim>\<open>format_timestamp\<close> of \<^verbatim>\<open>include/axis/util.h\<close> with the two functions of the C library that it calls, \<^verbatim>\<open>gmtime\<close>
  and \<^verbatim>\<open>strftime\<close>: the proleptic Gregorian calendar over unbounded integers, and the null pointer that
  \<^verbatim>\<open>gmtime\<close> returns for a year that does not fit the \<^verbatim>\<open>int\<close> of a \<^verbatim>\<open>struct tm\<close>. Shown: \<open>gmtime\<close> is the inverse of
  counting the seconds of a date, and for which timestamps \<open>format_timestamp\<close> is defined.
\<close>

section \<open>The calendar\<close>

definition leap_year :: "int \<Rightarrow> bool" where
  "leap_year y \<longleftrightarrow> 4 dvd y \<and> (\<not> 100 dvd y \<or> 400 dvd y)"

definition month_lengths :: "int \<Rightarrow> int list" where
  "month_lengths y = [31, if leap_year y then 29 else 28, 31, 30, 31, 30, 31, 31, 30, 31, 30, 31]"

text \<open>The leap years from 1 to \<open>y\<close>, and the days from the first of January 1970 to that of year \<open>y\<close>.\<close>

definition leap_years_to :: "int \<Rightarrow> int" where
  "leap_years_to y = y div 4 - y div 100 + y div 400"

definition days_before_year :: "int \<Rightarrow> int" where
  "days_before_year y = 365 * (y - 1970) + leap_years_to (y - 1) - leap_years_to 1969"

text \<open>The year of a day: 400 years have 146097 days, so the quotient is off by at most one.\<close>

definition civil_year :: "int \<Rightarrow> int" where
  "civil_year d =
     (let y = 1970 + 400 * d div 146097
      in if d < days_before_year y then y - 1
         else if days_before_year (y + 1) \<le> d then y + 1 else y)"

text \<open>Month and day, from 1, of a day of the year, from 0.\<close>

primrec split_month :: "int list \<Rightarrow> int \<Rightarrow> int \<times> int" where
  "split_month [] n = (1, n + 1)"
| "split_month (l # ls) n =
     (if n < l then (1, n + 1) else case split_month ls (n - l) of (m, d) \<Rightarrow> (m + 1, d))"

record tm =
  tm_year :: int
  tm_mon :: int
  tm_mday :: int
  tm_hour :: int
  tm_min :: int
  tm_sec :: int

text \<open>\<^verbatim>\<open>tm_year\<close> counts from 1900 in an \<^verbatim>\<open>int\<close>; the record has the year itself.\<close>

definition year_fits :: "int \<Rightarrow> bool" where
  "year_fits y \<longleftrightarrow> - (2 ^ 31) \<le> y - 1900 \<and> y - 1900 < 2 ^ 31"

definition gmtime :: "int \<Rightarrow> tm option" where
  "gmtime t =
     (let d = t div 86400; s = t mod 86400; y = civil_year d;
          (m, md) = split_month (month_lengths y) (d - days_before_year y)
      in if year_fits y
         then Some \<lparr>tm_year = y, tm_mon = m, tm_mday = md,
                    tm_hour = s div 3600, tm_min = s div 60 mod 60, tm_sec = s mod 60\<rparr>
         else None)"


section \<open>Printing\<close>

definition int_to_string :: "int \<Rightarrow> string" where
  "int_to_string n = (if n < 0 then CHR ''-'' # nat_to_string (nat (- n)) else nat_to_string (nat n))"

definition two_digits :: "int \<Rightarrow> string" where
  "two_digits n = [digit_char (nat (n div 10)), digit_char (nat (n mod 10))]"

text \<open>
  \<^verbatim>\<open>strftime\<close> with the conversions the program uses; any other is left out. The result always fits the 32 bytes of
  the buffer.
\<close>

definition conversion :: "char \<Rightarrow> tm \<Rightarrow> string" where
  "conversion ch t =
     (if ch = CHR ''Y'' then int_to_string (tm_year t)
      else if ch = CHR ''m'' then two_digits (tm_mon t)
      else if ch = CHR ''d'' then two_digits (tm_mday t)
      else if ch = CHR ''H'' then two_digits (tm_hour t)
      else if ch = CHR ''M'' then two_digits (tm_min t)
      else if ch = CHR ''S'' then two_digits (tm_sec t)
      else [])"

fun strftime :: "string \<Rightarrow> tm \<Rightarrow> string" where
  "strftime [] t = []"
| "strftime [ch] t = [ch]"
| "strftime (ch # ch' # fmt) t =
     (if ch = CHR ''%'' then conversion ch' t @ strftime fmt t else ch # strftime (ch' # fmt) t)"

text \<open>
  \<^verbatim>\<open>time_t\<close> is a signed 64-bit integer. The result of \<^verbatim>\<open>gmtime\<close> goes to \<^verbatim>\<open>strftime\<close> without a look: when it is
  the null pointer the behaviour is undefined (glibc reads through it), which is \<open>None\<close> here.
\<close>

definition format_timestamp :: "u64 \<Rightarrow> string option" where
  "format_timestamp ts = map_option (strftime ''%Y-%m-%d %H:%M:%S'') (gmtime (sint ts))"

lemma strftime_timestamp:
  "strftime ''%Y-%m-%d %H:%M:%S'' t =
     int_to_string (tm_year t) @ ''-'' @ two_digits (tm_mon t) @ ''-'' @ two_digits (tm_mday t) @ '' '' @
     two_digits (tm_hour t) @ '':'' @ two_digits (tm_min t) @ '':'' @ two_digits (tm_sec t)"
  by (simp add: conversion_def)


section \<open>Facts about the calendar\<close>

lemma leap_years_to_bounds:
  "400 * leap_years_to y \<le> 97 * y + 396" "97 * y - 699 \<le> 400 * leap_years_to y"
proof -
  have "m * (y div m) \<le> y" "y < m * (y div m) + m" if "0 < m" for m
    using that pos_mod_bound[OF that, of y] pos_mod_sign[OF that, of y] mult_div_mod_eq[of m y] by linarith+
  from this[of 4] this[of 100] this[of 400]
  show "400 * leap_years_to y \<le> 97 * y + 396" "97 * y - 699 \<le> 400 * leap_years_to y"
    unfolding leap_years_to_def by simp_all
qed

lemma leap_years_to_Suc: "leap_years_to y = leap_years_to (y - 1) + (if leap_year y then 1 else 0)"
proof -
  have step: "y div m = (y - 1) div m + (if m dvd y then 1 else 0)" if "0 < m" for m :: int
  proof (cases "m dvd y")
    case True
    then obtain k where "y = m * k" by blast
    moreover have "(m * k - 1) div m = k - 1"
      using that by (intro int_div_pos_eq[where r = "m - 1"]) (simp_all add: algebra_simps)
    ultimately show ?thesis using True that by simp
  next
    case False
    then have "0 < y mod m" using that by (simp add: dvd_eq_mod_eq_0 order_less_le)
    moreover have "y = m * (y div m) + y mod m" by simp
    ultimately have "(y - 1) div m = y div m"
      using that pos_mod_bound[OF that, of y] by (intro int_div_pos_eq[where r = "y mod m - 1"]) simp_all
    with False show ?thesis by simp
  qed
  have "(4 :: int) dvd 100" "(100 :: int) dvd 400" by simp_all
  then have "100 dvd y \<longrightarrow> 4 dvd y" "400 dvd y \<longrightarrow> 100 dvd y"
    using dvd_trans by blast+
  then show ?thesis
    using step[of 4] step[of 100] step[of 400] unfolding leap_years_to_def leap_year_def
    by (cases "4 dvd y"; cases "100 dvd y"; cases "400 dvd y"; simp only: if_True if_False simp_thms; linarith)
qed

lemma days_before_year_Suc: "days_before_year (y + 1) = days_before_year y + sum_list (month_lengths y)"
  using leap_years_to_Suc[of y] by (simp add: days_before_year_def month_lengths_def)

lemma leap_years_to_1969: "leap_years_to 1969 = 477"
  by (simp add: leap_years_to_def)

lemma days_before_year_mono: "y \<le> z \<Longrightarrow> days_before_year y \<le> days_before_year z"
proof (induction z rule: int_ge_induct)
  case (step z)
  then show ?case by (simp add: days_before_year_Suc month_lengths_def)
qed simp

lemma civil_year_bounds:
  "days_before_year (civil_year d) \<le> d \<and> d < days_before_year (civil_year d + 1)"
proof -
  define q where "q = 400 * d div 146097"
  have q: "146097 * q \<le> 400 * d" "400 * d < 146097 * (q + 1)"
    unfolding q_def using pos_mod_bound[of 146097 "400 * d"] pos_mod_sign[of 146097 "400 * d"]
      mult_div_mod_eq[of 146097 "400 * d"] distrib_left[of 146097 "400 * d div 146097" 1]
    by linarith+
  have "days_before_year (1970 + q - 1) \<le> d"
    using q leap_years_to_bounds(1)[of "1970 + q - 1 - 1"]
    by (simp add: days_before_year_def leap_years_to_1969)
  moreover have "d < days_before_year (1970 + q + 1 + 1)"
    using q leap_years_to_bounds(2)[of "1970 + q + 1 + 1 - 1"]
    by (simp add: days_before_year_def leap_years_to_1969)
  ultimately show ?thesis
    unfolding civil_year_def q_def[symmetric] by (auto simp: Let_def)
qed

lemma civil_year_unique:
  assumes "days_before_year y \<le> d" "d < days_before_year (y + 1)"
  shows "civil_year d = y"
proof (rule antisym)
  show "civil_year d \<le> y"
  proof (rule ccontr)
    assume "\<not> civil_year d \<le> y"
    then have "days_before_year (y + 1) \<le> days_before_year (civil_year d)"
      by (intro days_before_year_mono) simp
    with assms(2) civil_year_bounds[of d] show False by simp
  qed
  show "y \<le> civil_year d"
  proof (rule ccontr)
    assume "\<not> y \<le> civil_year d"
    then have "days_before_year (civil_year d + 1) \<le> days_before_year y"
      by (intro days_before_year_mono) simp
    with assms(1) civil_year_bounds[of d] show False by simp
  qed
qed

text \<open>Splitting off the month is the inverse of adding the lengths of the months before.\<close>

lemma split_month_eq:
  assumes "list_all (\<lambda>l. 0 < l) ls" "0 \<le> n" "n < sum_list ls"
  shows "split_month ls n = (m, d) \<longleftrightarrow>
    1 \<le> m \<and> m \<le> int (length ls) \<and> 1 \<le> d \<and> d \<le> ls ! nat (m - 1) \<and>
    n = sum_list (take (nat (m - 1)) ls) + d - 1"
  using assms
proof (induction ls arbitrary: n m)
  case Nil
  then show ?case by simp
next
  case (Cons l ls)
  show ?case
  proof (cases "n < l")
    case True
    have pos: "0 \<le> sum_list (take k ls)" for k
      using Cons.prems(1) by (intro sum_list_nonneg) (auto simp: list_all_iff less_imp_le dest!: in_set_takeD)
    show ?thesis
    proof
      assume r: "1 \<le> m \<and> m \<le> int (length (l # ls)) \<and> 1 \<le> d \<and> d \<le> (l # ls) ! nat (m - 1) \<and>
        n = sum_list (take (nat (m - 1)) (l # ls)) + d - 1"
      have "m = 1"
      proof (rule ccontr)
        assume "m \<noteq> 1"
        with r have "nat (m - 1) = Suc (nat (m - 2))" by linarith
        with r True pos[of "nat (m - 2)"] show False by simp
      qed
      with r True show "split_month (l # ls) n = (m, d)" by simp
    qed (use True Cons.prems in auto)
  next
    case False
    have "split_month (l # ls) n = (m, d) \<longleftrightarrow> split_month ls (n - l) = (m - 1, d)"
      using False by (auto split: prod.splits)
    also have "\<dots> \<longleftrightarrow> 1 \<le> m - 1 \<and> m - 1 \<le> int (length ls) \<and> 1 \<le> d \<and> d \<le> ls ! nat (m - 1 - 1) \<and>
        n - l = sum_list (take (nat (m - 1 - 1)) ls) + d - 1"
      using False Cons.prems by (intro Cons.IH) auto
    also have "\<dots> \<longleftrightarrow> 1 \<le> m \<and> m \<le> int (length (l # ls)) \<and> 1 \<le> d \<and> d \<le> (l # ls) ! nat (m - 1) \<and>
        n = sum_list (take (nat (m - 1)) (l # ls)) + d - 1"
    proof (cases "m = 1")
      case True
      with False show ?thesis by auto
    next
      case m: False
      show ?thesis
      proof (cases "1 \<le> m")
        case True
        with m have "nat (m - 1) = Suc (nat (m - 1 - 1))" by linarith
        with True m show ?thesis by auto
      qed auto
    qed
    finally show ?thesis .
  qed
qed


section \<open>The inverse of \<open>gmtime\<close>\<close>

definition tm_ok :: "tm \<Rightarrow> bool" where
  "tm_ok t \<longleftrightarrow> year_fits (tm_year t) \<and> 1 \<le> tm_mon t \<and> tm_mon t \<le> 12 \<and>
     1 \<le> tm_mday t \<and> tm_mday t \<le> month_lengths (tm_year t) ! nat (tm_mon t - 1) \<and>
     tm_hour t \<in> {0..<24} \<and> tm_min t \<in> {0..<60} \<and> tm_sec t \<in> {0..<60}"

text \<open>The seconds from the epoch to a date.\<close>

definition days_to :: "int \<Rightarrow> int \<Rightarrow> int \<Rightarrow> int" where
  "days_to y m md = days_before_year y + sum_list (take (nat (m - 1)) (month_lengths y)) + md - 1"

definition timegm :: "tm \<Rightarrow> int" where
  "timegm t = days_to (tm_year t) (tm_mon t) (tm_mday t) * 86400 +
     tm_hour t * 3600 + tm_min t * 60 + tm_sec t"

lemma length_month_lengths [simp]: "length (month_lengths y) = 12"
  by (simp add: month_lengths_def)

lemma month_lengths_pos: "list_all (\<lambda>l. 0 < l) (month_lengths y)"
  by (simp add: month_lengths_def)

text \<open>A day has exactly one date.\<close>

lemma civil_date_iff:
  "civil_year d = y \<and> split_month (month_lengths y) (d - days_before_year y) = (m, md) \<longleftrightarrow>
     1 \<le> m \<and> m \<le> 12 \<and> 1 \<le> md \<and> md \<le> month_lengths y ! nat (m - 1) \<and> d = days_to y m md"
proof -
  let ?ls = "month_lengths y" and ?n = "d - days_before_year y"
  have split: "split_month ?ls ?n = (m, md) \<longleftrightarrow>
      1 \<le> m \<and> m \<le> 12 \<and> 1 \<le> md \<and> md \<le> ?ls ! nat (m - 1) \<and> d = days_to y m md"
    if "0 \<le> ?n" "?n < sum_list ?ls"
    using split_month_eq[OF month_lengths_pos that, of m md] by (auto simp: days_to_def)
  show ?thesis
  proof
    assume l: "civil_year d = y \<and> split_month ?ls ?n = (m, md)"
    then have "0 \<le> ?n" "?n < sum_list ?ls"
      using civil_year_bounds[of d] days_before_year_Suc[of y] by auto
    with split l show "1 \<le> m \<and> m \<le> 12 \<and> 1 \<le> md \<and> md \<le> ?ls ! nat (m - 1) \<and> d = days_to y m md"
      by blast
  next
    assume r: "1 \<le> m \<and> m \<le> 12 \<and> 1 \<le> md \<and> md \<le> ?ls ! nat (m - 1) \<and> d = days_to y m md"
    have nonneg: "0 \<le> sum_list (take k ?ls)" "0 \<le> sum_list (drop k ?ls)" for k
      using month_lengths_pos[of y]
      by (auto intro!: sum_list_nonneg simp: list_all_iff less_imp_le dest!: in_set_takeD in_set_dropD)
    have "sum_list ?ls = sum_list (take (nat (m - 1)) ?ls) + sum_list (drop (nat (m - 1)) ?ls)"
      by (metis append_take_drop_id sum_list_append)
    moreover have "sum_list (drop (nat (m - 1)) ?ls) =
        ?ls ! nat (m - 1) + sum_list (drop (Suc (nat (m - 1))) ?ls)"
      using r by (subst Cons_nth_drop_Suc[symmetric]) auto
    ultimately have n: "0 \<le> ?n" "?n < sum_list ?ls"
      using r nonneg(1)[of "nat (m - 1)"] nonneg(2)[of "Suc (nat (m - 1))"] by (auto simp: days_to_def)
    then have "civil_year d = y"
      using days_before_year_Suc[of y] by (intro civil_year_unique) auto
    with split[OF n] r show "civil_year d = y \<and> split_month ?ls ?n = (m, md)" by blast
  qed
qed

lemma seconds_iff:
  "t div 86400 = d \<and> t mod 86400 div 3600 = h \<and> t mod 86400 div 60 mod 60 = mi \<and> t mod 86400 mod 60 = s \<longleftrightarrow>
     h \<in> {0..<24} \<and> mi \<in> {0..<60} \<and> s \<in> {0..<60} \<and> (t :: int) = d * 86400 + h * 3600 + mi * 60 + s"
  (is "?l \<longleftrightarrow> ?r")
proof
  assume l: ?l
  define r where "r = t mod 86400"
  have "t div 86400 = d" using l by (rule conjunct1)
  then have r: "t = 86400 * d + r" "0 \<le> r" "r < 86400"
    unfolding r_def by (metis mult_div_mod_eq, simp_all only: pos_mod_sign pos_mod_bound zero_less_numeral)
  have parts: "r mod 60 = s" "r div 60 mod 60 = mi" "r div 3600 = h" using l unfolding r_def by blast+
  have s: "r = 60 * (r div 60) + s" "0 \<le> s" "s < 60"
    unfolding parts(1)[symmetric] by simp_all
  have "r div 60 div 60 = r div 3600" by (simp add: zdiv_zmult2_eq[symmetric])
  then have mi: "r div 60 = 60 * h + mi" "0 \<le> mi" "mi < 60"
    using mult_div_mod_eq[of 60 "r div 60"] unfolding parts(2,3)[symmetric] by simp_all
  from r s mi have "t = d * 86400 + h * 3600 + mi * 60 + s" by linarith
  moreover from r s mi have "0 \<le> h" "h < 24" by linarith+
  ultimately show ?r using s mi unfolding atLeastLessThan_iff by blast
next
  assume r: ?r
  let ?s = "h * 3600 + mi * 60 + s"
  have s: "0 \<le> ?s" "?s < 86400" using r by auto
  have t: "t = 86400 * d + ?s" using r by simp
  have d: "t div 86400 = d" using s t by (intro int_div_pos_eq[where r = ?s]) simp_all
  have m: "t mod 86400 = ?s" using s t by (intro int_mod_pos_eq[where q = d]) simp_all
  have "?s div 3600 = h" using r by (intro int_div_pos_eq[where r = "mi * 60 + s"]) auto
  moreover have "?s div 60 = h * 60 + mi" using r by (intro int_div_pos_eq[where r = s]) auto
  moreover have "(h * 60 + mi) mod 60 = mi" using r by (intro int_mod_pos_eq[where q = h]) auto
  moreover have "?s mod 60 = s" using r by (intro int_mod_pos_eq[where q = "h * 60 + mi"]) auto
  ultimately show ?l unfolding d m by (intro conjI) (simp_all only:)
qed

lemma gmtime_iff: "gmtime t = Some x \<longleftrightarrow> tm_ok x \<and> timegm x = t"
proof -
  obtain y m md h mi s where x: "x = \<lparr>tm_year = y, tm_mon = m, tm_mday = md, tm_hour = h, tm_min = mi, tm_sec = s\<rparr>"
    by (cases x)
  define d where "d = t div 86400"
  obtain m' md' where sm: "split_month (month_lengths (civil_year d)) (d - days_before_year (civil_year d)) = (m', md')"
    by fastforce
  define time where "time \<longleftrightarrow> t mod 86400 div 3600 = h \<and> t mod 86400 div 60 mod 60 = mi \<and> t mod 86400 mod 60 = s"
  have date: "civil_year d = y \<and> m' = m \<and> md' = md \<longleftrightarrow>
      1 \<le> m \<and> m \<le> 12 \<and> 1 \<le> md \<and> md \<le> month_lengths y ! nat (m - 1) \<and> d = days_to y m md"
    using sm unfolding civil_date_iff[symmetric] by auto
  have clock: "d = days_to y m md \<and> time \<longleftrightarrow>
      h \<in> {0..<24} \<and> mi \<in> {0..<60} \<and> s \<in> {0..<60} \<and> timegm x = t"
    unfolding d_def time_def seconds_iff timegm_def x tm.select_convs by (simp only: eq_commute)
  have "gmtime t = Some x \<longleftrightarrow> year_fits (civil_year d) \<and> (civil_year d = y \<and> m' = m \<and> md' = md) \<and> time"
    unfolding gmtime_def Let_def d_def[symmetric] sm x prod.case time_def by simp
  also have "\<dots> \<longleftrightarrow> year_fits y \<and> (civil_year d = y \<and> m' = m \<and> md' = md) \<and> time"
    by blast
  also have "\<dots> \<longleftrightarrow> tm_ok x \<and> timegm x = t"
    unfolding date using clock unfolding tm_ok_def x tm.select_convs by blast
  finally show ?thesis .
qed

text \<open>The timestamps that can be printed: the years \<open>- 2147481748\<close> to 2147485547.\<close>

lemma gmtime_None_iff: "gmtime t = None \<longleftrightarrow> t < - 67768040609740800 \<or> 67768036191676799 < t"
proof -
  let ?d = "t div 86400" and ?lo = "- 2147481748 :: int" and ?hi = "2147485547 :: int"
  have day: "t = 86400 * ?d + t mod 86400" "0 \<le> t mod 86400" "t mod 86400 < 86400" by simp_all
  have "gmtime t = None \<longleftrightarrow> \<not> year_fits (civil_year ?d)"
    by (auto simp: gmtime_def Let_def split: prod.splits)
  also have "\<dots> \<longleftrightarrow> civil_year ?d < ?lo \<or> ?hi < civil_year ?d"
    by (auto simp: year_fits_def)
  also have "civil_year ?d < ?lo \<longleftrightarrow> ?d < days_before_year ?lo"
    using civil_year_bounds[of ?d] days_before_year_mono[of ?lo "civil_year ?d"]
      days_before_year_mono[of "civil_year ?d + 1" ?lo] by linarith
  also have "?hi < civil_year ?d \<longleftrightarrow> days_before_year (?hi + 1) \<le> ?d"
    using civil_year_bounds[of ?d] days_before_year_mono[of "?hi + 1" "civil_year ?d"]
      days_before_year_mono[of "civil_year ?d + 1" "?hi + 1"] by linarith
  also have "days_before_year ?lo = - 784352321872"
    by (simp add: days_before_year_def leap_years_to_def)
  also have "days_before_year (?hi + 1) = 784352270737"
    by (simp add: days_before_year_def leap_years_to_def)
  also have "?d < - 784352321872 \<longleftrightarrow> t < - 67768040609740800"
    using day by linarith
  also have "784352270737 \<le> ?d \<longleftrightarrow> 67768036191676799 < t"
    using day by linarith
  finally show ?thesis .
qed

lemma format_timestamp_None_iff:
  "format_timestamp ts = None \<longleftrightarrow> sint ts < - 67768040609740800 \<or> 67768036191676799 < sint ts"
  by (simp add: format_timestamp_def gmtime_None_iff)

end
