(* ===== verification/Tx.thy ===== *)
theory Tx
  imports Calendar
begin

text \<open>
  \<^verbatim>\<open>include/axis/tx.h\<close> and \<^verbatim>\<open>src/tx.cpp\<close>: transactions, their identifiers and their binary form. The
  constructor computes the identifier (\<open>mk_transaction\<close>); \<open>tx_deserialize\<close> takes it from the input.
  The codec contract of theory Wire is interpreted on out-points, outputs and whole transactions.
\<close>

section \<open>Data\<close>

record outpoint =
  op_txid :: hash
  op_index :: u32

record txoutput =
  recipient :: address
  amount :: u64

record transaction =
  txid :: hash
  inputs :: "outpoint list"
  outputs :: "txoutput list"
  tx_timestamp :: u64

record signed_transaction =
  st_tx :: transaction
  st_pubkey :: public_key
  st_sig :: signature

text \<open>
  \<^verbatim>\<open>std::hash<OutPoint>\<close>: the first eight bytes of the identifier, copied into a \<^verbatim>\<open>size_t\<close> of 64 bits, and the
  index. Out-points of one transaction never collide.
\<close>

definition first_word :: "bytes \<Rightarrow> u64" where
  "first_word bs = word_of_int (le_int (take 8 bs))"

definition outpoint_hasher :: "outpoint \<Rightarrow> u64" where
  "outpoint_hasher op = Bit_Operations.xor (first_word (op_txid op)) (ucast (op_index op))"

lemma outpoint_hasher_index:
  assumes "op_txid op = op_txid op'" "outpoint_hasher op = outpoint_hasher op'"
  shows "op = op'"
proof -
  have "ucast (op_index op) = (ucast (op_index op') :: u64)"
    using arg_cong[OF assms(2), of "Bit_Operations.xor (first_word (op_txid op))"] assms(1)
    by (simp add: outpoint_hasher_def flip: xor.assoc)
  then have "unat (ucast (op_index op) :: u64) = unat (ucast (op_index op') :: u64)" by simp
  moreover have "unat (ucast i :: u64) = unat i" for i :: u32
  proof -
    have "unat i < 2 ^ 32" using unsigned_less[of i] by simp
    then have "unat i < 2 ^ 64" by simp
    then have "take_bit 64 (unat i) = unat i" by (rule take_bit_nat_eq_self)
    then show ?thesis by (simp add: unsigned_ucast_eq)
  qed
  ultimately have "op_index op = op_index op'" by (simp only: word_unat_eq_iff)
  with assms(1) show ?thesis by simp
qed

definition put_outpoint :: "outpoint \<Rightarrow> writer \<Rightarrow> writer" where
  "put_outpoint op w = put_u32 (op_index op) (put_hash (op_txid op) w)"

definition take_outpoint :: "outpoint parser" where
  "take_outpoint =
     pbind take_hash (\<lambda>h. pbind take_u32 (\<lambda>i. preturn \<lparr>op_txid = h, op_index = i\<rparr>))"

definition put_txoutput :: "txoutput \<Rightarrow> writer \<Rightarrow> writer" where
  "put_txoutput out w = put_u64 (amount out) (put_addr (recipient out) w)"

definition take_txoutput :: "txoutput parser" where
  "take_txoutput =
     pbind take_addr (\<lambda>a. pbind take_u64 (\<lambda>v. preturn \<lparr>recipient = a, amount = v\<rparr>))"


section \<open>The identifier\<close>

text \<open>
  \<open>hash_preimage\<close> is the buffer of \<^verbatim>\<open>Transaction::compute_hash\<close>: inputs, outputs and timestamp, without
  their numbers.
\<close>

definition hash_preimage :: "outpoint list \<Rightarrow> txoutput list \<Rightarrow> u64 \<Rightarrow> bytes" where
  "hash_preimage ins outs ts =
     put_u64 ts (put_many put_txoutput outs (put_many put_outpoint ins []))"

definition compute_hash :: "sodium \<Rightarrow> transaction \<Rightarrow> transaction" where
  "compute_hash so tx =
     tx\<lparr>txid := blake2b so (hash_preimage (inputs tx) (outputs tx) (tx_timestamp tx))\<rparr>"

definition mk_transaction ::
    "sodium \<Rightarrow> outpoint list \<Rightarrow> txoutput list \<Rightarrow> u64 \<Rightarrow> transaction" where
  "mk_transaction so ins outs ts =
     compute_hash so \<lparr>txid = zero_hash, inputs = ins, outputs = outs, tx_timestamp = ts\<rparr>"

definition is_coinbase :: "transaction \<Rightarrow> bool" where
  "is_coinbase tx \<longleftrightarrow> inputs tx = []"

definition tx_eq :: "transaction \<Rightarrow> transaction \<Rightarrow> bool" where
  \<comment> \<open>\<^verbatim>\<open>operator==\<close>\<close>
  "tx_eq a b \<longleftrightarrow> txid a = txid b"

lemma mk_transaction_simps [simp]:
  "inputs (mk_transaction so ins outs ts) = ins"
  "outputs (mk_transaction so ins outs ts) = outs"
  "tx_timestamp (mk_transaction so ins outs ts) = ts"
  "txid (mk_transaction so ins outs ts) = blake2b so (hash_preimage ins outs ts)"
  by (simp_all add: mk_transaction_def compute_hash_def)

text \<open>A transaction whose identifier is the one its constructor computes.\<close>

definition txid_ok :: "sodium \<Rightarrow> transaction \<Rightarrow> bool" where
  "txid_ok so tx \<longleftrightarrow>
     txid tx = blake2b so (hash_preimage (inputs tx) (outputs tx) (tx_timestamp tx))"

lemma txid_ok_mk_transaction [simp]: "txid_ok so (mk_transaction so ins outs ts)"
  by (simp add: txid_ok_def)


section \<open>Binary form\<close>

definition tx_serialize :: "transaction \<Rightarrow> writer \<Rightarrow> writer" where
  "tx_serialize tx w =
     put_counted put_txoutput (outputs tx)
       (put_counted put_outpoint (inputs tx)
         (put_u64 (tx_timestamp tx)
           (put_hash (txid tx) w)))"

definition tx_serialize_str :: "transaction \<Rightarrow> bytes" where
  "tx_serialize_str tx = tx_serialize tx []"

definition tx_deserialize :: "transaction parser" where
  "tx_deserialize =
     pbind take_hash (\<lambda>id.
     pbind take_u64 (\<lambda>ts.
     pbind (take_counted take_outpoint) (\<lambda>ins.
     pbind (take_counted take_txoutput) (\<lambda>outs.
       preturn \<lparr>txid = id, inputs = ins, outputs = outs, tx_timestamp = ts\<rparr>))))"

text \<open>\<^verbatim>\<open>explicit Transaction(const std::string&)\<close>: bytes after the transaction are ignored.\<close>

definition tx_of_bytes :: "bytes \<Rightarrow> exn + transaction" where
  "tx_of_bytes serialized =
     ebind (tx_deserialize (mk_reader serialized)) (\<lambda>(tx, _). Inr tx)"

subsection \<open>Well-formed transactions\<close>

text \<open>What the C++ types guarantee: array lengths, and sizes that fit the 32-bit counts.\<close>

definition outpoint_ok :: "outpoint \<Rightarrow> bool" where
  "outpoint_ok op \<longleftrightarrow> length (op_txid op) = 32"

definition txoutput_ok :: "txoutput \<Rightarrow> bool" where
  "txoutput_ok out \<longleftrightarrow> length (recipient out) = 20"

definition tx_ok :: "transaction \<Rightarrow> bool" where
  "tx_ok tx \<longleftrightarrow> length (txid tx) = 32 \<and>
     (length (inputs tx) < 2 ^ 32 \<and> list_all outpoint_ok (inputs tx)) \<and>
     (length (outputs tx) < 2 ^ 32 \<and> list_all txoutput_ok (outputs tx))"

subsection \<open>Codecs\<close>

interpretation whash_u32: codec_seq put_hash take_hash "\<lambda>h. length h = 32" put_u32 take_u32 "\<lambda>_. True"
  ..

interpretation waddr_u64: codec_seq put_addr take_addr "\<lambda>a. length a = 20" put_u64 take_u64 "\<lambda>_. True"
  ..

interpretation whash_u64: codec_seq put_hash take_hash "\<lambda>h. length h = 32" put_u64 take_u64 "\<lambda>_. True"
  ..

interpretation outpoint: codec put_outpoint take_outpoint outpoint_ok
proof -
  let ?f = "\<lambda>(h, i). \<lparr>op_txid = h, op_index = i\<rparr>" and ?g = "\<lambda>op. (op_txid op, op_index op)"
  have "codec (\<lambda>op. put_seq put_hash put_u32 (?g op))
      (pbind (take_seq take_hash take_u32) (\<lambda>x. preturn (?f x)))
      (\<lambda>op. valid_seq (\<lambda>h. length h = 32) (\<lambda>_. True) (?g op))"
    by (rule codec.iso_codec[OF whash_u32.seq_codec]) auto
  moreover have "put_outpoint = (\<lambda>op. put_seq put_hash put_u32 (?g op))"
    by (simp add: fun_eq_iff put_outpoint_def put_seq_def)
  moreover have "take_outpoint = pbind (take_seq take_hash take_u32) (\<lambda>x. preturn (?f x))"
    by (simp add: take_outpoint_def take_seq_def pbind_assoc pbind_preturn)
  moreover have "outpoint_ok = (\<lambda>op. valid_seq (\<lambda>h. length h = 32) (\<lambda>_. True) (?g op))"
    by (simp add: fun_eq_iff outpoint_ok_def valid_seq_def)
  ultimately show "codec put_outpoint take_outpoint outpoint_ok" by simp
qed

interpretation txoutput: codec put_txoutput take_txoutput txoutput_ok
proof -
  let ?f = "\<lambda>(a, v). \<lparr>recipient = a, amount = v\<rparr>" and ?g = "\<lambda>out. (recipient out, amount out)"
  have "codec (\<lambda>out. put_seq put_addr put_u64 (?g out))
      (pbind (take_seq take_addr take_u64) (\<lambda>x. preturn (?f x)))
      (\<lambda>out. valid_seq (\<lambda>a. length a = 20) (\<lambda>_. True) (?g out))"
    by (rule codec.iso_codec[OF waddr_u64.seq_codec]) auto
  moreover have "put_txoutput = (\<lambda>out. put_seq put_addr put_u64 (?g out))"
    by (simp add: fun_eq_iff put_txoutput_def put_seq_def)
  moreover have "take_txoutput = pbind (take_seq take_addr take_u64) (\<lambda>x. preturn (?f x))"
    by (simp add: take_txoutput_def take_seq_def pbind_assoc pbind_preturn)
  moreover have "txoutput_ok = (\<lambda>out. valid_seq (\<lambda>a. length a = 20) (\<lambda>_. True) (?g out))"
    by (simp add: fun_eq_iff txoutput_ok_def valid_seq_def)
  ultimately show "codec put_txoutput take_txoutput txoutput_ok" by simp
qed

interpretation inputs_list: codec "put_counted put_outpoint" "take_counted take_outpoint"
    "\<lambda>xs. length xs < 2 ^ 32 \<and> list_all outpoint_ok xs"
  by (rule outpoint.counted_codec)

interpretation outputs_list: codec "put_counted put_txoutput" "take_counted take_txoutput"
    "\<lambda>xs. length xs < 2 ^ 32 \<and> list_all txoutput_ok xs"
  by (rule txoutput.counted_codec)

interpretation tx_body: codec_seq
    "put_counted put_outpoint" "take_counted take_outpoint"
    "\<lambda>xs. length xs < 2 ^ 32 \<and> list_all outpoint_ok xs"
    "put_counted put_txoutput" "take_counted take_txoutput"
    "\<lambda>xs. length xs < 2 ^ 32 \<and> list_all txoutput_ok xs"
  ..

interpretation tx_head_body: codec_seq
    "put_seq put_hash put_u64" "take_seq take_hash take_u64"
    "valid_seq (\<lambda>h. length h = 32) (\<lambda>_. True)"
    "put_seq (put_counted put_outpoint) (put_counted put_txoutput)"
    "take_seq (take_counted take_outpoint) (take_counted take_txoutput)"
    "valid_seq (\<lambda>xs. length xs < 2 ^ 32 \<and> list_all outpoint_ok xs)
               (\<lambda>xs. length xs < 2 ^ 32 \<and> list_all txoutput_ok xs)"
  by (intro codec_seq.intro whash_u64.seq_codec tx_body.seq_codec)

interpretation tx_codec: codec tx_serialize tx_deserialize tx_ok
proof -
  let ?f = "\<lambda>((id, ts), (ins, outs)).
      \<lparr>txid = id, inputs = ins, outputs = outs, tx_timestamp = ts\<rparr>"
    and ?g = "\<lambda>tx. ((txid tx, tx_timestamp tx), (inputs tx, outputs tx))"
  have "codec (\<lambda>tx. put_seq (put_seq put_hash put_u64)
        (put_seq (put_counted put_outpoint) (put_counted put_txoutput)) (?g tx))
      (pbind (take_seq (take_seq take_hash take_u64)
        (take_seq (take_counted take_outpoint) (take_counted take_txoutput)))
        (\<lambda>x. preturn (?f x)))
      (\<lambda>tx. valid_seq (valid_seq (\<lambda>h. length h = 32) (\<lambda>_. True))
        (valid_seq (\<lambda>xs. length xs < 2 ^ 32 \<and> list_all outpoint_ok xs)
                   (\<lambda>xs. length xs < 2 ^ 32 \<and> list_all txoutput_ok xs)) (?g tx))"
    by (rule codec.iso_codec[OF tx_head_body.seq_codec]) auto
  moreover have "tx_serialize = (\<lambda>tx. put_seq (put_seq put_hash put_u64)
        (put_seq (put_counted put_outpoint) (put_counted put_txoutput)) (?g tx))"
    by (simp add: fun_eq_iff tx_serialize_def put_seq_def)
  moreover have "tx_deserialize = (pbind (take_seq (take_seq take_hash take_u64)
        (take_seq (take_counted take_outpoint) (take_counted take_txoutput)))
        (\<lambda>x. preturn (?f x)))"
    by (simp add: tx_deserialize_def take_seq_def pbind_assoc pbind_preturn)
  moreover have "tx_ok = (\<lambda>tx. valid_seq (valid_seq (\<lambda>h. length h = 32) (\<lambda>_. True))
        (valid_seq (\<lambda>xs. length xs < 2 ^ 32 \<and> list_all outpoint_ok xs)
                   (\<lambda>xs. length xs < 2 ^ 32 \<and> list_all txoutput_ok xs)) (?g tx))"
    by (simp add: fun_eq_iff tx_ok_def valid_seq_def)
  ultimately show "codec tx_serialize tx_deserialize tx_ok" by simp
qed


section \<open>Properties\<close>

subsection \<open>Sizes\<close>

lemma length_put_outpoint: "outpoint_ok op \<Longrightarrow> length (put_outpoint op []) = 36"
  by (simp add: put_outpoint_def outpoint_ok_def)

lemma length_put_txoutput: "txoutput_ok out \<Longrightarrow> length (put_txoutput out []) = 28"
  by (simp add: put_txoutput_def txoutput_ok_def)

lemmas length_put_outpoints = outpoint.length_put_many[OF length_put_outpoint]
lemmas length_put_txoutputs = txoutput.length_put_many[OF length_put_txoutput]

lemma tx_serialize_unfold:
  "tx_serialize tx [] = put_hash (txid tx) [] @ put_u64 (tx_timestamp tx) [] @
     put_counted put_outpoint (inputs tx) [] @ put_counted put_txoutput (outputs tx) []"
  unfolding tx_serialize_def
  using outputs_list.put_append[of "outputs tx"
      "put_counted put_outpoint (inputs tx) (put_u64 (tx_timestamp tx) (put_hash (txid tx) []))"]
    inputs_list.put_append[of "inputs tx" "put_u64 (tx_timestamp tx) (put_hash (txid tx) [])"]
    wu64.put_append[of "tx_timestamp tx" "put_hash (txid tx) []"]
  by simp

lemma length_tx_serialize:
  "tx_ok tx \<Longrightarrow>
   length (tx_serialize_str tx) = 48 + 36 * length (inputs tx) + 28 * length (outputs tx)"
  by (simp add: tx_serialize_str_def tx_serialize_unfold tx_ok_def
      outpoint.length_put_counted txoutput.length_put_counted
      length_put_outpoints length_put_txoutputs)

subsection \<open>Round trip\<close>

lemma tx_deserialize_serialize:
  "tx_ok tx \<Longrightarrow>
   tx_deserialize (mk_reader (tx_serialize_str tx @ rest)) =
     Inr (tx, skip (length (tx_serialize_str tx)) (mk_reader (tx_serialize_str tx @ rest)))"
  unfolding tx_serialize_str_def by (rule tx_codec.get_put) auto

lemma tx_of_bytes_serialize:
  "tx_ok tx \<Longrightarrow> tx_of_bytes (tx_serialize_str tx @ rest) = Inr tx"
  by (simp add: tx_of_bytes_def tx_deserialize_serialize)

lemma tx_of_bytes_Inr:
  "tx_of_bytes bs = Inr tx \<Longrightarrow> tx_ok tx \<and> (\<exists>rest. bs = tx_serialize_str tx @ rest)"
  by (auto simp: tx_of_bytes_def ebind_Inr_iff tx_serialize_str_def dest!: tx_codec.get_sound)

lemma tx_of_bytes_exn: "tx_of_bytes bs = Inl e \<Longrightarrow> e = reader_eof"
  by (auto simp: tx_of_bytes_def ebind_Inl_iff dest: tx_codec.get_exn)

subsection \<open>What the identifier commits to\<close>

lemma hash_preimage_unfold:
  "hash_preimage ins outs ts =
     put_many put_outpoint ins [] @ put_many put_txoutput outs [] @ put_u64 ts []"
  unfolding hash_preimage_def
  using wu64.put_append[of ts "put_many put_txoutput outs (put_many put_outpoint ins [])"]
    txoutput.put_many_append[of outs "put_many put_outpoint ins []"]
  by simp

lemma length_hash_preimage:
  "list_all outpoint_ok ins \<Longrightarrow> list_all txoutput_ok outs \<Longrightarrow>
   length (hash_preimage ins outs ts) = 36 * length ins + 28 * length outs + 8"
  by (simp add: hash_preimage_unfold length_put_outpoints length_put_txoutputs)

lemma hash_preimage_inj:
  assumes ok: "list_all outpoint_ok ins" "list_all outpoint_ok ins'"
      "list_all txoutput_ok outs" "list_all txoutput_ok outs'"
    and n: "length ins = length ins'"
    and eq: "hash_preimage ins outs ts = hash_preimage ins' outs' ts'"
  shows "ins = ins' \<and> outs = outs' \<and> ts = ts'"
proof -
  from eq have "length (hash_preimage ins outs ts) = length (hash_preimage ins' outs' ts')"
    by simp
  with ok n have n': "length outs = length outs'" by (simp add: length_hash_preimage)
  have "put_many put_outpoint ins [] = put_many put_outpoint ins' [] \<and>
      put_many put_txoutput outs [] = put_many put_txoutput outs' [] \<and>
      put_u64 ts [] = put_u64 ts' []"
    using eq n n' ok
    by (simp add: hash_preimage_unfold append_eq_append_conv length_put_outpoints length_put_txoutputs)
  then show ?thesis
    using ok n n' by (auto intro: outpoint.put_many_inj txoutput.put_many_inj wu64.put_inj)
qed

text \<open>
  The concatenation does not say where the inputs end: 7 inputs take as many bytes as 9 outputs. The
  two transactions below pass the format checks, have nonzero amounts whose sums do not overflow,
  and have the same bytes hashed.
\<close>

definition ambiguous_input :: outpoint where
  "ambiguous_input = \<lparr>op_txid = replicate 32 1, op_index = 0x01010101\<rparr>"

definition ambiguous_output :: txoutput where
  "ambiguous_output = \<lparr>recipient = replicate 20 1, amount = 0x0101010101010101\<rparr>"

lemma ambiguous_bytes:
  "put_outpoint ambiguous_input [] = replicate 36 1"
  "put_txoutput ambiguous_output [] = replicate 28 1"
  by code_simp+

lemma concat_replicate_const: "concat (replicate n (replicate m x)) = replicate (n * m) x"
  by (induction n) (simp_all add: replicate_add)

lemma hash_preimage_ambiguous:
  "hash_preimage (replicate (n + 7) ambiguous_input) (replicate m ambiguous_output) ts =
   hash_preimage (replicate n ambiguous_input) (replicate (m + 9) ambiguous_output) ts"
proof -
  have "(n + 7) * 36 + m * 28 = n * 36 + (m + 9) * 28" by simp
  then show ?thesis
    by (simp add: hash_preimage_unfold outpoint.put_many_concat txoutput.put_many_concat
        ambiguous_bytes concat_replicate_const flip: replicate_add append_assoc)
qed

end
