(* ===== verification/Block.thy ===== *)
theory Block
  imports Tx
begin

text \<open>
  \<^verbatim>\<open>include/axis/block.h\<close> and \<^verbatim>\<open>src/block.cpp\<close>: the 80-byte header and its hash, the block with its
  cached hash, the Merkle root over the transaction identifiers, and the binary form, in which each
  transaction is framed by its size.
\<close>

section \<open>Header\<close>

record block_header =
  prev_hash :: hash
  merkle_root :: hash
  hd_timestamp :: u64
  nonce :: u64

definition header_serialize :: "block_header \<Rightarrow> writer \<Rightarrow> writer" where
  "header_serialize h w =
     put_u64 (nonce h) (put_u64 (hd_timestamp h) (put_hash (merkle_root h) (put_hash (prev_hash h) w)))"

definition header_deserialize :: "block_header parser" where
  "header_deserialize =
     pbind take_hash (\<lambda>prev.
     pbind take_hash (\<lambda>merkle.
     pbind take_u64 (\<lambda>ts.
     pbind take_u64 (\<lambda>n.
       preturn \<lparr>prev_hash = prev, merkle_root = merkle, hd_timestamp = ts, nonce = n\<rparr>))))"

definition header_hash :: "sodium \<Rightarrow> block_header \<Rightarrow> hash" where
  "header_hash so h = blake2b so (header_serialize h [])"

definition header_ok :: "block_header \<Rightarrow> bool" where
  "header_ok h \<longleftrightarrow> length (prev_hash h) = 32 \<and> length (merkle_root h) = 32"

interpretation two_hashes: codec_seq
    put_hash take_hash "\<lambda>h. length h = 32" put_hash take_hash "\<lambda>h. length h = 32"
  ..

interpretation two_words: codec_seq put_u64 take_u64 "\<lambda>_. True" put_u64 take_u64 "\<lambda>_. True"
  ..

interpretation header_fields: codec_seq
    "put_seq put_hash put_hash" "take_seq take_hash take_hash"
    "valid_seq (\<lambda>h. length h = 32) (\<lambda>h. length h = 32)"
    "put_seq put_u64 put_u64" "take_seq take_u64 take_u64" "valid_seq (\<lambda>_. True) (\<lambda>_. True)"
  by (intro codec_seq.intro two_hashes.seq_codec two_words.seq_codec)

interpretation header_codec: codec header_serialize header_deserialize header_ok
proof -
  let ?f = "\<lambda>((prev, merkle), (ts, n)).
      \<lparr>prev_hash = prev, merkle_root = merkle, hd_timestamp = ts, nonce = n\<rparr>"
    and ?g = "\<lambda>h. ((prev_hash h, merkle_root h), (hd_timestamp h, nonce h))"
  have "codec (\<lambda>h. put_seq (put_seq put_hash put_hash) (put_seq put_u64 put_u64) (?g h))
      (pbind (take_seq (take_seq take_hash take_hash) (take_seq take_u64 take_u64))
        (\<lambda>x. preturn (?f x)))
      (\<lambda>h. valid_seq (valid_seq (\<lambda>h. length h = 32) (\<lambda>h. length h = 32))
        (valid_seq (\<lambda>_. True) (\<lambda>_. True)) (?g h))"
    by (rule codec.iso_codec[OF header_fields.seq_codec]) auto
  moreover have "header_serialize =
      (\<lambda>h. put_seq (put_seq put_hash put_hash) (put_seq put_u64 put_u64) (?g h))"
    by (simp add: fun_eq_iff header_serialize_def put_seq_def)
  moreover have "header_deserialize =
      pbind (take_seq (take_seq take_hash take_hash) (take_seq take_u64 take_u64))
        (\<lambda>x. preturn (?f x))"
    by (simp add: header_deserialize_def take_seq_def pbind_assoc pbind_preturn)
  moreover have "header_ok =
      (\<lambda>h. valid_seq (valid_seq (\<lambda>h. length h = 32) (\<lambda>h. length h = 32))
        (valid_seq (\<lambda>_. True) (\<lambda>_. True)) (?g h))"
    by (simp add: fun_eq_iff header_ok_def valid_seq_def)
  ultimately show "codec header_serialize header_deserialize header_ok" by simp
qed

lemma length_header_serialize: "header_ok h \<Longrightarrow> length (header_serialize h []) = 80"
  by (simp add: header_serialize_def header_ok_def)


section \<open>Blocks\<close>

text \<open>\<^verbatim>\<open>header_\<close>, \<^verbatim>\<open>cached_hash_\<close> and \<^verbatim>\<open>transactions\<close>.\<close>

record block =
  header :: block_header
  cached_hash :: hash
  transactions :: "transaction list"

definition compute_block_merkle_root :: "sodium \<Rightarrow> transaction list \<Rightarrow> hash" where
  "compute_block_merkle_root so txs = compute_merkle_root so (map txid txs)"

definition mk_block :: "sodium \<Rightarrow> hash \<Rightarrow> transaction list \<Rightarrow> u64 \<Rightarrow> u64 \<Rightarrow> block" where
  "mk_block so prev txs ts n =
     (let h = \<lparr>prev_hash = prev, merkle_root = compute_block_merkle_root so txs,
               hd_timestamp = ts, nonce = n\<rparr>
      in \<lparr>header = h, cached_hash = header_hash so h, transactions = txs\<rparr>)"

text \<open>\<^verbatim>\<open>Block::hash()\<close> returns the cached hash.\<close>

definition block_hash :: "block \<Rightarrow> hash" where
  "block_hash blk = cached_hash blk"

subsection \<open>Binary form\<close>

text \<open>One transaction of the body: its size (cast to 32 bits), then its bytes.\<close>

definition put_framed_tx :: "transaction \<Rightarrow> writer \<Rightarrow> writer" where
  "put_framed_tx tx w =
     (let tx_bytes = tx_serialize_str tx
      in put_str tx_bytes (put_u32 (word_of_nat (length tx_bytes)) w))"

text \<open>
  The reader of a frame is built on the view of \<open>tx_size\<close> bytes; the bytes of the view that the
  transaction leaves unread are dropped.
\<close>

definition take_framed_tx :: "transaction parser" where
  "take_framed_tx =
     pbind take_u32 (\<lambda>tx_size.
     pbind (take_view (unat tx_size)) (\<lambda>tx_data r.
       ebind (tx_deserialize (mk_reader tx_data)) (\<lambda>(tx, _). Inr (tx, r))))"

definition block_serialize :: "block \<Rightarrow> writer \<Rightarrow> writer" where
  "block_serialize blk w =
     put_counted put_framed_tx (transactions blk) (header_serialize (header blk) w)"

definition block_serialize_str :: "block \<Rightarrow> bytes" where
  "block_serialize_str blk = block_serialize blk []"

definition block_deserialize :: "sodium \<Rightarrow> block parser" where
  "block_deserialize so =
     pbind header_deserialize (\<lambda>h.
     pbind take_u32 (\<lambda>tx_count.
     pbind (take_many take_framed_tx (unat tx_count)) (\<lambda>txs.
       preturn \<lparr>header = h, cached_hash = header_hash so h, transactions = txs\<rparr>)))"

text \<open>\<^verbatim>\<open>explicit Block(const std::string&)\<close>.\<close>

definition block_of_bytes :: "sodium \<Rightarrow> bytes \<Rightarrow> exn + block" where
  "block_of_bytes so serialized =
     ebind (block_deserialize so (mk_reader serialized)) (\<lambda>(blk, _). Inr blk)"

subsection \<open>Well-formed blocks\<close>

text \<open>
  A transaction that fits a frame: its serialized size fits 32 bits. A block that can be stored: so do
  the number of its transactions and each of them, and the cached hash is the header's.
\<close>

definition framed_ok :: "transaction \<Rightarrow> bool" where
  "framed_ok tx \<longleftrightarrow> tx_ok tx \<and> length (tx_serialize_str tx) < 2 ^ 32"

definition block_ok :: "sodium \<Rightarrow> block \<Rightarrow> bool" where
  "block_ok so blk \<longleftrightarrow> header_ok (header blk) \<and> cached_hash blk = header_hash so (header blk) \<and>
     length (transactions blk) < 2 ^ 32 \<and> list_all framed_ok (transactions blk)"

lemma mk_block_simps [simp]:
  "prev_hash (header (mk_block so prev txs ts n)) = prev"
  "merkle_root (header (mk_block so prev txs ts n)) = compute_block_merkle_root so txs"
  "hd_timestamp (header (mk_block so prev txs ts n)) = ts"
  "nonce (header (mk_block so prev txs ts n)) = n"
  "transactions (mk_block so prev txs ts n) = txs"
  "cached_hash (mk_block so prev txs ts n) = header_hash so (header (mk_block so prev txs ts n))"
  by (simp_all add: mk_block_def Let_def)

lemma mk_block_ok:
  "sodium_ok so \<Longrightarrow> length prev = 32 \<Longrightarrow> length txs < 2 ^ 32 \<Longrightarrow> list_all framed_ok txs \<Longrightarrow>
   block_ok so (mk_block so prev txs ts n)"
  by (auto simp: block_ok_def header_ok_def compute_block_merkle_root_def list_all_iff
      framed_ok_def tx_ok_def intro!: length_compute_merkle_root)

subsection \<open>Reading back what was written\<close>

lemma put_framed_tx_unfold:
  "put_framed_tx tx w = w @ put_u32 (word_of_nat (length (tx_serialize_str tx))) [] @ tx_serialize_str tx"
  by (simp add: put_framed_tx_def Let_def put_defs)

lemma put_framed_tx_append: "put_framed_tx tx w = w @ put_framed_tx tx []"
  by (simp add: put_framed_tx_unfold)

lemma length_put_framed_tx [simp]: "length (put_framed_tx tx []) = 4 + length (tx_serialize_str tx)"
  by (simp add: put_framed_tx_unfold)

interpretation wview: codec put_bytes "take_view n" "\<lambda>h. length h = n" for n
  unfolding take_view_def by (rule raw_codec)

lemma take_framed_tx_put:
  assumes ok: "framed_ok tx" and u: "unread r = put_framed_tx tx [] @ rest"
  shows "take_framed_tx r = Inr (tx, skip (length (put_framed_tx tx [])) r)"
proof -
  let ?b = "tx_serialize_str tx"
  let ?n = "word_of_nat (length ?b) :: u32"
  have n: "unat ?n = length ?b"
    using ok by (simp add: framed_ok_def unat_u32_of_nat)
  have u1: "unread r = put_u32 ?n [] @ (?b @ rest)"
    using u by (simp add: put_framed_tx_unfold)
  then have "unread (skip 4 r) = put_bytes ?b [] @ rest" by (simp add: put_bytes_def)
  then have "take_view (unat ?n) (skip 4 r) = Inr (?b, skip (length ?b) (skip 4 r))"
    using wview.get_put[of ?b "unat ?n" "skip 4 r" rest] n by (simp add: put_bytes_def)
  moreover have "tx_deserialize (mk_reader ?b) = Inr (tx, skip (length ?b) (mk_reader ?b))"
    using tx_deserialize_serialize[of tx "[]"] ok by (simp add: framed_ok_def)
  ultimately show ?thesis
    using wu32.get_put[OF TrueI u1] n by (simp add: take_framed_tx_def pbind_def)
qed

lemma take_framed_tx_exn: "take_framed_tx r = Inl e \<Longrightarrow> e = reader_eof"
  by (auto simp: take_framed_tx_def pbind_Inl_iff ebind_Inl_iff
      dest: wu32.get_exn wview.get_exn tx_codec.get_exn)

text \<open>Frames satisfy the first contract but not the canonical one: see \<open>framed_tx_not_canonical\<close>.\<close>

interpretation framed: lax_codec put_framed_tx take_framed_tx framed_ok
  by unfold_locales (fact put_framed_tx_append take_framed_tx_put take_framed_tx_exn)+

lemma block_deserialize_counted:
  "block_deserialize so =
     pbind header_deserialize (\<lambda>h. pbind (take_counted take_framed_tx) (\<lambda>txs.
       preturn \<lparr>header = h, cached_hash = header_hash so h, transactions = txs\<rparr>))"
  by (simp add: block_deserialize_def take_counted_def pbind_assoc)

lemma block_serialize_unfold:
  "block_serialize blk [] =
     header_serialize (header blk) [] @ put_counted put_framed_tx (transactions blk) []"
  unfolding block_serialize_def
  using framed.put_counted_append[of "transactions blk" "header_serialize (header blk) []"] by simp

lemma block_deserialize_put:
  assumes ok: "block_ok so blk" and u: "unread r = block_serialize_str blk @ rest"
  shows "block_deserialize so r = Inr (blk, skip (length (block_serialize_str blk)) r)"
proof -
  let ?h = "header_serialize (header blk) []" and ?t = "put_counted put_framed_tx (transactions blk) []"
  have u1: "unread r = ?h @ (?t @ rest)"
    using u by (simp add: block_serialize_str_def block_serialize_unfold)
  have h: "header_deserialize r = Inr (header blk, skip (length ?h) r)"
    using ok by (intro header_codec.get_put[OF _ u1]) (simp add: block_ok_def)
  have u2: "unread (skip (length ?h) r) = ?t @ rest"
    using u1 by simp
  have t: "take_counted take_framed_tx (skip (length ?h) r) =
      Inr (transactions blk, skip (length ?t) (skip (length ?h) r))"
    using ok by (intro framed.take_counted_put[OF _ _ u2]) (simp_all add: block_ok_def)
  show ?thesis
    using h t ok
    by (simp add: block_deserialize_counted pbind_def preturn_def block_ok_def
        block_serialize_str_def block_serialize_unfold)
qed

lemma block_deserialize_exn: "block_deserialize so r = Inl e \<Longrightarrow> e = reader_eof"
  by (auto simp: block_deserialize_counted pbind_Inl_iff
      dest: header_codec.get_exn framed.take_counted_exn)

lemma block_of_bytes_serialize: "block_ok so blk \<Longrightarrow> block_of_bytes so (block_serialize_str blk) = Inr blk"
  using block_deserialize_put[of so blk "mk_reader (block_serialize_str blk)" "[]"]
  by (simp add: block_of_bytes_def)

lemma length_put_many_framed:
  "length (put_many put_framed_tx txs []) = (\<Sum>tx \<leftarrow> txs. 4 + length (tx_serialize_str tx))"
  by (simp add: framed.put_many_concat length_concat o_def)

lemma length_block_serialize:
  "block_ok so blk \<Longrightarrow>
   length (block_serialize_str blk) = 84 + (\<Sum>tx \<leftarrow> transactions blk. 4 + length (tx_serialize_str tx))"
  by (simp add: block_serialize_str_def block_serialize_unfold framed.length_put_counted
      length_put_many_framed length_header_serialize block_ok_def)

end
