(* ===== verification/Ledger.thy ===== *)
theory Ledger
  imports Block
begin

text \<open>
  The two tables of \<^verbatim>\<open>Chain\<close> that a confirmed transaction changes: \<^verbatim>\<open>utxo_\<close>, the unspent outputs, and
  \<^verbatim>\<open>address_utxo_\<close>, the out-points of each recipient. \<open>apply_tx\<close> is \<^verbatim>\<open>Chain::apply_tx\<close>. The record is
  extended by the rest of the chain state in theory Chain, so every lemma here holds there as well.

  Shown: the exact effect on the unspent outputs, the agreement of the two tables (complete always,
  sound as long as no out-point is overwritten for another recipient), and the effect on the total
  value of the unspent outputs.
\<close>

record ledger =
  utxo :: "outpoint \<Rightarrow> txoutput option"
  address_utxo :: "address \<Rightarrow> outpoint list option"

definition empty_ledger :: ledger where
  "empty_ledger = \<lparr>utxo = Map.empty, address_utxo = Map.empty\<rparr>"

text \<open>
  The body of the first loop. \<^verbatim>\<open>address_utxo_[recipient]\<close> inserts an empty vector for a missing key,
  \<^verbatim>\<open>std::erase\<close> removes every occurrence, an empty vector is erased with its key.
\<close>

definition index_of :: "address \<Rightarrow> 'a ledger_scheme \<Rightarrow> outpoint list" where
  "index_of a l = (case address_utxo l a of None \<Rightarrow> [] | Some v \<Rightarrow> v)"

definition spend :: "outpoint \<Rightarrow> 'a ledger_scheme \<Rightarrow> 'a ledger_scheme" where
  "spend op l =
     (case utxo l op of
        None \<Rightarrow> l
      | Some out \<Rightarrow>
          let vec = removeAll op (index_of (recipient out) l) in
          l\<lparr>address_utxo := (address_utxo l)(recipient out := (if vec = [] then None else Some vec)),
            utxo := (utxo l)(op := None)\<rparr>)"

text \<open>The body of the second loop, and the loop with its 32-bit index.\<close>

definition create_output :: "outpoint \<Rightarrow> txoutput \<Rightarrow> 'a ledger_scheme \<Rightarrow> 'a ledger_scheme" where
  "create_output op out l =
     l\<lparr>utxo := (utxo l)(op \<mapsto> out),
       address_utxo := (address_utxo l)(recipient out \<mapsto> index_of (recipient out) l @ [op])\<rparr>"

primrec create_outputs ::
    "hash \<Rightarrow> u32 \<Rightarrow> txoutput list \<Rightarrow> 'a ledger_scheme \<Rightarrow> 'a ledger_scheme" where
  "create_outputs tid idx [] l = l"
| "create_outputs tid idx (out # outs) l =
     create_outputs tid (idx + 1) outs (create_output \<lparr>op_txid = tid, op_index = idx\<rparr> out l)"

definition apply_tx :: "transaction \<Rightarrow> 'a ledger_scheme \<Rightarrow> 'a ledger_scheme" where
  "apply_tx tx l = create_outputs (txid tx) 0 (outputs tx) (fold spend (inputs tx) l)"

text \<open>Replaying blocks, as \<^verbatim>\<open>rebuild_utxo\<close> and \<^verbatim>\<open>load_blocks\<close> do.\<close>

definition apply_block :: "block \<Rightarrow> 'a ledger_scheme \<Rightarrow> 'a ledger_scheme" where
  "apply_block blk = fold apply_tx (transactions blk)"

definition rebuild_utxo :: "block list \<Rightarrow> 'a ledger_scheme \<Rightarrow> 'a ledger_scheme" where
  "rebuild_utxo blks l =
     fold apply_block blks (l\<lparr>utxo := Map.empty, address_utxo := Map.empty\<rparr>)"


section \<open>The unspent outputs\<close>

lemma utxo_spend: "utxo (spend op l) = (utxo l)(op := None)"
  by (auto simp: spend_def Let_def split: option.splits)

lemma utxo_spends: "utxo (fold spend ops l) op = (if op \<in> set ops then None else utxo l op)"
  by (induction ops arbitrary: l) (auto simp: utxo_spend)

lemma utxo_create_output: "utxo (create_output op out l) = (utxo l)(op \<mapsto> out)"
  by (simp add: create_output_def)

lemma unat_Suc_u32: "unat (i :: u32) + 1 < 2 ^ 32 \<Longrightarrow> unat (i + 1) = unat i + 1"
  by (simp add: unat_word_ariths)

lemma utxo_create_outputs:
  "unat idx + length outs \<le> 2 ^ 32 \<Longrightarrow>
   utxo (create_outputs tid idx outs l) op =
     (if op_txid op = tid \<and> unat idx \<le> unat (op_index op) \<and>
         unat (op_index op) < unat idx + length outs
      then Some (outs ! (unat (op_index op) - unat idx)) else utxo l op)"
proof (induction outs arbitrary: idx l)
  case Nil
  then show ?case by auto
next
  case (Cons out outs)
  show ?case
  proof (cases "outs = []")
    case True
    then show ?thesis
      by (cases op) (auto simp: utxo_create_output word_unat_eq_iff)
  next
    case False
    then have "unat idx + 1 < 2 ^ 32" using Cons.prems by (cases outs) auto
    then have idx: "unat (idx + 1) = unat idx + 1" by (rule unat_Suc_u32)
    with Cons.prems have "unat (idx + 1) + length outs \<le> 2 ^ 32" by simp
    from Cons.IH[OF this] idx show ?thesis
      by (cases op) (auto simp: utxo_create_output word_unat_eq_iff nth_Cons' Suc_le_eq
          diff_diff_left simp flip: Suc_eq_plus1)
  qed
qed

lemma utxo_apply_tx:
  "length (outputs tx) \<le> 2 ^ 32 \<Longrightarrow>
   utxo (apply_tx tx l) op =
     (if op_txid op = txid tx \<and> unat (op_index op) < length (outputs tx)
      then Some (outputs tx ! unat (op_index op))
      else if op \<in> set (inputs tx) then None else utxo l op)"
  by (simp add: apply_tx_def utxo_create_outputs utxo_spends)


section \<open>The address index\<close>

definition index_complete :: "'a ledger_scheme \<Rightarrow> bool" where
  "index_complete l \<longleftrightarrow>
     (\<forall>a op. (\<exists>out. utxo l op = Some out \<and> recipient out = a) \<longrightarrow> op \<in> set (index_of a l))"

definition index_sound :: "'a ledger_scheme \<Rightarrow> bool" where
  "index_sound l \<longleftrightarrow>
     (\<forall>a op. op \<in> set (index_of a l) \<longrightarrow> (\<exists>out. utxo l op = Some out \<and> recipient out = a))"

definition index_pruned :: "'a ledger_scheme \<Rightarrow> bool" where
  "index_pruned l \<longleftrightarrow> (\<forall>a. address_utxo l a \<noteq> Some [])"

lemma index_of_spend:
  "index_of a (spend op l) =
     (case utxo l op of None \<Rightarrow> index_of a l
      | Some out \<Rightarrow> if a = recipient out then removeAll op (index_of a l) else index_of a l)"
  by (auto simp: spend_def index_of_def Let_def split: option.splits if_splits)

lemma index_of_create_output:
  "index_of a (create_output op out l) =
     (if a = recipient out then index_of a l @ [op] else index_of a l)"
  by (simp add: create_output_def index_of_def)

lemma index_complete_spend: "index_complete l \<Longrightarrow> index_complete (spend op l)"
  unfolding index_complete_def by (auto simp: utxo_spend index_of_spend split: option.splits)

lemma index_complete_create_output: "index_complete l \<Longrightarrow> index_complete (create_output op out l)"
  unfolding index_complete_def by (auto simp: utxo_create_output index_of_create_output)

lemma index_complete_create_outputs:
  "index_complete l \<Longrightarrow> index_complete (create_outputs tid idx outs l)"
  by (induction outs arbitrary: idx l) (simp_all add: index_complete_create_output)

lemma index_complete_apply_tx: "index_complete l \<Longrightarrow> index_complete (apply_tx tx l)"
  unfolding apply_tx_def
  by (intro index_complete_create_outputs fold_invariant_list[where P = index_complete]
      index_complete_spend)

lemma index_sound_spend: "index_sound l \<Longrightarrow> index_sound (spend op l)"
  unfolding index_sound_def
  by (auto simp: utxo_spend index_of_spend split: option.splits if_splits) fastforce+

text \<open>An output may replace an unspent one only if both have the same recipient.\<close>

definition may_create :: "outpoint \<Rightarrow> txoutput \<Rightarrow> 'a ledger_scheme \<Rightarrow> bool" where
  "may_create op out l \<longleftrightarrow> (\<forall>old. utxo l op = Some old \<longrightarrow> recipient old = recipient out)"

lemma index_sound_create_output:
  "index_sound l \<Longrightarrow> may_create op out l \<Longrightarrow> index_sound (create_output op out l)"
  unfolding index_sound_def may_create_def
  by (auto simp: utxo_create_output index_of_create_output split: if_splits)

lemma index_pruned_spend: "index_pruned l \<Longrightarrow> index_pruned (spend op l)"
  by (auto simp: index_pruned_def spend_def Let_def split: option.splits)

lemma index_pruned_create_output: "index_pruned (create_output op out l)" if "index_pruned l"
  using that by (simp add: index_pruned_def create_output_def)


definition index_distinct :: "'a ledger_scheme \<Rightarrow> bool" where
  "index_distinct l \<longleftrightarrow> (\<forall>a. distinct (index_of a l))"

text \<open>
  The tables agree: each unspent output is listed once, under its recipient, and nothing else is.
\<close>

definition ledger_inv :: "'a ledger_scheme \<Rightarrow> bool" where
  "ledger_inv l \<longleftrightarrow> index_complete l \<and> index_sound l \<and> index_pruned l \<and> index_distinct l"

lemma ledger_inv_empty: "utxo l = Map.empty \<Longrightarrow> address_utxo l = Map.empty \<Longrightarrow> ledger_inv l"
  by (simp add: ledger_inv_def index_complete_def index_sound_def index_pruned_def
      index_distinct_def index_of_def)

lemma index_distinct_spend: "index_distinct l \<Longrightarrow> index_distinct (spend op l)"
  by (auto simp: index_distinct_def index_of_spend distinct_removeAll split: option.splits)

lemma ledger_inv_spend: "ledger_inv l \<Longrightarrow> ledger_inv (spend op l)"
  by (simp add: ledger_inv_def index_complete_spend index_sound_spend index_pruned_spend
      index_distinct_spend)

lemma ledger_inv_create_output:
  assumes "ledger_inv l" and fresh: "utxo l op = None"
  shows "ledger_inv (create_output op out l)"
proof -
  have "op \<notin> set (index_of a l)" for a
    using assms unfolding ledger_inv_def index_sound_def by fastforce
  then have "index_distinct (create_output op out l)"
    using assms(1) by (simp add: ledger_inv_def index_distinct_def index_of_create_output)
  then show ?thesis
    using assms by (simp add: ledger_inv_def index_complete_create_output index_sound_create_output
        index_pruned_create_output may_create_def)
qed

lemma ledger_inv_create_outputs:
  "ledger_inv l \<Longrightarrow> unat idx + length outs \<le> 2 ^ 32 \<Longrightarrow>
   (\<And>op. op_txid op = tid \<Longrightarrow> unat idx \<le> unat (op_index op) \<Longrightarrow> utxo l op = None) \<Longrightarrow>
   ledger_inv (create_outputs tid idx outs l)"
proof (induction outs arbitrary: idx l)
  case Nil
  then show ?case by simp
next
  case (Cons out outs)
  let ?op = "\<lparr>op_txid = tid, op_index = idx\<rparr>"
  have inv: "ledger_inv (create_output ?op out l)"
    using Cons.prems by (intro ledger_inv_create_output) auto
  show ?case
  proof (cases "outs = []")
    case True
    with inv show ?thesis by simp
  next
    case False
    then have "unat idx + 1 < 2 ^ 32" using Cons.prems(2) by (cases outs) auto
    then have idx: "unat (idx + 1) = unat idx + 1" by (rule unat_Suc_u32)
    have "ledger_inv (create_outputs tid (idx + 1) outs (create_output ?op out l))"
    proof (rule Cons.IH[OF inv])
      show "unat (idx + 1) + length outs \<le> 2 ^ 32" using Cons.prems(2) idx by simp
      show "utxo (create_output ?op out l) op = None"
        if "op_txid op = tid" "unat (idx + 1) \<le> unat (op_index op)" for op
      proof -
        from that idx have "op_index op \<noteq> idx" by auto
        then have "op \<noteq> ?op" by (metis outpoint.select_convs(2))
        with that idx Cons.prems(3)[of op] show ?thesis by (simp add: utxo_create_output)
      qed
    qed
    then show ?thesis by simp
  qed
qed

text \<open>No unspent output bears the identifier, except those the transaction itself consumes.\<close>

definition fresh_tx :: "transaction \<Rightarrow> 'a ledger_scheme \<Rightarrow> bool" where
  "fresh_tx tx l \<longleftrightarrow>
     (\<forall>op. op_txid op = txid tx \<longrightarrow> op \<notin> set (inputs tx) \<longrightarrow> utxo l op = None)"

lemma ledger_inv_apply_tx:
  assumes "ledger_inv l" "fresh_tx tx l" "length (outputs tx) \<le> 2 ^ 32"
  shows "ledger_inv (apply_tx tx l)"
  unfolding apply_tx_def
proof (rule ledger_inv_create_outputs)
  show "ledger_inv (fold spend (inputs tx) l)"
    using assms(1) by (rule fold_invariant_list[rotated]) (rule ledger_inv_spend)
qed (use assms in \<open>auto simp: utxo_spends fresh_tx_def\<close>)


section \<open>Value\<close>

text \<open>The unspent amounts add up as natural numbers, without the 64-bit wrap.\<close>

definition total_value :: "'a ledger_scheme \<Rightarrow> nat" where
  "total_value l = (\<Sum>op \<in> dom (utxo l). unat (amount (the (utxo l op))))"

definition outputs_value :: "txoutput list \<Rightarrow> nat" where
  "outputs_value outs = (\<Sum>out \<leftarrow> outs. unat (amount out))"

definition inputs_value :: "outpoint list \<Rightarrow> 'a ledger_scheme \<Rightarrow> nat" where
  "inputs_value ins l = (\<Sum>op \<leftarrow> ins. case utxo l op of None \<Rightarrow> 0 | Some out \<Rightarrow> unat (amount out))"

lemma total_value_spend:
  assumes "finite (dom (utxo l))" "utxo l op = Some out"
  shows "total_value (spend op l) + unat (amount out) = total_value l"
proof -
  have "dom (utxo l) = insert op (dom (utxo l) - {op})"
    using assms(2) by auto
  moreover have "(\<Sum>x \<in> dom (utxo l) - {op}. unat (amount (the (((utxo l)(op := None)) x)))) =
      (\<Sum>x \<in> dom (utxo l) - {op}. unat (amount (the (utxo l x))))"
    by (rule sum.cong) auto
  ultimately have "total_value l = unat (amount out) + total_value (spend op l)"
    using assms sum.insert_remove[of "dom (utxo l)" "\<lambda>x. unat (amount (the (utxo l x)))" op]
    by (simp add: total_value_def utxo_spend)
  then show ?thesis by simp
qed

lemma finite_utxo_spend: "finite (dom (utxo l)) \<Longrightarrow> finite (dom (utxo (spend op l)))"
  by (simp add: utxo_spend)

lemma inputs_value_spend:
  "op \<notin> set ins \<Longrightarrow> inputs_value ins (spend op l) = inputs_value ins l"
  by (auto simp: inputs_value_def utxo_spend intro!: arg_cong[where f = sum_list] map_cong)

lemma total_value_spends:
  "finite (dom (utxo l)) \<Longrightarrow> distinct ins \<Longrightarrow> set ins \<subseteq> dom (utxo l) \<Longrightarrow>
   total_value (fold spend ins l) + inputs_value ins l = total_value l"
proof (induction ins arbitrary: l)
  case Nil
  then show ?case by (simp add: inputs_value_def)
next
  case (Cons op ins)
  then obtain out where out: "utxo l op = Some out" by auto
  have "total_value (fold spend ins (spend op l)) + inputs_value ins (spend op l) =
      total_value (spend op l)"
    using Cons.prems by (intro Cons.IH finite_utxo_spend) (auto simp: utxo_spend)
  moreover have "inputs_value ins (spend op l) = inputs_value ins l"
    using Cons.prems(2) by (simp add: inputs_value_spend)
  ultimately show ?case
    using total_value_spend[OF Cons.prems(1) out] out by (simp add: inputs_value_def)
qed

lemma total_value_create_output:
  assumes "finite (dom (utxo l))"
  shows "total_value (create_output op out l) \<le> total_value l + unat (amount out)"
proof -
  have "(\<Sum>x \<in> dom (utxo l) - {op}. unat (amount (the (((utxo l)(op \<mapsto> out)) x)))) =
      (\<Sum>x \<in> dom (utxo l) - {op}. unat (amount (the (utxo l x))))"
    by (rule sum.cong) auto
  also have "\<dots> \<le> total_value l"
    unfolding total_value_def by (rule sum_mono2) (use assms in auto)
  finally show ?thesis
    using assms sum.insert_remove[of "dom (utxo l)"
        "\<lambda>x. unat (amount (the (((utxo l)(op \<mapsto> out)) x)))" op]
    by (simp add: total_value_def utxo_create_output)
qed

lemma total_value_create_fresh:
  assumes fin: "finite (dom (utxo l))" and fresh: "utxo l op = None"
  shows "total_value (create_output op out l) = total_value l + unat (amount out)"
proof -
  have notin: "op \<notin> dom (utxo l)" using fresh by auto
  then have "(\<Sum>q \<in> dom (utxo l). unat (amount (the (utxo (create_output op out l) q)))) = total_value l"
    unfolding total_value_def by (intro sum.cong) (auto simp: utxo_create_output)
  with fin notin show ?thesis
    by (simp add: total_value_def[of "create_output op out l"] utxo_create_output)
qed

lemma total_value_create_outputs:
  "finite (dom (utxo l)) \<Longrightarrow>
   total_value (create_outputs tid idx outs l) \<le> total_value l + outputs_value outs"
proof (induction outs arbitrary: idx l)
  case Nil
  then show ?case by simp
next
  case (Cons out outs)
  let ?l = "create_output \<lparr>op_txid = tid, op_index = idx\<rparr> out l"
  have "finite (dom (utxo ?l))" using Cons.prems by (simp add: utxo_create_output)
  from Cons.IH[OF this, of "idx + 1"] total_value_create_output[OF Cons.prems]
  show ?case by (force simp: outputs_value_def intro: order_trans)
qed

lemma finite_utxo_create_outputs:
  "finite (dom (utxo l)) \<Longrightarrow> finite (dom (utxo (create_outputs tid idx outs l)))"
  by (induction outs arbitrary: idx l) (simp_all add: utxo_create_output)

lemma finite_utxo_apply_tx: "finite (dom (utxo l)) \<Longrightarrow> finite (dom (utxo (apply_tx tx l)))"
  unfolding apply_tx_def
  by (intro finite_utxo_create_outputs
      fold_invariant_list[where P = "\<lambda>l. finite (dom (utxo l))"] finite_utxo_spend)

lemma total_value_apply_tx:
  assumes "finite (dom (utxo l))" "distinct (inputs tx)" "set (inputs tx) \<subseteq> dom (utxo l)"
  shows "total_value (apply_tx tx l) + inputs_value (inputs tx) l \<le>
         total_value l + outputs_value (outputs tx)"
proof -
  let ?l = "fold spend (inputs tx) l"
  have "finite (dom (utxo ?l))"
    using assms(1) by (rule fold_invariant_list[where P = "\<lambda>l. finite (dom (utxo l))", rotated])
      (rule finite_utxo_spend)
  then have "total_value (apply_tx tx l) \<le> total_value ?l + outputs_value (outputs tx)"
    unfolding apply_tx_def by (rule total_value_create_outputs)
  with total_value_spends[OF assms] show ?thesis by simp
qed

end
