(* ===== verification/Storage.thy ===== *)
theory Storage
  imports Ledger
begin

text \<open>
  Persistence as \<^verbatim>\<open>src/chain.cpp\<close> uses it. LevelDB is not part of the repository: its operations are the
  fields of a record \<open>leveldb\<close> over a type \<open>'db\<close> of database states, and \<open>leveldb_ok\<close> states the
  documented behaviour the code relies on (a successful write is seen by a complete scan, a scan
  visits the keys in bytewise order). Modelled from the source: the keys, and the fact that makes
  loading work, namely that the order of the keys is the order of the heights.
\<close>

section \<open>LevelDB\<close>

text \<open>
  \<^item> \<open>db_put k v\<close>, \<open>db_delete k\<close>: \<^verbatim>\<open>DB::Put\<close> and \<^verbatim>\<open>DB::Delete\<close> with default options; the status is
    \<open>None\<close> when ok, otherwise the message of \<^verbatim>\<open>Status::ToString()\<close>;
  \<^item> \<open>db_scan\<close>: the entries an iterator meets from \<^verbatim>\<open>SeekToFirst()\<close> while \<^verbatim>\<open>Valid()\<close>, and its final
    status.
\<close>

record 'db leveldb =
  db_put :: "string \<Rightarrow> bytes \<Rightarrow> 'db \<Rightarrow> string option \<times> 'db"
  db_delete :: "string \<Rightarrow> 'db \<Rightarrow> string option \<times> 'db"
  db_scan :: "'db \<Rightarrow> (string \<times> bytes) list \<times> string option"

definition leveldb_ok :: "'db leveldb \<Rightarrow> ('db \<Rightarrow> string \<Rightarrow> bytes option) \<Rightarrow> bool" where
  "leveldb_ok L contents \<longleftrightarrow>
     (\<forall>k v db db'. db_put L k v db = (None, db') \<longrightarrow> contents db' = (contents db)(k \<mapsto> v)) \<and>
     (\<forall>k db db'. db_delete L k db = (None, db') \<longrightarrow> contents db' = (contents db)(k := None)) \<and>
     (\<forall>db es. db_scan L db = (es, None) \<longrightarrow>
        sorted_wrt (<) (map fst es) \<and> map_of es = contents db)"

lemma leveldb_okD:
  assumes "leveldb_ok L contents"
  shows "db_put L k v db = (None, db') \<Longrightarrow> contents db' = (contents db)(k \<mapsto> v)"
    and "db_delete L k db = (None, db') \<Longrightarrow> contents db' = (contents db)(k := None)"
    and "db_scan L db = (es, None) \<Longrightarrow> sorted_wrt (<) (map fst es)"
    and "db_scan L db = (es, None) \<Longrightarrow> map_of es = contents db"
  using assms by (auto simp: leveldb_ok_def)

text \<open>A scan is determined by the contents: it is the only sorted list of the entries.\<close>

lemma sorted_entries_unique:
  assumes "sorted_wrt (<) (map fst xs)" "sorted_wrt (<) (map fst ys)" "map_of xs = map_of ys"
  shows "xs = (ys :: ('k::linorder \<times> 'v) list)"
proof -
  have d: "sorted (map fst zs) \<and> distinct (map fst zs)"
    if "sorted_wrt (<) (map fst zs)" for zs :: "('k \<times> 'v) list"
    using that strict_sorted_iff by blast
  from d[OF assms(1)] d[OF assms(2)] assms(3) have eq: "set xs = set ys"
    by (simp add: map_of_inject_set)
  have "inj_on fst (set xs \<union> set ys)"
    using d[OF assms(1)] eq by (simp add: distinct_map)
  with d[OF assms(1)] d[OF assms(2)] eq show ?thesis
    by (auto intro: map_sorted_distinct_set_unique)
qed

text \<open>\<^verbatim>\<open>open_db\<close>; the argument is the result of \<^verbatim>\<open>DB::Open\<close>, an error status or the database.\<close>

definition open_db :: "string \<Rightarrow> string + 'db \<Rightarrow> exn + 'db" where
  "open_db name opened =
     (case opened of
        Inl status \<Rightarrow> Inl (Runtime_error (name @ '' DB: '' @ status))
      | Inr db \<Rightarrow> Inr db)"


section \<open>Keys\<close>

definition hex_key :: "sodium \<Rightarrow> hash \<Rightarrow> string" where
  "hex_key so h = bin2hex so h"

lemma hex_key_inj: "sodium_ok so \<Longrightarrow> hex_key so a = hex_key so b \<longleftrightarrow> a = b"
  by (simp add: hex_key_def bin2hex_inj)

text \<open>\<^verbatim>\<open>snprintf(buf, 11, "%010u", height)\<close>, of which the first 10 characters are taken.\<close>

definition pad_zeros :: "nat \<Rightarrow> string \<Rightarrow> string" where
  "pad_zeros k s = replicate (k - length s) (CHR ''0'') @ s"

definition block_key :: "u32 \<Rightarrow> string" where
  "block_key height = take 10 (pad_zeros 10 (nat_to_string (unat height)))"

text \<open>The same key, digit by digit.\<close>

primrec fixed_digits :: "nat \<Rightarrow> nat \<Rightarrow> string" where
  "fixed_digits 0 n = []"
| "fixed_digits (Suc k) n = fixed_digits k (n div 10) @ [digit_char (n mod 10)]"

lemma length_fixed_digits [simp]: "length (fixed_digits k n) = k"
  by (induction k arbitrary: n) simp_all

lemma digit_char_0: "digit_char 0 = CHR ''0''"
  by code_simp

lemma fixed_digits_0: "fixed_digits k 0 = replicate k (CHR ''0'')"
  by (induction k) (simp_all add: digit_char_0 replicate_append_same)

lemma length_nat_to_string: "n < 10 ^ Suc k \<Longrightarrow> length (nat_to_string n) \<le> Suc k"
proof (induction k arbitrary: n)
  case 0
  then show ?case by (simp add: nat_to_string.simps[of n])
next
  case (Suc k)
  then have "n div 10 < 10 ^ Suc k" by auto
  from Suc.IH[OF this] show ?case by (subst nat_to_string.simps) simp
qed

lemma pad_zeros_nat_to_string:
  "n < 10 ^ Suc k \<Longrightarrow> pad_zeros (Suc k) (nat_to_string n) = fixed_digits (Suc k) n"
proof (induction k arbitrary: n)
  case 0
  then show ?case by (simp add: pad_zeros_def nat_to_string.simps[of n])
next
  case (Suc k)
  show ?case
  proof (cases "n < 10")
    case True
    then show ?thesis
      by (simp add: pad_zeros_def nat_to_string.simps[of n] fixed_digits_0 digit_char_0
          replicate_append_same)
  next
    case False
    from Suc.prems have "n div 10 < 10 ^ Suc k" by auto
    with Suc.IH[OF this] False length_nat_to_string[OF this] show ?thesis
      by (simp add: pad_zeros_def nat_to_string.simps[of n] del: fixed_digits.simps)
         (simp add: fixed_digits.simps)
  qed
qed

lemma block_key_digits: "block_key height = fixed_digits 10 (unat height)"
proof -
  have "unat height < 10 ^ Suc 9" using unat_u32_less[of height] by simp
  from pad_zeros_nat_to_string[OF this] show ?thesis by (simp add: block_key_def)
qed

lemma snoc_less_snoc:
  "length xs = length ys \<Longrightarrow>
   xs @ [x] < ys @ [y] \<longleftrightarrow> xs < ys \<or> xs = ys \<and> (x :: 'a :: linorder) < y"
  by (induction xs ys rule: list_induct2) auto

lemma digit_char_less: "a < 10 \<Longrightarrow> b < 10 \<Longrightarrow> digit_char a < digit_char b \<longleftrightarrow> a < b"
  by (simp add: digit_char_def less_char_def of_char_of)

lemma digit_char_eq: "a < 10 \<Longrightarrow> b < 10 \<Longrightarrow> digit_char a = digit_char b \<longleftrightarrow> a = b"
  by (metis digit_char_less nat_neq_iff)

lemma fixed_digits_order:
  "a < 10 ^ k \<Longrightarrow> b < 10 ^ k \<Longrightarrow>
   (fixed_digits k a < fixed_digits k b \<longleftrightarrow> a < b) \<and> (fixed_digits k a = fixed_digits k b \<longleftrightarrow> a = b)"
proof (induction k arbitrary: a b)
  case 0
  then show ?case by simp
next
  case (Suc k)
  then have "a div 10 < 10 ^ k" "b div 10 < 10 ^ k" by auto
  from Suc.IH[OF this] have
    "fixed_digits (Suc k) a < fixed_digits (Suc k) b \<longleftrightarrow>
       a div 10 < b div 10 \<or> a div 10 = b div 10 \<and> a mod 10 < b mod 10"
    "fixed_digits (Suc k) a = fixed_digits (Suc k) b \<longleftrightarrow>
       a div 10 = b div 10 \<and> a mod 10 = b mod 10"
    by (auto simp: snoc_less_snoc digit_char_less digit_char_eq)
  moreover have "a = 10 * (a div 10) + a mod 10" "b = 10 * (b div 10) + b mod 10"
    "a mod 10 < 10" "b mod 10 < 10" by simp_all
  ultimately show ?case by linarith
qed

lemma block_key_order:
  "block_key a < block_key b \<longleftrightarrow> a < b" "block_key a = block_key b \<longleftrightarrow> a = b"
proof -
  have "unat a < 10 ^ 10" "unat b < 10 ^ 10"
    using unat_u32_less[of a] unat_u32_less[of b] by simp_all
  from fixed_digits_order[OF this]
  show "block_key a < block_key b \<longleftrightarrow> a < b" "block_key a = block_key b \<longleftrightarrow> a = b"
    by (simp_all add: block_key_digits word_less_nat_alt word_unat_eq_iff)
qed

lemma length_block_key: "length (block_key h) = 10"
  by (simp add: block_key_digits)

end
