(* ===== verification/Chain.thy ===== *)
theory Chain
  imports Storage
begin

text \<open>
  \<^verbatim>\<open>include/axis/chain.h\<close> and \<^verbatim>\<open>src/chain.cpp\<close>: the state of \<^verbatim>\<open>Chain\<close> and its methods. Every public
  method takes the lock for its whole body (\<^verbatim>\<open>unique_lock\<close> for \<^verbatim>\<open>add_tx\<close> and \<^verbatim>\<open>add_block\<close>, \<^verbatim>\<open>shared_lock\<close>
  for the queries), so a method is one atomic step on the state: a function of it, or an \<open>action\<close>
  when it changes the state and may throw. What the methods print is
  in theory Console.
\<close>

section \<open>State\<close>

datatype tx_error =
    TxError_None
  | TxError_InvalidPayload
  | TxError_BadPubkey
  | TxError_ZeroAmount
  | TxError_BadOwnership
  | TxError_BadSignature
  | TxError_Duplicate
  | TxError_InputSpent
  | TxError_Internal

record 'db chain = ledger +
  pool :: "hash \<Rightarrow> transaction option"
  pool_spent :: "outpoint \<Rightarrow> outpoint option"
  blocks :: "block list"
  chain_height :: u32
  chain_difficulty :: u8
  chain_target :: hash
  blocks_db :: 'db
  pool_db :: 'db

text \<open>
  \<^verbatim>\<open>HashHasher\<close> and \<^verbatim>\<open>AddressHasher\<close> of the hash tables. Which entry of a table is found does not depend on
  them, only the order of iteration does, which is a parameter below.
\<close>

definition HashHasher :: "hash \<Rightarrow> u64" where
  "HashHasher h = first_word h"

definition AddressHasher :: "address \<Rightarrow> u64" where
  "AddressHasher a = first_word a"

definition UNITS :: u64 where "UNITS = 1000000"
definition MINER_REWARD :: u64 where "MINER_REWARD = 3 * UNITS"


section \<open>Queries\<close>

text \<open>\<^verbatim>\<open>blocks_.back()\<close>; the chain is never empty once constructed.\<close>

definition tip :: "'db chain \<Rightarrow> block" where
  "tip c = last (blocks c)"

definition tip_hash :: "'db chain \<Rightarrow> hash" where
  "tip_hash c = block_hash (last (blocks c))"

definition height :: "'db chain \<Rightarrow> u32" where
  "height c = chain_height c"

definition get_difficulty :: "'db chain \<Rightarrow> u8" where
  "get_difficulty c = chain_difficulty c"

definition target :: "'db chain \<Rightarrow> hash" where
  "target c = chain_target c"

definition get_block :: "u32 \<Rightarrow> 'db chain \<Rightarrow> block option" where
  "get_block h c = (if unat h \<ge> length (blocks c) then None else Some (blocks c ! unat h))"

text \<open>The overload that looks a hash up: a linear search with a 32-bit index.\<close>

primrec find_block :: "hash \<Rightarrow> u32 \<Rightarrow> block list \<Rightarrow> (u32 \<times> block) option" where
  "find_block hash i [] = None"
| "find_block hash i (blk # blks) =
     (if block_hash blk = hash then Some (i, blk) else find_block hash (i + 1) blks)"

definition get_block_by_hash :: "hash \<Rightarrow> 'db chain \<Rightarrow> (u32 \<times> block) option" where
  "get_block_by_hash hash c = find_block hash 0 (blocks c)"

definition get_blocks :: "u32 \<Rightarrow> u32 \<Rightarrow> 'db chain \<Rightarrow> block list" where
  "get_blocks start count c =
     (if unat start \<ge> length (blocks c) \<or> count = 0 then []
      else let available = (word_of_nat (length (blocks c) - unat start) :: u32);
               end = start + min count available
           in map (\<lambda>i. blocks c ! i) [unat start..<unat end])"

definition pool_contains :: "hash \<Rightarrow> 'db chain \<Rightarrow> bool" where
  "pool_contains h c \<longleftrightarrow> pool c h \<noteq> None"

definition get_pool_tx :: "hash \<Rightarrow> 'db chain \<Rightarrow> exn + transaction" where
  "get_pool_tx h c =
     (case pool c h of None \<Rightarrow> Inl (Out_of_range ''unordered_map::at'') | Some tx \<Rightarrow> Inr tx)"

text \<open>
  The iteration order of an \<^verbatim>\<open>unordered_map\<close> is unspecified: \<open>iter\<close> is any enumeration of its entries,
  each key once.
\<close>

type_synonym ('k, 'v) map_iter = "('k \<Rightarrow> 'v option) \<Rightarrow> ('k \<times> 'v) list"

definition iterates :: "('k, 'v) map_iter \<Rightarrow> ('k \<Rightarrow> 'v option) \<Rightarrow> bool" where
  "iterates iter m \<longleftrightarrow> distinct (map fst (iter m)) \<and> map_of (iter m) = m"

definition get_pool_txs :: "(hash, transaction) map_iter \<Rightarrow> 'db chain \<Rightarrow> transaction list" where
  "get_pool_txs iter c = map snd (iter (pool c))"

text \<open>The loop of \<^verbatim>\<open>get_utxos\<close>; \<^verbatim>\<open>utxo_.at\<close> throws for a missing out-point.\<close>

primrec collect_utxos ::
    "'db chain \<Rightarrow> outpoint list \<Rightarrow> (outpoint \<times> u64) list \<Rightarrow> exn + (outpoint \<times> u64) list" where
  "collect_utxos c [] acc = Inr acc"
| "collect_utxos c (op # ops) acc =
     (if pool_spent c op = None
      then case utxo c op of
             None \<Rightarrow> Inl (Out_of_range ''unordered_map::at'')
           | Some out \<Rightarrow> collect_utxos c ops (acc @ [(op, amount out)])
      else collect_utxos c ops acc)"

definition get_utxos ::
    "address \<Rightarrow> (outpoint \<times> u64) list \<Rightarrow> 'db chain \<Rightarrow> exn + (outpoint \<times> u64) list" where
  "get_utxos addr outpoints c =
     (case address_utxo c addr of
        None \<Rightarrow> Inr outpoints
      | Some ops \<Rightarrow> collect_utxos c ops outpoints)"


section \<open>Difficulty\<close>

definition build_target :: "u8 \<Rightarrow> hash" where
  "build_target d = fold (\<lambda>i t. t[i := 0]) [0..<unat d] (replicate 32 0xff)"

definition leading_zero_bytes :: "nat \<Rightarrow> hash \<Rightarrow> bool" where
  \<comment> \<open>the loop of \<^verbatim>\<open>verify_block_header\<close> over the hash bytes\<close>
  "leading_zero_bytes n h \<longleftrightarrow> list_all (\<lambda>i. h ! i = 0) [0..<n]"

definition verify_block_header :: "'db chain \<Rightarrow> block \<Rightarrow> bool" where
  "verify_block_header c blk \<longleftrightarrow>
     (if prev_hash (header blk) \<noteq> tip_hash c then False
      else if hd_timestamp (header blk) \<le> hd_timestamp (header (tip c)) then False
      else leading_zero_bytes (unat (chain_difficulty c)) (block_hash blk))"


section \<open>Storing blocks\<close>

definition quoted :: "string \<Rightarrow> string" where
  "quoted s = CHR 0x27 # s @ [CHR 0x27]"

definition store_block :: "'db leveldb \<Rightarrow> block \<Rightarrow> ('db chain, unit) action" where
  "store_block L blk c =
     (let key = block_key (word_of_nat (length (blocks c)));
          (status, db) = db_put L key (block_serialize_str blk) (blocks_db c);
          c' = c\<lparr>blocks_db := db\<rparr>
      in case status of
           None \<Rightarrow> (Inr (), c')
         | Some st \<Rightarrow>
             (Inl (Runtime_error (''failed to store block at key '' @ quoted key @ '': '' @ st)), c'))"


section \<open>Start-up\<close>

text \<open>One entry of the blocks database: decode it, reject trailing bytes, replay it, append it.\<close>

definition load_block_entry ::
    "sodium \<Rightarrow> string \<times> bytes \<Rightarrow> 'db chain \<Rightarrow> exn + 'db chain" where
  "load_block_entry so entry c =
     (let (key, raw) = entry;
          wrap = (\<lambda>ex. Runtime_error
                   (''failed to deserialize block at key '' @ quoted key @ '': '' @ what ex))
      in case block_deserialize so (mk_reader raw) of
           Inl ex \<Rightarrow> Inl (wrap ex)
         | Inr (blk, reader) \<Rightarrow>
             if roffset reader \<noteq> length raw
             then Inl (wrap (Runtime_error
                    (''trailing bytes after block payload: consumed '' @
                     nat_to_string (roffset reader) @ '' of '' @
                     nat_to_string (length raw) @ '' bytes'')))
             else let c' = fold apply_tx (transactions blk) c
                  in Inr (c'\<lparr>blocks := blocks c' @ [blk]\<rparr>))"

primrec load_block_entries ::
    "sodium \<Rightarrow> (string \<times> bytes) list \<Rightarrow> 'db chain \<Rightarrow> exn + 'db chain" where
  "load_block_entries so [] c = Inr c"
| "load_block_entries so (e # es) c = ebind (load_block_entry so e c) (load_block_entries so es)"

definition load_blocks :: "sodium \<Rightarrow> 'db leveldb \<Rightarrow> 'db chain \<Rightarrow> exn + 'db chain" where
  "load_blocks so L c =
     (let (entries, status) = db_scan L (blocks_db c)
      in ebind (load_block_entries so entries c) (\<lambda>c'.
           case status of
             Some st \<Rightarrow> Inl (Runtime_error (''error while iterating blocks DB: '' @ st))
           | None \<Rightarrow> Inr (c'\<lparr>chain_height := word_of_nat (length (blocks c'))\<rparr>)))"

text \<open>\<^verbatim>\<open>pool_spent_[in] = in\<close> for every input.\<close>

definition mark_spent ::
    "outpoint list \<Rightarrow> (outpoint \<Rightarrow> outpoint option) \<Rightarrow> (outpoint \<Rightarrow> outpoint option)" where
  "mark_spent ins m = fold (\<lambda>op m. m(op \<mapsto> op)) ins m"

definition unmark_spent ::
    "outpoint list \<Rightarrow> (outpoint \<Rightarrow> outpoint option) \<Rightarrow> (outpoint \<Rightarrow> outpoint option)" where
  "unmark_spent ins m = fold (\<lambda>op m. m(op := None)) ins m"

definition load_pool_entry :: "string \<times> bytes \<Rightarrow> 'db chain \<Rightarrow> exn + 'db chain" where
  "load_pool_entry entry c =
     ebind (tx_of_bytes (snd entry)) (\<lambda>tx.
       Inr (c\<lparr>pool_spent := mark_spent (inputs tx) (pool_spent c),
              pool := (pool c)(txid tx \<mapsto> tx)\<rparr>))"

primrec load_pool_entries :: "(string \<times> bytes) list \<Rightarrow> 'db chain \<Rightarrow> exn + 'db chain" where
  "load_pool_entries [] c = Inr c"
| "load_pool_entries (e # es) c = ebind (load_pool_entry e c) (load_pool_entries es)"

text \<open>The final status of the pool iterator is not looked at.\<close>

definition load_pool :: "'db leveldb \<Rightarrow> 'db chain \<Rightarrow> exn + 'db chain" where
  "load_pool L c = load_pool_entries (fst (db_scan L (pool_db c))) c"

definition GENESIS_ADDR :: "sodium \<Rightarrow> exn + address" where
  "GENESIS_ADDR so = from_hex so 20 ''f45a20e043b01f65638a46831ce79b8fec3f6737''"

definition genesis_block :: "sodium \<Rightarrow> address \<Rightarrow> block" where
  "genesis_block so addr =
     (let coinbase = mk_transaction so [] [\<lparr>recipient = addr, amount = 15 * UNITS\<rparr>] 1781545365
      in mk_block so zero_hash [coinbase] 1781545365 31496)"

definition create_genesis :: "sodium \<Rightarrow> 'db leveldb \<Rightarrow> address \<Rightarrow> ('db chain, unit) action" where
  "create_genesis so L addr =
     (let blk = genesis_block so addr
      in sbind (store_block L blk) (\<lambda>_ c.
           let c' = fold apply_tx (transactions blk) c
           in (Inr (), c'\<lparr>blocks := blocks c' @ [blk], chain_height := 1\<rparr>)))"

text \<open>The members before the constructor body runs: empty tables, difficulty 3, a zero target.\<close>

definition blank_chain :: "'db \<Rightarrow> 'db \<Rightarrow> 'db chain" where
  "blank_chain bdb pdb =
     \<lparr>utxo = Map.empty, address_utxo = Map.empty, pool = Map.empty, pool_spent = Map.empty,
      blocks = [], chain_height = 0, chain_difficulty = 3, chain_target = zero_hash,
      blocks_db = bdb, pool_db = pdb\<rparr>"

text \<open>
  \<^verbatim>\<open>Chain::Chain()\<close>. \<open>opened\<close> gives the result of \<^verbatim>\<open>DB::Open\<close> for a name. The genesis address is
  computed when the program starts; an exception there ends it as well.
\<close>

definition Chain_init ::
    "sodium \<Rightarrow> 'db leveldb \<Rightarrow> (string \<Rightarrow> string + 'db) \<Rightarrow> exn + 'db chain" where
  "Chain_init so L opened =
     ebind (GENESIS_ADDR so) (\<lambda>addr.
     ebind (open_db ''blocks'' (opened ''blocks'')) (\<lambda>bdb.
     ebind (open_db ''pool'' (opened ''pool'')) (\<lambda>pdb.
     ebind (load_blocks so L (blank_chain bdb pdb)) (\<lambda>c1.
     ebind (load_pool L c1) (\<lambda>c2.
     ebind (if blocks c2 = []
            then (case create_genesis so L addr c2 of (Inl e, _) \<Rightarrow> Inl e | (Inr _, c3) \<Rightarrow> Inr c3)
            else Inr c2) (\<lambda>c3.
       Inr (c3\<lparr>chain_target := build_target (chain_difficulty c3)\<rparr>)))))))"


section \<open>Submitting a transaction\<close>

text \<open>The loop over the outputs, with its early returns: the sum, or the error returned.\<close>

fun sum_outputs :: "txoutput list \<Rightarrow> u64 \<Rightarrow> tx_error + u64" where
  "sum_outputs [] sum_out = Inr sum_out"
| "sum_outputs (out # outs) sum_out =
     (if amount out = 0 then Inl TxError_ZeroAmount
      else if sum_out > u64_max - amount out then Inl TxError_InvalidPayload
      else sum_outputs outs (sum_out + amount out))"

text \<open>The loop over the inputs.\<close>

fun sum_inputs ::
    "(outpoint \<Rightarrow> txoutput option) \<Rightarrow> address \<Rightarrow> outpoint list \<Rightarrow> u64 \<Rightarrow> tx_error + u64" where
  "sum_inputs utxos sender [] sum_in = Inr sum_in"
| "sum_inputs utxos sender (op # ops) sum_in =
     (case utxos op of
        None \<Rightarrow> Inl TxError_BadOwnership
      | Some out \<Rightarrow>
          if recipient out \<noteq> sender then Inl TxError_BadOwnership
          else if sum_in > u64_max - amount out then Inl TxError_InvalidPayload
          else sum_inputs utxos sender ops (sum_in + amount out))"

text \<open>The checks of \<^verbatim>\<open>add_tx\<close>, in the order of the code.\<close>

definition check_tx :: "sodium \<Rightarrow> signed_transaction \<Rightarrow> 'db chain \<Rightarrow> tx_error" where
  "check_tx so st c =
     (let tx = st_tx st; pk = st_pubkey st in
      case sum_outputs (outputs tx) 0 of
        Inl e \<Rightarrow> e
      | Inr sum_out \<Rightarrow>
          if sum_out = 0 then TxError_ZeroAmount
          else if inputs tx = [] then TxError_InvalidPayload
          else case sum_inputs (utxo c) (derive_address so pk) (inputs tx) 0 of
            Inl e \<Rightarrow> e
          | Inr sum_in \<Rightarrow>
              if sum_in < sum_out then TxError_BadOwnership
              else if \<not> verify_sig so pk (txid tx) (st_sig st) then TxError_BadSignature
              else if pool c (txid tx) \<noteq> None then TxError_Duplicate
              else if list_ex (\<lambda>op. pool_spent c op \<noteq> None) (inputs tx) then TxError_InputSpent
              else TxError_None)"

definition add_tx ::
    "sodium \<Rightarrow> 'db leveldb \<Rightarrow> signed_transaction \<Rightarrow> ('db chain, tx_error) action" where
  "add_tx so L st c =
     (let tx = st_tx st; err = check_tx so st c in
      if err \<noteq> TxError_None then (Inr err, c)
      else
        let key = hex_key so (txid tx);
            (status, db) = db_put L key (tx_serialize_str tx) (pool_db c);
            c' = c\<lparr>pool_spent := mark_spent (inputs tx) (pool_spent c),
                   pool := (pool c)(txid tx \<mapsto> tx),
                   pool_db := db\<rparr>
        in case status of
             None \<Rightarrow> (Inr TxError_None, c')
           | Some s \<Rightarrow>
               (Inl (Runtime_error
                  (''failed to store pool transaction '' @ quoted key @ '': '' @ s)), c'))"


section \<open>Accepting a block\<close>

text \<open>The loop body of \<^verbatim>\<open>add_block\<close>.\<close>

definition confirm_tx :: "sodium \<Rightarrow> 'db leveldb \<Rightarrow> transaction \<Rightarrow> ('db chain, unit) action" where
  "confirm_tx so L tx c =
     (let c1 = apply_tx tx c in
      if is_coinbase tx then (Inr (), c1)
      else
        let pool_key = hex_key so (txid tx);
            (status, db) = db_delete L pool_key (pool_db c1);
            c2 = c1\<lparr>pool_spent := unmark_spent (inputs tx) (pool_spent c1),
                    pool := (pool c1)(txid tx := None),
                    pool_db := db\<rparr>
        in case status of
             None \<Rightarrow> (Inr (), c2)
           | Some s \<Rightarrow>
               (Inl (Runtime_error
                  (''failed to remove mined transaction '' @ quoted pool_key @
                   '' from pool DB: '' @ s)), c2))"

primrec confirm_txs ::
    "sodium \<Rightarrow> 'db leveldb \<Rightarrow> transaction list \<Rightarrow> ('db chain, unit) action" where
  "confirm_txs so L [] = sreturn ()"
| "confirm_txs so L (tx # txs) = sbind (confirm_tx so L tx) (\<lambda>_. confirm_txs so L txs)"

definition add_block :: "sodium \<Rightarrow> 'db leveldb \<Rightarrow> block \<Rightarrow> ('db chain, unit) action" where
  "add_block so L blk =
     sbind (confirm_txs so L (transactions blk)) (\<lambda>_.
     sbind (store_block L blk) (\<lambda>_ c.
       (Inr (), c\<lparr>blocks := blocks c @ [blk], chain_height := chain_height c + 1\<rparr>)))"

end
