(* ===== verification/Mempool.thy ===== *)
theory Mempool
  imports Chain
begin

text \<open>
  The memory pool: what \<open>add_tx\<close> accepts, stated with unbounded sums, and the invariant that ties
  \<^verbatim>\<open>pool_\<close>, \<^verbatim>\<open>pool_spent_\<close> and the unspent outputs together, kept by \<open>add_tx\<close> and by \<open>add_block\<close> on the
  blocks the server builds.
\<close>

section \<open>What a step leaves unchanged\<close>

lemma spend_frame [frame_simps]:
  "pool (spend op c) = pool c" "pool_spent (spend op c) = pool_spent c"
  "blocks (spend op c) = blocks c" "chain_height (spend op c) = chain_height c"
  "chain_difficulty (spend op c) = chain_difficulty c" "chain_target (spend op c) = chain_target c"
  "blocks_db (spend op c) = blocks_db c" "pool_db (spend op c) = pool_db c"
  by (simp_all add: spend_def Let_def split: option.splits)

lemma create_output_frame [frame_simps]:
  "pool (create_output op out c) = pool c" "pool_spent (create_output op out c) = pool_spent c"
  "blocks (create_output op out c) = blocks c"
  "chain_height (create_output op out c) = chain_height c"
  "chain_difficulty (create_output op out c) = chain_difficulty c"
  "chain_target (create_output op out c) = chain_target c"
  "blocks_db (create_output op out c) = blocks_db c" "pool_db (create_output op out c) = pool_db c"
  by (simp_all add: create_output_def)

lemma spends_frame [frame_simps]:
  "pool (fold spend ops c) = pool c" "pool_spent (fold spend ops c) = pool_spent c"
  "blocks (fold spend ops c) = blocks c" "chain_height (fold spend ops c) = chain_height c"
  "chain_difficulty (fold spend ops c) = chain_difficulty c"
  "chain_target (fold spend ops c) = chain_target c"
  "blocks_db (fold spend ops c) = blocks_db c" "pool_db (fold spend ops c) = pool_db c"
  by (induction ops arbitrary: c) (simp_all add: frame_simps)

lemma create_outputs_frame [frame_simps]:
  "pool (create_outputs tid i outs c) = pool c"
  "pool_spent (create_outputs tid i outs c) = pool_spent c"
  "blocks (create_outputs tid i outs c) = blocks c"
  "chain_height (create_outputs tid i outs c) = chain_height c"
  "chain_difficulty (create_outputs tid i outs c) = chain_difficulty c"
  "chain_target (create_outputs tid i outs c) = chain_target c"
  "blocks_db (create_outputs tid i outs c) = blocks_db c"
  "pool_db (create_outputs tid i outs c) = pool_db c"
  by (induction outs arbitrary: i c) (simp_all add: frame_simps)

lemma apply_tx_frame [frame_simps]:
  "pool (apply_tx tx c) = pool c" "pool_spent (apply_tx tx c) = pool_spent c"
  "blocks (apply_tx tx c) = blocks c" "chain_height (apply_tx tx c) = chain_height c"
  "chain_difficulty (apply_tx tx c) = chain_difficulty c" "chain_target (apply_tx tx c) = chain_target c"
  "blocks_db (apply_tx tx c) = blocks_db c" "pool_db (apply_tx tx c) = pool_db c"
  by (simp_all add: apply_tx_def frame_simps)

lemma apply_txs_frame [frame_simps]:
  "pool (fold apply_tx txs c) = pool c" "pool_spent (fold apply_tx txs c) = pool_spent c"
  "blocks (fold apply_tx txs c) = blocks c" "chain_height (fold apply_tx txs c) = chain_height c"
  "chain_difficulty (fold apply_tx txs c) = chain_difficulty c"
  "chain_target (fold apply_tx txs c) = chain_target c"
  "blocks_db (fold apply_tx txs c) = blocks_db c" "pool_db (fold apply_tx txs c) = pool_db c"
  by (induction txs arbitrary: c) (simp_all add: frame_simps)

lemma create_outputs_keeps:
  "utxo l op \<noteq> None \<Longrightarrow> utxo (create_outputs tid i outs l) op \<noteq> None"
  by (induction outs arbitrary: i l) (simp_all add: utxo_create_output)

lemma apply_tx_keeps:
  "utxo l op \<noteq> None \<Longrightarrow> op \<notin> set (inputs tx) \<Longrightarrow> utxo (apply_tx tx l) op \<noteq> None"
  unfolding apply_tx_def by (rule create_outputs_keeps) (simp add: utxo_spends)

lemma mark_spent_apply: "mark_spent ins m op = (if op \<in> set ins then Some op else m op)"
  unfolding mark_spent_def by (induction ins arbitrary: m) auto

lemma unmark_spent_apply: "unmark_spent ins m op = (if op \<in> set ins then None else m op)"
  unfolding unmark_spent_def by (induction ins arbitrary: m) auto


section \<open>What \<open>add_tx\<close> accepts\<close>

definition tx_acceptable :: "sodium \<Rightarrow> signed_transaction \<Rightarrow> 'db chain \<Rightarrow> bool" where
  "tx_acceptable so st c \<longleftrightarrow>
     (let tx = st_tx st in
      outputs tx \<noteq> [] \<and> (\<forall>out \<in> set (outputs tx). amount out \<noteq> 0) \<and>
      inputs tx \<noteq> [] \<and>
      (\<forall>op \<in> set (inputs tx). \<exists>out. utxo c op = Some out \<and>
          recipient out = derive_address so (st_pubkey st)) \<and>
      inputs_value (inputs tx) c < 2 ^ 64 \<and>
      outputs_value (outputs tx) \<le> inputs_value (inputs tx) c \<and>
      verify_sig so (st_pubkey st) (txid tx) (st_sig st) \<and>
      pool c (txid tx) = None \<and>
      (\<forall>op \<in> set (inputs tx). pool_spent c op = None))"

lemma sum_outputs_Inr:
  "sum_outputs outs s = Inr t \<longleftrightarrow>
     (\<forall>out \<in> set outs. amount out \<noteq> 0) \<and> unat s + outputs_value outs < 2 ^ 64 \<and>
     unat t = unat s + outputs_value outs"
proof (induction outs arbitrary: s)
  case Nil
  then show ?case using unat_u64_less[of s] by (auto simp: outputs_value_def word_unat_eq_iff)
next
  case (Cons out outs)
  then show ?case
    using u64_guard_iff[of "amount out" s] u64_add_exact[of "amount out" s]
    by (auto simp: outputs_value_def)
qed

lemma sum_inputs_Inr:
  "sum_inputs (utxo l) sender ins s = Inr t \<longleftrightarrow>
     (\<forall>op \<in> set ins. \<exists>out. utxo l op = Some out \<and> recipient out = sender) \<and>
     unat s + inputs_value ins l < 2 ^ 64 \<and> unat t = unat s + inputs_value ins l"
proof (induction ins arbitrary: s)
  case Nil
  then show ?case using unat_u64_less[of s] by (auto simp: inputs_value_def word_unat_eq_iff)
next
  case (Cons op ins)
  show ?case
  proof (cases "utxo l op")
    case None
    then show ?thesis by simp
  next
    case (Some out)
    with Cons[of "s + amount out"] show ?thesis
      using u64_guard_iff[of "amount out" s] u64_add_exact[of "amount out" s]
      by (auto simp: inputs_value_def)
  qed
qed

lemma outputs_value_0:
  "\<forall>out \<in> set outs. amount out \<noteq> 0 \<Longrightarrow> outputs_value outs = 0 \<longleftrightarrow> outs = []"
  by (cases outs) (auto simp: outputs_value_def unat_eq_zero)

lemma sum_outputs_no_None: "sum_outputs outs s \<noteq> Inl TxError_None"
  by (induction outs s rule: sum_outputs.induct) auto

lemma sum_inputs_no_None: "sum_inputs m a ops s \<noteq> Inl TxError_None"
  by (induction m a ops s rule: sum_inputs.induct) (auto split: option.splits)

lemma check_tx_None_sums:
  "check_tx so st c = TxError_None \<longleftrightarrow>
     (\<exists>sum_out sum_in. sum_outputs (outputs (st_tx st)) 0 = Inr sum_out \<and> sum_out \<noteq> 0 \<and>
        inputs (st_tx st) \<noteq> [] \<and>
        sum_inputs (utxo c) (derive_address so (st_pubkey st)) (inputs (st_tx st)) 0 = Inr sum_in \<and>
        \<not> sum_in < sum_out \<and> verify_sig so (st_pubkey st) (txid (st_tx st)) (st_sig st) \<and>
        pool c (txid (st_tx st)) = None \<and> (\<forall>op \<in> set (inputs (st_tx st)). pool_spent c op = None))"
  using sum_outputs_no_None[of "outputs (st_tx st)" 0]
    sum_inputs_no_None[of "utxo c" "derive_address so (st_pubkey st)" "inputs (st_tx st)" 0]
  by (auto simp: check_tx_def Let_def list_ex_iff split: sum.splits if_splits)

lemma u64_of_nat: "n < 2 ^ 64 \<Longrightarrow> unat (word_of_nat n :: u64) = n"
  by (simp add: unat_of_nat take_bit_nat_eq_self)

lemma check_tx_None_iff: "check_tx so st c = TxError_None \<longleftrightarrow> tx_acceptable so st c"
proof
  assume "check_tx so st c = TxError_None"
  then obtain sum_out sum_in where *: "sum_outputs (outputs (st_tx st)) 0 = Inr sum_out"
    "sum_inputs (utxo c) (derive_address so (st_pubkey st)) (inputs (st_tx st)) 0 = Inr sum_in"
    "sum_out \<noteq> 0" "\<not> sum_in < sum_out"
    and rest: "inputs (st_tx st) \<noteq> []" "verify_sig so (st_pubkey st) (txid (st_tx st)) (st_sig st)"
    "pool c (txid (st_tx st)) = None" "\<forall>op \<in> set (inputs (st_tx st)). pool_spent c op = None"
    unfolding check_tx_None_sums by blast
  from * have "outputs_value (outputs (st_tx st)) \<le> inputs_value (inputs (st_tx st)) c"
    by (simp add: sum_outputs_Inr sum_inputs_Inr word_less_nat_alt)
  moreover from * have "outputs (st_tx st) \<noteq> []" by auto
  ultimately show "tx_acceptable so st c"
    using * rest by (simp add: tx_acceptable_def Let_def sum_outputs_Inr sum_inputs_Inr)
next
  assume acc: "tx_acceptable so st c"
  let ?o = "outputs_value (outputs (st_tx st))" and ?i = "inputs_value (inputs (st_tx st)) c"
  from acc have i: "?i < 2 ^ 64" and oi: "?o \<le> ?i" and amounts: "\<forall>out \<in> set (outputs (st_tx st)). amount out \<noteq> 0"
    by (simp_all add: tx_acceptable_def Let_def)
  then have o: "?o < 2 ^ 64" by simp
  from acc have "?o \<noteq> 0"
    using outputs_value_0[OF amounts] by (simp add: tx_acceptable_def Let_def)
  with o have "word_of_nat ?o \<noteq> (0 :: u64)"
    using u64_of_nat[OF o] by auto
  moreover have "\<not> (word_of_nat ?i :: u64) < word_of_nat ?o"
    using oi by (simp only: word_less_nat_alt u64_of_nat[OF i] u64_of_nat[OF o] not_less)
  moreover have "sum_outputs (outputs (st_tx st)) 0 = Inr (word_of_nat ?o)"
    using amounts o by (simp add: sum_outputs_Inr u64_of_nat)
  moreover have "sum_inputs (utxo c) (derive_address so (st_pubkey st)) (inputs (st_tx st)) 0 =
      Inr (word_of_nat ?i)"
    using acc i by (simp add: sum_inputs_Inr u64_of_nat tx_acceptable_def Let_def)
  ultimately show "check_tx so st c = TxError_None"
    using acc unfolding check_tx_None_sums tx_acceptable_def Let_def by blast
qed


section \<open>The pool invariant\<close>

text \<open>
  Every pending transaction is stored under its identifier, has inputs, and spends unspent outputs;
  \<^verbatim>\<open>pool_spent_\<close> holds exactly their inputs; no out-point is an input of two of them.
\<close>

definition pool_entries_ok :: "'db chain \<Rightarrow> bool" where
  "pool_entries_ok c \<longleftrightarrow>
     (\<forall>h tx. pool c h = Some tx \<longrightarrow>
        txid tx = h \<and> inputs tx \<noteq> [] \<and> (\<forall>op \<in> set (inputs tx). utxo c op \<noteq> None))"

definition pool_spent_exact :: "'db chain \<Rightarrow> bool" where
  "pool_spent_exact c \<longleftrightarrow>
     (\<forall>op. pool_spent c op \<noteq> None \<longleftrightarrow> (\<exists>h tx. pool c h = Some tx \<and> op \<in> set (inputs tx)))"

definition pool_spent_self :: "'db chain \<Rightarrow> bool" where
  "pool_spent_self c \<longleftrightarrow> (\<forall>op op'. pool_spent c op = Some op' \<longrightarrow> op' = op)"

definition pool_disjoint :: "'db chain \<Rightarrow> bool" where
  "pool_disjoint c \<longleftrightarrow>
     (\<forall>h h' tx tx'. pool c h = Some tx \<longrightarrow> pool c h' = Some tx' \<longrightarrow> h \<noteq> h' \<longrightarrow>
        set (inputs tx) \<inter> set (inputs tx') = {})"

definition pool_inv :: "'db chain \<Rightarrow> bool" where
  "pool_inv c \<longleftrightarrow>
     pool_entries_ok c \<and> pool_spent_exact c \<and> pool_spent_self c \<and> pool_disjoint c"

lemma pool_invD:
  assumes "pool_inv c"
  shows "pool c h = Some tx \<Longrightarrow> txid tx = h"
    and "pool c h = Some tx \<Longrightarrow> inputs tx \<noteq> []"
    and "pool c h = Some tx \<Longrightarrow> op \<in> set (inputs tx) \<Longrightarrow> utxo c op \<noteq> None"
    and "pool c h = Some tx \<Longrightarrow> op \<in> set (inputs tx) \<Longrightarrow> pool_spent c op \<noteq> None"
    and "pool_spent c op \<noteq> None \<Longrightarrow> \<exists>h tx. pool c h = Some tx \<and> op \<in> set (inputs tx)"
    and "pool c h = Some tx \<Longrightarrow> pool c h' = Some tx' \<Longrightarrow> h \<noteq> h' \<Longrightarrow>
           set (inputs tx) \<inter> set (inputs tx') = {}"
    and "pool_spent c op = Some op' \<Longrightarrow> op' = op"
  using assms unfolding pool_inv_def
  by (simp_all add: pool_entries_ok_def) (fastforce simp: pool_spent_exact_def pool_spent_self_def pool_disjoint_def)+

text \<open>The state after accepting a transaction, whatever the database says.\<close>

definition accept_tx :: "transaction \<Rightarrow> 'db \<Rightarrow> 'db chain \<Rightarrow> 'db chain" where
  "accept_tx tx db c =
     c\<lparr>pool_spent := mark_spent (inputs tx) (pool_spent c),
       pool := (pool c)(txid tx \<mapsto> tx), pool_db := db\<rparr>"

lemma add_tx_cases:
  "add_tx so L st c =
     (if tx_acceptable so st c
      then let (status, db) = db_put L (hex_key so (txid (st_tx st)))
                                (tx_serialize_str (st_tx st)) (pool_db c)
           in (case status of None \<Rightarrow> Inr TxError_None
               | Some s \<Rightarrow> Inl (Runtime_error (''failed to store pool transaction '' @
                     quoted (hex_key so (txid (st_tx st))) @ '': '' @ s)),
               accept_tx (st_tx st) db c)
      else (Inr (check_tx so st c), c))"
  using check_tx_None_iff[of so st c]
  by (auto simp: add_tx_def accept_tx_def Let_def split: prod.splits option.splits)

lemma add_tx_state:
  assumes "add_tx so L st c = (r, c')"
  shows "c' = c \<or> (tx_acceptable so st c \<and> (\<exists>db. c' = accept_tx (st_tx st) db c))"
  using assms by (auto simp: add_tx_cases Let_def split: if_splits prod.splits)

lemma pool_inv_accept_tx:
  assumes inv: "pool_inv c" and acc: "tx_acceptable so st c"
  shows "pool_inv (accept_tx (st_tx st) db c)"
proof -
  let ?tx = "st_tx st" and ?c = "accept_tx (st_tx st) db c"
  from acc have ne: "inputs ?tx \<noteq> []" and unspent: "\<forall>op \<in> set (inputs ?tx). utxo c op \<noteq> None"
    and new: "pool c (txid ?tx) = None" and free: "\<forall>op \<in> set (inputs ?tx). pool_spent c op = None"
    by (auto simp: tx_acceptable_def Let_def)
  have p: "pool ?c = (pool c)(txid ?tx \<mapsto> ?tx)" "utxo ?c = utxo c"
    "pool_spent ?c = mark_spent (inputs ?tx) (pool_spent c)"
    by (simp_all add: accept_tx_def)
  have "pool_entries_ok ?c"
    using pool_invD(1-3)[OF inv] ne unspent by (auto simp: pool_entries_ok_def p)
  moreover have "pool_spent_exact ?c"
  proof -
    have "(\<exists>h t. pool ?c h = Some t \<and> op \<in> set (inputs t)) \<longleftrightarrow>
        op \<in> set (inputs ?tx) \<or> (\<exists>h t. pool c h = Some t \<and> op \<in> set (inputs t))" for op
      using new by (auto simp: p split: if_splits) (metis option.distinct(1))
    then show ?thesis
      using pool_invD(4,5)[OF inv] unfolding pool_spent_exact_def
      by (simp add: p(3) mark_spent_apply) blast
  qed
  moreover have "pool_spent_self ?c"
    using pool_invD(7)[OF inv] by (auto simp: pool_spent_self_def p(3) mark_spent_apply)
  moreover have "pool_disjoint ?c"
  proof -
    have "set (inputs ?tx) \<inter> set (inputs t) = {}" if "pool c h = Some t" for h t
      using pool_invD(4)[OF inv that] free by blast
    then show ?thesis
      using pool_invD(6)[OF inv] by (auto simp: pool_disjoint_def p(1) Int_commute)
  qed
  ultimately show ?thesis by (simp add: pool_inv_def)
qed

lemma pool_inv_add_tx: "pool_inv c \<Longrightarrow> add_tx so L st c = (r, c') \<Longrightarrow> pool_inv c'"
  by (drule add_tx_state) (auto intro: pool_inv_accept_tx)



section \<open>Confirming the transactions of a block\<close>

definition clear_tx :: "transaction \<Rightarrow> 'db \<Rightarrow> 'db chain \<Rightarrow> 'db chain" where
  "clear_tx tx db c =
     (apply_tx tx c)\<lparr>pool_spent := unmark_spent (inputs tx) (pool_spent c),
                      pool := (pool c)(txid tx := None), pool_db := db\<rparr>"

lemma confirm_tx_cases:
  "confirm_tx so L tx c =
     (if inputs tx = [] then (Inr (), apply_tx tx c)
      else let (status, db) = db_delete L (hex_key so (txid tx)) (pool_db c)
           in (case status of None \<Rightarrow> Inr ()
               | Some s \<Rightarrow> Inl (Runtime_error (''failed to remove mined transaction '' @
                     quoted (hex_key so (txid tx)) @ '' from pool DB: '' @ s)),
               clear_tx tx db c))"
  by (auto simp: confirm_tx_def clear_tx_def is_coinbase_def Let_def frame_simps
      split: prod.splits option.splits)

lemma confirm_tx_state:
  "confirm_tx so L tx c = (r, c') \<Longrightarrow>
   (inputs tx = [] \<and> c' = apply_tx tx c) \<or> (inputs tx \<noteq> [] \<and> (\<exists>db. c' = clear_tx tx db c))"
  by (auto simp: confirm_tx_cases Let_def split: if_splits prod.splits)

text \<open>
  A transaction a block may contain: a coinbase, a pending transaction, or one already cleared from the
  pool (the same transaction listed twice in a block).
\<close>

definition minable :: "'db chain \<Rightarrow> transaction \<Rightarrow> bool" where
  "minable c tx \<longleftrightarrow> inputs tx = [] \<or> pool c (txid tx) = Some tx \<or>
     (pool c (txid tx) = None \<and> (\<forall>op \<in> set (inputs tx). pool_spent c op = None))"

lemma pool_inv_apply_coinbase:
  assumes "pool_inv c" "inputs tx = []"
  shows "pool_inv (apply_tx tx c)"
proof -
  have "utxo (apply_tx tx c) op \<noteq> None" if "utxo c op \<noteq> None" for op
    using that assms(2) by (intro apply_tx_keeps) simp_all
  then show ?thesis
    using assms(1)
    unfolding pool_inv_def pool_entries_ok_def pool_spent_exact_def pool_spent_self_def
      pool_disjoint_def frame_simps
    by blast
qed

lemma pool_inv_clear_tx:
  assumes inv: "pool_inv c" and m: "minable c tx" and ne: "inputs tx \<noteq> []"
  shows "pool_inv (clear_tx tx db c)"
proof -
  let ?c = "clear_tx tx db c"
  have p: "pool ?c = (pool c)(txid tx := None)" "utxo ?c = utxo (apply_tx tx c)"
    "pool_spent ?c = unmark_spent (inputs tx) (pool_spent c)"
    by (simp_all add: clear_tx_def)
  have apart: "set (inputs tx) \<inter> set (inputs t) = {}" if "pool ?c h = Some t" for h t
  proof -
    from that have h: "pool c h = Some t" "h \<noteq> txid tx" by (auto simp: p split: if_splits)
    from m ne consider "pool c (txid tx) = Some tx" | "\<forall>op \<in> set (inputs tx). pool_spent c op = None"
      by (auto simp: minable_def)
    then show ?thesis
      by cases (use pool_invD(6)[OF inv h(1)] h(2) pool_invD(4)[OF inv h(1)] in \<open>blast+\<close>)
  qed
  have "utxo ?c op \<noteq> None" if "pool ?c h = Some t" "op \<in> set (inputs t)" for h t op
    unfolding p(2)
  proof (rule apply_tx_keeps)
    show "op \<notin> set (inputs tx)" using apart[OF that(1)] that(2) by blast
    show "utxo c op \<noteq> None"
      using pool_invD(3)[OF inv, of h t op] that by (auto simp: p(1) split: if_splits)
  qed
  then have "pool_entries_ok ?c"
    using pool_invD(1,2)[OF inv] by (auto simp: pool_entries_ok_def p(1) split: if_splits)
  moreover have "pool_spent ?c op \<noteq> None \<longleftrightarrow> (\<exists>h t. pool ?c h = Some t \<and> op \<in> set (inputs t))" for op
  proof
    assume "pool_spent ?c op \<noteq> None"
    then have op: "op \<notin> set (inputs tx)" "pool_spent c op \<noteq> None"
      by (auto simp: p(3) unmark_spent_apply split: if_splits)
    from pool_invD(5)[OF inv op(2)] obtain h t where t: "pool c h = Some t" "op \<in> set (inputs t)"
      by blast
    have "h \<noteq> txid tx"
      using m ne t op(1) by (auto simp: minable_def)
    with t show "\<exists>h t. pool ?c h = Some t \<and> op \<in> set (inputs t)" by (auto simp: p(1))
  next
    assume "\<exists>h t. pool ?c h = Some t \<and> op \<in> set (inputs t)"
    then obtain h t where t: "pool ?c h = Some t" "op \<in> set (inputs t)" by blast
    with apart[OF t(1)] pool_invD(4)[OF inv, of h t op] show "pool_spent ?c op \<noteq> None"
      by (auto simp: p unmark_spent_apply split: if_splits)
  qed
  then have "pool_spent_exact ?c" by (simp add: pool_spent_exact_def)
  moreover have "pool_spent_self ?c"
    using pool_invD(7)[OF inv] by (auto simp: pool_spent_self_def p(3) unmark_spent_apply)
  moreover have "pool_disjoint ?c"
    using pool_invD(6)[OF inv] by (auto simp: pool_disjoint_def p(1))
  ultimately show ?thesis by (simp add: pool_inv_def)
qed

lemma pool_inv_confirm_tx:
  "pool_inv c \<Longrightarrow> minable c tx \<Longrightarrow> confirm_tx so L tx c = (r, c') \<Longrightarrow> pool_inv c'"
  by (drule confirm_tx_state) (auto intro: pool_inv_apply_coinbase pool_inv_clear_tx)

lemma minable_confirm_tx:
  assumes inv: "pool_inv c" and m: "minable c tx" "minable c t" and c': "confirm_tx so L tx c = (r, c')"
  shows "minable c' t"
proof -
  from confirm_tx_state[OF c'] show ?thesis
  proof (elim disjE conjE exE)
    assume "c' = apply_tx tx c"
    with m(2) show ?thesis by (simp add: minable_def frame_simps)
  next
    fix db assume ne: "inputs tx \<noteq> []" and c': "c' = clear_tx tx db c"
    then have p: "pool c' = (pool c)(txid tx := None)"
      "pool_spent c' = unmark_spent (inputs tx) (pool_spent c)" by (simp_all add: clear_tx_def)
    show ?thesis
    proof (cases "pool c (txid t) = Some t \<and> txid t = txid tx")
      case True
      with m(1) ne have "t = tx" by (auto simp: minable_def)
      then show ?thesis by (simp add: minable_def p unmark_spent_apply)
    next
      case False
      with m(2) show ?thesis by (auto simp: minable_def p unmark_spent_apply)
    qed
  qed
qed

lemma pool_inv_confirm_txs:
  "pool_inv c \<Longrightarrow> \<forall>tx \<in> set txs. minable c tx \<Longrightarrow> confirm_txs so L txs c = (r, c') \<Longrightarrow> pool_inv c'"
proof (induction txs arbitrary: c)
  case Nil
  then show ?case by simp
next
  case (Cons tx txs)
  obtain r1 c1 where c1: "confirm_tx so L tx c = (r1, c1)" by fastforce
  have inv1: "pool_inv c1" using Cons.prems(1,2) c1 by (auto intro: pool_inv_confirm_tx)
  show ?case
  proof (cases r1)
    case (Inl e)
    with Cons.prems(3) c1 inv1 show ?thesis by (simp add: sbind_def)
  next
    case (Inr u)
    with Cons.prems(3) c1 have "confirm_txs so L txs c1 = (r, c')" by (simp add: sbind_def)
    moreover have "\<forall>t \<in> set txs. minable c1 t"
      using Cons.prems(1,2) c1 by (auto intro: minable_confirm_tx)
    ultimately show ?thesis using Cons.IH[OF inv1] by simp
  qed
qed

lemma store_block_frame:
  "store_block L blk c = (r, c') \<Longrightarrow> \<exists>db. c' = c\<lparr>blocks_db := db\<rparr>"
  by (auto simp: store_block_def Let_def split: prod.splits option.splits)

lemma pool_inv_cong:
  "pool c' = pool c \<Longrightarrow> pool_spent c' = pool_spent c \<Longrightarrow> utxo c' = utxo c \<Longrightarrow> pool_inv c' = pool_inv c"
  by (simp add: pool_inv_def pool_entries_ok_def pool_spent_exact_def pool_spent_self_def
      pool_disjoint_def)

lemma pool_inv_add_block:
  assumes inv: "pool_inv c" and m: "\<forall>tx \<in> set (transactions blk). minable c tx"
    and r: "add_block so L blk c = (r, c')"
  shows "pool_inv c'"
proof -
  obtain r1 c1 where c1: "confirm_txs so L (transactions blk) c = (r1, c1)" by fastforce
  then have inv1: "pool_inv c1" using pool_inv_confirm_txs inv m by blast
  show ?thesis
  proof (cases r1)
    case (Inl e)
    with r c1 inv1 show ?thesis by (simp add: add_block_def sbind_def)
  next
    case (Inr u)
    obtain r2 c2 where c2: "store_block L blk c1 = (r2, c2)" by fastforce
    then obtain db where db: "c2 = c1\<lparr>blocks_db := db\<rparr>" using store_block_frame by blast
    from r c1 c2 Inr have "c' = c2 \<or> c' = c2\<lparr>blocks := blocks c2 @ [blk], chain_height := chain_height c2 + 1\<rparr>"
      by (auto simp: add_block_def sbind_def split: sum.splits)
    then have "pool c' = pool c1" "pool_spent c' = pool_spent c1" "utxo c' = utxo c1"
      using db by auto
    with inv1 show ?thesis using pool_inv_cong by blast
  qed
qed

end
