(* ===== verification/Recovery.thy ===== *)
theory Recovery
  imports Mempool
begin

text \<open>
  The history of the chain and its copy on disk. Shown: the ledger in memory is always the replay of
  the accepted blocks, the databases hold exactly the blocks and the pending transactions, and
  constructing a \<^verbatim>\<open>Chain\<close> from these databases (\<open>Chain_init\<close>) gives back the state.
\<close>

section \<open>The ledger part of the state\<close>

lemma index_of_truncate [simp]: "index_of a (ledger.truncate l) = index_of a l"
  and utxo_truncate [simp]: "utxo (ledger.truncate l) = utxo l"
  and address_utxo_truncate [simp]: "address_utxo (ledger.truncate l) = address_utxo l"
  by (simp_all add: index_of_def ledger.truncate_def)

lemma truncate_spend: "ledger.truncate (spend op l) = spend op (ledger.truncate l)"
  by (simp add: spend_def Let_def ledger.truncate_def index_of_def split: option.splits)

lemma truncate_create_output:
  "ledger.truncate (create_output op out l) = create_output op out (ledger.truncate l)"
  by (simp add: create_output_def ledger.truncate_def index_of_def)

lemma truncate_create_outputs:
  "ledger.truncate (create_outputs tid i outs l) = create_outputs tid i outs (ledger.truncate l)"
  by (induction outs arbitrary: i l) (simp_all add: truncate_create_output)

lemma truncate_spends: "ledger.truncate (fold spend ops l) = fold spend ops (ledger.truncate l)"
  by (induction ops arbitrary: l) (simp_all add: truncate_spend)

lemma truncate_apply_tx: "ledger.truncate (apply_tx tx l) = apply_tx tx (ledger.truncate l)"
  by (simp add: apply_tx_def truncate_create_outputs truncate_spends)

lemma truncate_apply_txs:
  "ledger.truncate (fold apply_tx txs l) = fold apply_tx txs (ledger.truncate l)"
  by (induction txs arbitrary: l) (simp_all add: truncate_apply_tx)

definition replay :: "block list \<Rightarrow> ledger" where
  "replay blks = fold apply_block blks empty_ledger"

lemma replay_snoc: "replay (blks @ [blk]) = fold apply_tx (transactions blk) (replay blks)"
  by (simp add: replay_def apply_block_def)

lemma rebuild_utxo_replay: "rebuild_utxo blks (l :: ledger) = replay blks"
  by (cases l) (simp add: rebuild_utxo_def replay_def empty_ledger_def)

definition history_inv :: "'db chain \<Rightarrow> bool" where
  "history_inv c \<longleftrightarrow> blocks c \<noteq> [] \<and> chain_height c = word_of_nat (length (blocks c)) \<and>
     ledger.truncate c = replay (blocks c) \<and>
     chain_difficulty c = 3 \<and> chain_target c = build_target 3"


section \<open>The databases\<close>

definition stored_blocks :: "block list \<Rightarrow> (string \<times> bytes) list" where
  "stored_blocks blks =
     map (\<lambda>i. (block_key (word_of_nat i), block_serialize_str (blks ! i))) [0..<length blks]"

definition pool_stored ::
    "sodium \<Rightarrow> (string \<Rightarrow> bytes option) \<Rightarrow> (hash \<Rightarrow> transaction option) \<Rightarrow> bool" where
  "pool_stored so m p \<longleftrightarrow>
     (\<forall>h. m (hex_key so h) = map_option tx_serialize_str (p h)) \<and>
     (\<forall>k. k \<notin> range (hex_key so) \<longrightarrow> m k = None)"

definition disk_inv ::
    "sodium \<Rightarrow> ('db \<Rightarrow> string \<Rightarrow> bytes option) \<Rightarrow> 'db chain \<Rightarrow> bool" where
  "disk_inv so contents c \<longleftrightarrow>
     length (blocks c) \<le> 2 ^ 32 \<and> list_all (block_ok so) (blocks c) \<and>
     (\<forall>h tx. pool c h = Some tx \<longrightarrow> framed_ok tx) \<and>
     contents (blocks_db c) = map_of (stored_blocks (blocks c)) \<and>
     pool_stored so (contents (pool_db c)) (pool c)"

lemma stored_blocks_snoc:
  "stored_blocks (blks @ [blk]) =
     stored_blocks blks @ [(block_key (word_of_nat (length blks)), block_serialize_str blk)]"
  by (simp add: stored_blocks_def nth_append)

lemma u32_of_nat_eq: "i < 2 ^ 32 \<Longrightarrow> j < 2 ^ 32 \<Longrightarrow> (word_of_nat i :: u32) = word_of_nat j \<longleftrightarrow> i = j"
  by (metis unat_u32_of_nat)

lemma stored_blocks_sorted:
  assumes "length blks \<le> 2 ^ 32"
  shows "sorted_wrt (<) (map fst (stored_blocks blks))"
proof -
  have "(word_of_nat i :: u32) < word_of_nat j" if "i < j" "j < length blks" for i j
    using that assms by (simp add: word_less_nat_alt unat_u32_of_nat)
  then have "sorted_wrt (\<lambda>i j. block_key (word_of_nat i) < block_key (word_of_nat j)) [0..<length blks]"
    by (simp add: sorted_wrt_iff_nth_less block_key_order)
  then show ?thesis by (simp add: stored_blocks_def sorted_wrt_map o_def)
qed

lemma map_of_stored_blocks_snoc:
  assumes "length blks < 2 ^ 32"
  shows "map_of (stored_blocks (blks @ [blk])) =
    (map_of (stored_blocks blks))(block_key (word_of_nat (length blks)) \<mapsto> block_serialize_str blk)"
proof -
  have "block_key (word_of_nat (length blks)) \<notin> fst ` set (stored_blocks blks)"
    using assms by (auto simp: stored_blocks_def block_key_order u32_of_nat_eq)
  then show ?thesis
    by (simp add: stored_blocks_snoc map_add_upd_left dom_map_of_conv_image_fst)
qed



section \<open>Steps keep the history and the databases\<close>

lemma history_inv_cong:
  "blocks c' = blocks c \<Longrightarrow> chain_height c' = chain_height c \<Longrightarrow>
   ledger.truncate c' = ledger.truncate c \<Longrightarrow> chain_difficulty c' = chain_difficulty c \<Longrightarrow>
   chain_target c' = chain_target c \<Longrightarrow> history_inv c \<Longrightarrow> history_inv c'"
  by (simp add: history_inv_def)

lemma history_inv_add_tx: "history_inv c \<Longrightarrow> add_tx so L st c = (r, c') \<Longrightarrow> history_inv c'"
  by (drule add_tx_state)
    (auto simp: accept_tx_def ledger.truncate_def elim!: history_inv_cong[rotated -1])

text \<open>What a confirmed transaction, and a list of them, does to the other fields.\<close>

lemma clear_tx_simps [simp]:
  "ledger.truncate (clear_tx tx db c) = ledger.truncate (apply_tx tx c)"
  "blocks (clear_tx tx db c) = blocks c" "chain_height (clear_tx tx db c) = chain_height c"
  "chain_difficulty (clear_tx tx db c) = chain_difficulty c"
  "chain_target (clear_tx tx db c) = chain_target c"
  "blocks_db (clear_tx tx db c) = blocks_db c"
  by (simp_all add: clear_tx_def ledger.truncate_def frame_simps)

lemma confirm_tx_frame:
  assumes "confirm_tx so L tx c = (r, c')"
  shows "ledger.truncate c' = apply_tx tx (ledger.truncate c) \<and> blocks c' = blocks c \<and>
    chain_height c' = chain_height c \<and> chain_difficulty c' = chain_difficulty c \<and>
    chain_target c' = chain_target c \<and> blocks_db c' = blocks_db c"
  using confirm_tx_state[OF assms] by (auto simp: truncate_apply_tx frame_simps)

lemma confirm_txs_frame:
  "confirm_txs so L txs c = (Inr u, c') \<Longrightarrow>
   ledger.truncate c' = fold apply_tx txs (ledger.truncate c) \<and> blocks c' = blocks c \<and>
    chain_height c' = chain_height c \<and> chain_difficulty c' = chain_difficulty c \<and>
    chain_target c' = chain_target c \<and> blocks_db c' = blocks_db c"
proof (induction txs arbitrary: c)
  case Nil
  then show ?case by simp
next
  case (Cons tx txs)
  then obtain u1 c1 where c1: "confirm_tx so L tx c = (Inr u1, c1)"
    and c': "confirm_txs so L txs c1 = (Inr u, c')"
    by (auto simp: sbind_Inr_iff)
  from Cons.IH[OF c'] confirm_tx_frame[OF c1] show ?case by simp
qed

lemma add_block_Inr:
  assumes "add_block so L blk c = (Inr u, c')"
  obtains c1 db where "confirm_txs so L (transactions blk) c = (Inr (), c1)"
    and "db_put L (block_key (word_of_nat (length (blocks c)))) (block_serialize_str blk) (blocks_db c)
           = (None, db)"
    and "c' = c1\<lparr>blocks_db := db, blocks := blocks c @ [blk], chain_height := chain_height c + 1\<rparr>"
proof -
  from assms obtain u1 c1 u2 c2 where c1: "confirm_txs so L (transactions blk) c = (Inr u1, c1)"
    and c2: "store_block L blk c1 = (Inr u2, c2)"
    and c': "c' = c2\<lparr>blocks := blocks c2 @ [blk], chain_height := chain_height c2 + 1\<rparr>"
    by (auto simp: add_block_def sbind_Inr_iff)
  note f = confirm_txs_frame[OF c1]
  from c2 obtain db where "db_put L (block_key (word_of_nat (length (blocks c1)))) (block_serialize_str blk)
      (blocks_db c1) = (None, db)" and "c2 = c1\<lparr>blocks_db := db\<rparr>"
    by (auto simp: store_block_def Let_def split: prod.splits option.splits)
  with f c' c1 show thesis by (intro that[of c1 db]) simp_all
qed

lemma history_inv_add_block:
  assumes "history_inv c" "add_block so L blk c = (Inr u, c')"
  shows "history_inv c'"
proof -
  obtain c1 db where c1: "confirm_txs so L (transactions blk) c = (Inr (), c1)"
    and c': "c' = c1\<lparr>blocks_db := db, blocks := blocks c @ [blk], chain_height := chain_height c + 1\<rparr>"
    using assms(2) by (rule add_block_Inr)
  have "ledger.truncate c' = ledger.truncate c1"
    by (simp add: c' ledger.truncate_def)
  with confirm_txs_frame[OF c1] assms(1) show ?thesis
    by (simp add: history_inv_def c' replay_snoc)
qed

lemma pool_stored_put:
  assumes so: "sodium_ok so" and s: "pool_stored so m p" and id: "h = txid tx"
  shows "pool_stored so (m(hex_key so h \<mapsto> tx_serialize_str tx)) (p(h \<mapsto> tx))"
  using s by (auto simp: pool_stored_def hex_key_inj[OF so])

lemma pool_stored_delete:
  assumes so: "sodium_ok so" and s: "pool_stored so m p"
  shows "pool_stored so (m(hex_key so h := None)) (p(h := None))"
  using s by (auto simp: pool_stored_def hex_key_inj[OF so])

lemma disk_inv_add_tx:
  assumes L: "leveldb_ok L contents" and so: "sodium_ok so" and inv: "disk_inv so contents c"
    and tx: "framed_ok (st_tx st)" and r: "add_tx so L st c = (Inr e, c')"
  shows "disk_inv so contents c'"
proof (cases "tx_acceptable so st c")
  case True
  with r obtain db where db: "db_put L (hex_key so (txid (st_tx st))) (tx_serialize_str (st_tx st))
      (pool_db c) = (None, db)" and c': "c' = accept_tx (st_tx st) db c"
    by (auto simp: add_tx_cases Let_def split: prod.splits option.splits)
  from leveldb_okD(1)[OF L db] inv tx pool_stored_put[OF so] show ?thesis
    by (auto simp: disk_inv_def c' accept_tx_def)
next
  case False
  with r inv show ?thesis by (simp add: add_tx_cases)
qed

lemma pool_disk_confirm_tx:
  assumes L: "leveldb_ok L contents" and so: "sodium_ok so"
    and s: "pool_stored so (contents (pool_db c)) (pool c)"
    and r: "confirm_tx so L tx c = (Inr u, c')"
  shows "pool_stored so (contents (pool_db c')) (pool c')"
proof (cases "inputs tx = []")
  case True
  with r s show ?thesis by (auto simp: confirm_tx_cases frame_simps)
next
  case False
  with r obtain db where db: "db_delete L (hex_key so (txid tx)) (pool_db c) = (None, db)"
    and c': "c' = clear_tx tx db c"
    by (auto simp: confirm_tx_cases Let_def split: prod.splits option.splits)
  from leveldb_okD(2)[OF L db] pool_stored_delete[OF so s] show ?thesis
    by (simp add: c' clear_tx_def)
qed

lemma confirm_tx_pool_sub:
  "confirm_tx so L tx c = (r, c') \<Longrightarrow> pool c' h = Some t \<Longrightarrow> pool c h = Some t"
  by (drule confirm_tx_state) (auto simp: clear_tx_def frame_simps split: if_splits)

lemma pool_disk_confirm_txs:
  assumes L: "leveldb_ok L contents" and so: "sodium_ok so"
  shows "pool_stored so (contents (pool_db c)) (pool c) \<Longrightarrow> confirm_txs so L txs c = (Inr u, c') \<Longrightarrow>
    pool_stored so (contents (pool_db c')) (pool c') \<and>
    (\<forall>h t. pool c' h = Some t \<longrightarrow> pool c h = Some t)"
proof (induction txs arbitrary: c)
  case Nil
  then show ?case by simp
next
  case (Cons tx txs)
  then obtain u1 c1 where c1: "confirm_tx so L tx c = (Inr u1, c1)"
    and c': "confirm_txs so L txs c1 = (Inr u, c')"
    by (auto simp: sbind_Inr_iff)
  from Cons.IH[OF pool_disk_confirm_tx[OF L so Cons.prems(1) c1] c'] confirm_tx_pool_sub[OF c1]
  show ?case by blast
qed

lemma disk_inv_add_block:
  assumes L: "leveldb_ok L contents" and so: "sodium_ok so" and inv: "disk_inv so contents c"
    and room: "length (blocks c) < 2 ^ 32" and blk: "block_ok so blk"
    and r: "add_block so L blk c = (Inr u, c')"
  shows "disk_inv so contents c'"
proof -
  obtain c1 db where c1: "confirm_txs so L (transactions blk) c = (Inr (), c1)"
    and db: "db_put L (block_key (word_of_nat (length (blocks c)))) (block_serialize_str blk) (blocks_db c)
           = (None, db)"
    and c': "c' = c1\<lparr>blocks_db := db, blocks := blocks c @ [blk], chain_height := chain_height c + 1\<rparr>"
    using r by (rule add_block_Inr)
  have "pool_stored so (contents (pool_db c1)) (pool c1)" "\<forall>h t. pool c1 h = Some t \<longrightarrow> framed_ok t"
    using pool_disk_confirm_txs[OF L so _ c1] inv unfolding disk_inv_def by blast+
  with leveldb_okD(1)[OF L db] inv room blk show ?thesis
    by (simp add: disk_inv_def c' map_of_stored_blocks_snoc)
qed



section \<open>Restart\<close>

lemma load_block_entry_ok:
  "block_ok so blk \<Longrightarrow>
   load_block_entry so (k, block_serialize_str blk) c =
     Inr (let c' = fold apply_tx (transactions blk) c in c'\<lparr>blocks := blocks c' @ [blk]\<rparr>)"
  using block_deserialize_put[of so blk "mk_reader (block_serialize_str blk)" "[]"]
  by (simp add: load_block_entry_def Let_def)

text \<open>Loading a list of well-formed blocks replays them onto the ledger and appends them.\<close>

definition load_all :: "block list \<Rightarrow> 'db chain \<Rightarrow> 'db chain" where
  "load_all blks c =
     fold (\<lambda>blk c. let c' = fold apply_tx (transactions blk) c in c'\<lparr>blocks := blocks c' @ [blk]\<rparr>) blks c"

lemma load_block_entries_ok:
  "list_all (block_ok so) blks \<Longrightarrow> map snd es = map block_serialize_str blks \<Longrightarrow>
   load_block_entries so es c = Inr (load_all blks c)"
proof (induction blks arbitrary: es c)
  case Nil
  then show ?case by (simp add: load_all_def)
next
  case (Cons blk blks)
  then obtain k es' where "es = (k, block_serialize_str blk) # es'"
    and "map snd es' = map block_serialize_str blks"
    by (cases es) auto
  with Cons show ?case by (simp add: load_block_entry_ok load_all_def)
qed

lemma load_all_simps:
  "ledger.truncate (load_all blks c) = fold apply_block blks (ledger.truncate c)"
  "blocks (load_all blks c) = blocks c @ blks"
  "pool (load_all blks c) = pool c" "pool_spent (load_all blks c) = pool_spent c"
  "chain_height (load_all blks c) = chain_height c"
  "chain_difficulty (load_all blks c) = chain_difficulty c"
  "chain_target (load_all blks c) = chain_target c"
  "blocks_db (load_all blks c) = blocks_db c" "pool_db (load_all blks c) = pool_db c"
proof (induction blks arbitrary: c)
  case (Cons blk blks)
  {
    case 1
    then show ?case
      using Cons(1)[of "let c' = fold apply_tx (transactions blk) c in c'\<lparr>blocks := blocks c' @ [blk]\<rparr>"]
      by (simp add: load_all_def Let_def apply_block_def truncate_apply_txs[symmetric])
        (simp add: ledger.truncate_def)
  }
qed (simp_all add: load_all_def Let_def frame_simps)

definition pool_all :: "transaction list \<Rightarrow> 'db chain \<Rightarrow> 'db chain" where
  "pool_all txs c =
     fold (\<lambda>tx c. c\<lparr>pool_spent := mark_spent (inputs tx) (pool_spent c),
                     pool := (pool c)(txid tx \<mapsto> tx)\<rparr>) txs c"

lemma load_pool_entries_ok:
  "list_all tx_ok txs \<Longrightarrow> map snd es = map tx_serialize_str txs \<Longrightarrow>
   load_pool_entries es c = Inr (pool_all txs c)"
proof (induction txs arbitrary: es c)
  case Nil
  then show ?case by (simp add: pool_all_def)
next
  case (Cons tx txs)
  then obtain k es' where "es = (k, tx_serialize_str tx) # es'"
    and "map snd es' = map tx_serialize_str txs"
    by (cases es) auto
  with Cons show ?case
    using tx_of_bytes_serialize[of tx "[]"] by (simp add: load_pool_entry_def pool_all_def)
qed

lemma pool_all_frame:
  "ledger.truncate (pool_all txs c) = ledger.truncate c" "blocks (pool_all txs c) = blocks c"
  "chain_height (pool_all txs c) = chain_height c"
  "chain_difficulty (pool_all txs c) = chain_difficulty c"
  "chain_target (pool_all txs c) = chain_target c"
  "blocks_db (pool_all txs c) = blocks_db c" "pool_db (pool_all txs c) = pool_db c"
  by (induction txs arbitrary: c) (simp_all add: pool_all_def ledger.truncate_def)

lemma pool_all_pool:
  "distinct (map txid txs) \<Longrightarrow>
   pool (pool_all txs c) h = (case find (\<lambda>tx. txid tx = h) txs of Some tx \<Rightarrow> Some tx | None \<Rightarrow> pool c h)"
proof (induction txs arbitrary: c)
  case Nil
  then show ?case by (simp add: pool_all_def)
next
  case (Cons tx txs)
  let ?c = "c\<lparr>pool_spent := mark_spent (inputs tx) (pool_spent c), pool := (pool c)(txid tx \<mapsto> tx)\<rparr>"
  have "pool (pool_all (tx # txs) c) h = pool (pool_all txs ?c) h"
    by (simp add: pool_all_def)
  also have "\<dots> = (case find (\<lambda>tx. txid tx = h) txs of Some tx \<Rightarrow> Some tx | None \<Rightarrow> pool ?c h)"
    using Cons.prems by (intro Cons.IH) simp
  also have "find (\<lambda>tx. txid tx = h) txs = None" if "txid tx = h"
    using Cons.prems that by (auto simp: find_None_iff) (metis image_eqI)
  then have "(case find (\<lambda>tx. txid tx = h) txs of Some tx \<Rightarrow> Some tx | None \<Rightarrow> pool ?c h) =
      (case find (\<lambda>tx. txid tx = h) (tx # txs) of Some tx \<Rightarrow> Some tx | None \<Rightarrow> pool c h)"
    by (auto split: option.splits)
  finally show ?case .
qed

lemma pool_all_spent:
  "pool_spent (pool_all txs c) op =
     (if \<exists>tx \<in> set txs. op \<in> set (inputs tx) then Some op else pool_spent c op)"
proof (induction txs arbitrary: c)
  case Nil
  then show ?case by (simp add: pool_all_def)
next
  case (Cons tx txs)
  let ?c = "c\<lparr>pool_spent := mark_spent (inputs tx) (pool_spent c), pool := (pool c)(txid tx \<mapsto> tx)\<rparr>"
  have "pool_spent (pool_all (tx # txs) c) op = pool_spent (pool_all txs ?c) op"
    by (simp add: pool_all_def)
  with Cons[of ?c] show ?case by (auto simp: mark_spent_apply)
qed

text \<open>The entries of the pool database, decoded.\<close>

lemma pool_entries_decode:
  assumes so: "sodium_ok so" and inv: "pool_inv c" and s: "pool_stored so (map_of es) (pool c)"
    and d: "distinct (map fst es)"
  obtains txs where "map snd es = map tx_serialize_str txs" and "distinct (map txid txs)"
    and "\<And>tx. tx \<in> set txs \<longleftrightarrow> pool c (txid tx) = Some tx"
proof -
  let ?inv = "\<lambda>k. inv (hex_key so) k"
  have inj: "inj (hex_key so)" by (rule injI) (simp add: hex_key_inj[OF so])
  have entry: "\<exists>h tx. k = hex_key so h \<and> pool c h = Some tx \<and> v = tx_serialize_str tx"
    if "(k, v) \<in> set es" for k v
  proof -
    from that d have m: "map_of es k = Some v" by (simp add: map_of_eq_Some_iff)
    then have "k \<in> range (hex_key so)" using s unfolding pool_stored_def by force
    then obtain h where h: "k = hex_key so h" by blast
    with m s have "map_option tx_serialize_str (pool c h) = Some v" by (simp add: pool_stored_def)
    with h show ?thesis by auto
  qed
  define txs where "txs = map (\<lambda>(k, v). the (pool c (?inv k))) es"
  have dec: "pool c (?inv k) = Some (the (pool c (?inv k))) \<and> v = tx_serialize_str (the (pool c (?inv k)))
      \<and> txid (the (pool c (?inv k))) = ?inv k \<and> k = hex_key so (?inv k)"
    if "(k, v) \<in> set es" for k v
  proof -
    from entry[OF that] obtain h tx where e: "k = hex_key so h" "pool c h = Some tx"
      "v = tx_serialize_str tx" by blast
    then show ?thesis using pool_invD(1)[OF inv e(2)] inv_f_f[OF inj, of h] by simp
  qed
  have ids: "map txid txs = map (\<lambda>e. ?inv (fst e)) es"
    using dec by (auto simp: txs_def)
  have "map (hex_key so) (map txid txs) = map fst es"
    unfolding ids using dec by (auto simp: o_def)
  then have "distinct (map txid txs)" using d by (metis distinct_map)
  moreover have "map snd es = map tx_serialize_str txs"
    using dec by (auto simp: txs_def)
  moreover have "tx \<in> set txs \<longleftrightarrow> pool c (txid tx) = Some tx" for tx
  proof
    assume "tx \<in> set txs"
    then show "pool c (txid tx) = Some tx" using dec by (fastforce simp: txs_def)
  next
    assume tx: "pool c (txid tx) = Some tx"
    with s have "map_of es (hex_key so (txid tx)) = Some (tx_serialize_str tx)"
      by (simp add: pool_stored_def)
    then have "(hex_key so (txid tx), tx_serialize_str tx) \<in> set es" by (rule map_of_SomeD)
    with tx show "tx \<in> set txs"
      unfolding txs_def using inv_f_f[OF inj, of "txid tx"] by force
  qed
  ultimately show thesis using that by blast
qed


lemma stored_blocks_values: "map snd (stored_blocks blks) = map block_serialize_str blks"
  by (rule nth_equalityI) (simp_all add: stored_blocks_def)

lemma truncate_updates:
  "ledger.truncate (c\<lparr>chain_target := t\<rparr>) = ledger.truncate c"
  "ledger.truncate (c\<lparr>chain_height := n\<rparr>) = ledger.truncate c"
  by (simp_all add: ledger.truncate_def)

lemma chain_eqI:
  assumes "ledger.truncate c = ledger.truncate d" "pool c = pool d" "pool_spent c = pool_spent d"
    "blocks c = blocks d" "chain_height c = chain_height d" "chain_difficulty c = chain_difficulty d"
    "chain_target c = chain_target d" "blocks_db c = blocks_db d" "pool_db c = pool_db d"
  shows "c = (d :: 'db chain)"
  using assms by (intro chain.equality) (simp_all add: ledger.truncate_def)

text \<open>
  Constructing a \<^verbatim>\<open>Chain\<close> from the databases of a running one gives the same state: ledger, address
  index, pool, spent marks, blocks, height and target.
\<close>

lemma Chain_init_restart:
  assumes L: "leveldb_ok L contents" and so: "sodium_ok so"
    and inv: "history_inv c" "pool_inv c" "disk_inv so contents c"
    and scans: "db_scan L (blocks_db c) = (bes, None)" "db_scan L (pool_db c) = (pes, None)"
    and opened: "opened ''blocks'' = Inr (blocks_db c)" "opened ''pool'' = Inr (pool_db c)"
    and addr: "GENESIS_ADDR so = Inr addr"
  shows "Chain_init so L opened = Inr c"
proof -
  let ?b0 = "blank_chain (blocks_db c) (pool_db c)"
  have bes: "bes = stored_blocks (blocks c)"
  proof (rule sorted_entries_unique)
    show "sorted_wrt (<) (map fst (stored_blocks (blocks c)))"
      using inv(3) by (intro stored_blocks_sorted) (simp add: disk_inv_def)
  qed (use leveldb_okD(3,4)[OF L scans(1)] inv(3) in \<open>simp_all add: disk_inv_def\<close>)
  have load: "load_block_entries so bes ?b0 = Inr (load_all (blocks c) ?b0)"
    unfolding bes using inv(3)
    by (intro load_block_entries_ok stored_blocks_values) (simp add: disk_inv_def)
  let ?c1 = "(load_all (blocks c) ?b0)\<lparr>chain_height := word_of_nat (length (blocks c))\<rparr>"
  have c1: "load_blocks so L ?b0 = Inr ?c1"
    using load scans(1) by (simp add: load_blocks_def blank_chain_def load_all_simps)
  have "sorted_wrt (<) (map fst pes)" using leveldb_okD(3)[OF L scans(2)] .
  then have "distinct (map fst pes)" using strict_sorted_iff by blast
  then obtain txs where txs: "map snd pes = map tx_serialize_str txs" "distinct (map txid txs)"
    "\<And>tx. tx \<in> set txs \<longleftrightarrow> pool c (txid tx) = Some tx"
    using pool_entries_decode[OF so inv(2), of pes] inv(3) leveldb_okD(4)[OF L scans(2)]
    by (auto simp: disk_inv_def)
  have ok: "list_all tx_ok txs"
    using inv(3) txs(3) by (auto simp: list_all_iff disk_inv_def framed_ok_def)
  have c2: "load_pool L ?c1 = Inr (pool_all txs ?c1)"
    using load_pool_entries_ok[OF ok txs(1)] scans(2) by (simp add: load_pool_def load_all_simps blank_chain_def)
  have "pool (pool_all txs ?c1) h = pool c h" for h
  proof (cases "find (\<lambda>tx. txid tx = h) txs")
    case None
    then have "pool c h = None"
      using txs(3) pool_invD(1)[OF inv(2), of h] by (cases "pool c h") (auto simp: find_None_iff)
    with None show ?thesis by (simp add: pool_all_pool txs(2) load_all_simps blank_chain_def)
  next
    case (Some tx)
    then have "tx \<in> set txs" "txid tx = h" by (auto simp: find_Some_iff)
    with Some txs(3) show ?thesis by (simp add: pool_all_pool txs(2))
  qed
  then have pool: "pool (pool_all txs ?c1) = pool c" by blast
  have "pool_spent (pool_all txs ?c1) op = pool_spent c op" for op
  proof -
    have "(\<exists>tx \<in> set txs. op \<in> set (inputs tx)) \<longleftrightarrow> pool_spent c op \<noteq> None"
      using txs(3) pool_invD(1,4,5)[OF inv(2)] by metis
    then show ?thesis
      using pool_invD(7)[OF inv(2), of op]
      by (auto simp: pool_all_spent load_all_simps blank_chain_def)
  qed
  then have spent: "pool_spent (pool_all txs ?c1) = pool_spent c" by blast
  have blocks: "blocks (pool_all txs ?c1) = blocks c"
    by (simp add: pool_all_frame load_all_simps blank_chain_def)
  have "(pool_all txs ?c1)\<lparr>chain_target := build_target (chain_difficulty (pool_all txs ?c1))\<rparr> = c"
  proof (rule chain_eqI)
    show "ledger.truncate ((pool_all txs ?c1)\<lparr>chain_target :=
        build_target (chain_difficulty (pool_all txs ?c1))\<rparr>) = ledger.truncate c"
    proof -
      have "ledger.truncate ?b0 = empty_ledger"
        by (simp add: blank_chain_def empty_ledger_def ledger.truncate_def)
      then show ?thesis
        using inv(1)
        by (simp add: truncate_updates pool_all_frame load_all_simps history_inv_def replay_def)
    qed
  qed (use inv(1) pool spent in
      \<open>simp_all add: history_inv_def pool_all_frame load_all_simps blank_chain_def\<close>)
  with c1 c2 blocks inv(1) addr opened show ?thesis
    by (simp add: Chain_init_def open_db_def history_inv_def)
qed


section \<open>First start\<close>

lemma genesis_block_ok:
  assumes so: "sodium_ok so" and addr: "length addr = 20"
  shows "block_ok so (genesis_block so addr)"
  unfolding genesis_block_def Let_def
  using so addr
  by (intro mk_block_ok) (auto simp: framed_ok_def tx_ok_def txoutput_ok_def zero_hash_def length_tx_serialize)

lemma genesis_apply:
  "fold apply_tx (transactions (genesis_block so addr)) l =
     apply_tx (mk_transaction so [] [\<lparr>recipient = addr, amount = 15 * UNITS\<rparr>] 1781545365) l"
  by (simp add: genesis_block_def Let_def)

text \<open>With two empty databases the constructor creates and stores the genesis block.\<close>

lemma Chain_init_empty:
  assumes opened: "opened ''blocks'' = Inr bdb" "opened ''pool'' = Inr pdb"
    and scans: "db_scan L bdb = ([], None)" "db_scan L pdb = ([], s)"
    and addr: "GENESIS_ADDR so = Inr addr"
    and put: "db_put L (block_key 0) (block_serialize_str (genesis_block so addr)) bdb = (None, bdb')"
  shows "Chain_init so L opened = Inr
    ((fold apply_tx (transactions (genesis_block so addr)) (blank_chain bdb' pdb))
      \<lparr>blocks := [genesis_block so addr], chain_height := 1, chain_target := build_target 3\<rparr>)"
proof -
  let ?g = "genesis_block so addr"
  have 1: "load_blocks so L (blank_chain bdb pdb) = Inr (blank_chain bdb pdb)"
    using scans(1) by (simp add: load_blocks_def blank_chain_def)
  have 2: "load_pool L (blank_chain bdb pdb) = Inr (blank_chain bdb pdb)"
    using scans(2) by (simp add: load_pool_def blank_chain_def)
  have 3: "create_genesis so L addr (blank_chain bdb pdb) =
      (Inr (), (fold apply_tx (transactions ?g) (blank_chain bdb' pdb))\<lparr>blocks := [?g], chain_height := 1\<rparr>)"
    using put
    by (simp add: create_genesis_def sbind_def store_block_def blank_chain_def Let_def frame_simps)
  show ?thesis
    using opened addr 1 2 3
    by (simp add: Chain_init_def open_db_def blank_chain_def[of bdb pdb])
      (simp add: blank_chain_def frame_simps)
qed

lemma invariants_first_start:
  assumes L: "leveldb_ok L contents" and so: "sodium_ok so"
    and opened: "opened ''blocks'' = Inr bdb" "opened ''pool'' = Inr pdb"
    and scans: "db_scan L bdb = ([], None)" "db_scan L pdb = ([], None)"
    and addr: "GENESIS_ADDR so = Inr addr"
    and put: "db_put L (block_key 0) (block_serialize_str (genesis_block so addr)) bdb = (None, bdb')"
    and c: "Chain_init so L opened = Inr c"
  shows "history_inv c" "pool_inv c" "disk_inv so contents c" "ledger_inv c"
    "finite (dom (utxo c))" "blocks c = [genesis_block so addr]"
proof -
  let ?g = "genesis_block so addr"
  let ?l = "fold apply_tx (transactions ?g) (blank_chain bdb' pdb)"
  have c': "c = ?l\<lparr>blocks := [?g], chain_height := 1, chain_target := build_target 3\<rparr>"
    using Chain_init_empty[OF opened scans addr put] c by simp
  have trunc: "ledger.truncate c = ledger.truncate ?l"
    by (simp add: c' ledger.truncate_def)
  have blank: "ledger.truncate (blank_chain bdb' pdb) = empty_ledger"
    by (simp add: blank_chain_def empty_ledger_def ledger.truncate_def)
  show "history_inv c"
    unfolding history_inv_def trunc truncate_apply_txs blank
    by (simp add: c' replay_def apply_block_def frame_simps blank_chain_def)
  show "pool_inv c"
    by (simp add: c' pool_inv_def pool_entries_ok_def pool_spent_exact_def pool_spent_self_def
        pool_disjoint_def frame_simps blank_chain_def)
  have "length addr = 20" using from_hex_length[OF so] addr by (auto simp: GENESIS_ADDR_def)
  then have g: "block_ok so ?g" by (rule genesis_block_ok[OF so])
  have "contents bdb' = [block_key 0 \<mapsto> block_serialize_str ?g]" "contents pdb = Map.empty"
    using leveldb_okD(1)[OF L put] leveldb_okD(4)[OF L scans(1)] leveldb_okD(4)[OF L scans(2)] by simp_all
  with g show "disk_inv so contents c"
    by (simp add: disk_inv_def c' frame_simps blank_chain_def stored_blocks_def pool_stored_def)
  show "blocks c = [?g]" by (simp add: c')
  have l0: "ledger_inv (blank_chain bdb' pdb)" "utxo (blank_chain bdb' pdb) = Map.empty"
    by (simp_all add: blank_chain_def ledger_inv_empty)
  have "ledger_inv ?l"
    unfolding genesis_apply using l0 by (intro ledger_inv_apply_tx) (simp_all add: fresh_tx_def)
  then show "ledger_inv c"
    by (simp add: c' ledger_inv_def index_complete_def index_sound_def index_pruned_def
        index_distinct_def index_of_def)
  have "finite (dom (utxo ?l))"
    unfolding genesis_apply using l0 by (intro finite_utxo_apply_tx) simp
  then show "finite (dom (utxo c))" by (simp add: c')
qed

end
