(* ===== verification/Net.thy ===== *)
theory Net
  imports Recovery
begin

text \<open>
  \<^verbatim>\<open>include/axis/net.h\<close> and \<^verbatim>\<open>src/net.cpp\<close>: the binary TCP protocol. A handler maps a payload and the chain
  to the reply it sends, the events it fires and the new chain. The server runs on one thread and a
  handler does not suspend before its reply is ready, so handlers do not interleave with each other
  (theory \<^verbatim>\<open>Server_Loop\<close> has the sessions as they interleave);
  Asio itself, the sockets and the allocation done by \<^verbatim>\<open>reserve\<close> are not modelled. What the handlers
  print is in theory Console.
\<close>

section \<open>Message types and error codes\<close>

datatype msg_type =
    GetUTXOs | GetBlock | GetTip | GetTransaction | GetUTXO | GetDifficulty | GetPool
  | CreateTransaction | CreateBlock | DifficultyResponse | TransactionResponse
  | CreateBlockResponse | UTXOsResponse | TipResponse | PoolResponse

fun msg_code :: "msg_type \<Rightarrow> u16" where
  "msg_code GetUTXOs = 0"
| "msg_code GetBlock = 1"
| "msg_code GetTip = 2"
| "msg_code GetTransaction = 3"
| "msg_code GetUTXO = 4"
| "msg_code GetDifficulty = 5"
| "msg_code GetPool = 6"
| "msg_code CreateTransaction = 7"
| "msg_code CreateBlock = 8"
| "msg_code DifficultyResponse = 9"
| "msg_code TransactionResponse = 10"
| "msg_code CreateBlockResponse = 11"
| "msg_code UTXOsResponse = 12"
| "msg_code TipResponse = 13"
| "msg_code PoolResponse = 14"

lemma msg_code_inj: "msg_code a = msg_code b \<longleftrightarrow> a = b"
  by (cases a; cases b) simp_all

text \<open>The order of the enumeration, as C++ compares its values.\<close>

instantiation msg_type :: linorder
begin

definition "a \<le> b \<longleftrightarrow> msg_code a \<le> msg_code b" for a b :: msg_type
definition "a < b \<longleftrightarrow> msg_code a < msg_code b" for a b :: msg_type

instance
  by standard (auto simp: less_eq_msg_type_def less_msg_type_def msg_code_inj order.strict_iff_order)

end

datatype block_error =
    BlockError_None
  | BlockError_InvalidHeight
  | BlockError_BadPreviousHash
  | BlockError_InvalidBlockHash
  | BlockError_HighHash
  | BlockError_TimeTooFar
  | BlockError_TimeTooOld
  | BlockError_BadSignature
  | BlockError_MissingInputs
  | BlockError_Duplicate
  | BlockError_InvalidPayload
  | BlockError_Internal

fun tx_error_code :: "tx_error \<Rightarrow> u8" where
  "tx_error_code TxError_None = 0"
| "tx_error_code TxError_InvalidPayload = 1"
| "tx_error_code TxError_BadPubkey = 2"
| "tx_error_code TxError_ZeroAmount = 3"
| "tx_error_code TxError_BadOwnership = 4"
| "tx_error_code TxError_BadSignature = 5"
| "tx_error_code TxError_Duplicate = 6"
| "tx_error_code TxError_InputSpent = 7"
| "tx_error_code TxError_Internal = 8"

fun block_error_code :: "block_error \<Rightarrow> u8" where
  "block_error_code BlockError_None = 0"
| "block_error_code BlockError_InvalidHeight = 1"
| "block_error_code BlockError_BadPreviousHash = 2"
| "block_error_code BlockError_InvalidBlockHash = 3"
| "block_error_code BlockError_HighHash = 4"
| "block_error_code BlockError_TimeTooFar = 5"
| "block_error_code BlockError_TimeTooOld = 6"
| "block_error_code BlockError_BadSignature = 7"
| "block_error_code BlockError_MissingInputs = 8"
| "block_error_code BlockError_Duplicate = 9"
| "block_error_code BlockError_InvalidPayload = 10"
| "block_error_code BlockError_Internal = 11"

fun tx_error_str :: "tx_error \<Rightarrow> string" where
  "tx_error_str TxError_None = ''accepted''"
| "tx_error_str TxError_InvalidPayload = ''invalid payload''"
| "tx_error_str TxError_BadPubkey = ''bad public key''"
| "tx_error_str TxError_ZeroAmount = ''zero amount''"
| "tx_error_str TxError_BadOwnership = ''ownership failed''"
| "tx_error_str TxError_BadSignature = ''bad signature''"
| "tx_error_str TxError_Duplicate = ''duplicate''"
| "tx_error_str TxError_InputSpent = ''input spent''"
| "tx_error_str TxError_Internal = ''internal error''"

text \<open>The callbacks of \<^verbatim>\<open>ServerEvents\<close>, as the events they are called with.\<close>

datatype event = On_tx_accepted transaction | On_block_accepted block


section \<open>Replies\<close>

definition string_bytes :: "string \<Rightarrow> bytes" where
  "string_bytes s = map of_char s"

definition serialize_tx_response :: "tx_error \<Rightarrow> string \<Rightarrow> bytes" where
  "serialize_tx_response err reason =
     put_str (string_bytes reason)
       (put_u16 (word_of_nat (length reason))
         (put_u8 (tx_error_code err)
           (put_u8 (if err = TxError_None then 1 else 0) [])))"

definition serialize_block_response :: "block_error \<Rightarrow> string \<Rightarrow> bytes" where
  "serialize_block_response err reason =
     put_str (string_bytes reason)
       (put_u16 (word_of_nat (length reason))
         (put_u8 (block_error_code err)
           (put_u8 (if err = BlockError_None then 1 else 0) [])))"

definition put_utxo :: "outpoint \<times> u64 \<Rightarrow> writer \<Rightarrow> writer" where
  "put_utxo p w = put_u64 (snd p) (put_u32 (op_index (fst p)) (put_hash (op_txid (fst p)) w))"

definition serialize_utxo_response :: "(outpoint \<times> u64) list \<Rightarrow> bytes" where
  "serialize_utxo_response outpoints = put_counted put_utxo outpoints []"

text \<open>
  \<^verbatim>\<open>Server::send\<close>: the size (cast to 32 bits) of type and payload, the type, the payload. The model is
  exact for payloads below 4 GiB, where the size does not wrap.
\<close>

definition send :: "msg_type \<Rightarrow> bytes \<Rightarrow> bytes" where
  "send ty payload =
     put_span payload (put_u16 (msg_code ty) (put_u32 (word_of_nat (2 + length payload)) []))"


section \<open>Parsing requests\<close>

record parsed_create_tx =
  pct_pubkey :: public_key
  pct_timestamp :: u64
  pct_inputs :: "outpoint list"
  pct_outputs :: "txoutput list"
  pct_sig :: signature

record parsed_create_block =
  pcb_prev_hash :: hash
  pcb_wire_merkle :: hash
  pcb_timestamp :: u64
  pcb_nonce :: u64
  pcb_coinbase :: transaction
  pcb_transactions :: "transaction list"

definition take_create_tx :: "parsed_create_tx parser" where
  "take_create_tx =
     pbind take_pk (\<lambda>pk.
     pbind take_u64 (\<lambda>ts.
     pbind (take_counted take_outpoint) (\<lambda>ins.
     pbind (take_counted take_txoutput) (\<lambda>outs.
     pbind take_sig (\<lambda>sig.
       preturn \<lparr>pct_pubkey = pk, pct_timestamp = ts, pct_inputs = ins, pct_outputs = outs,
                pct_sig = sig\<rparr>)))))"

text \<open>\<^verbatim>\<open>parse_create_tx_payload\<close>: the reader is dropped, so bytes after the signature are ignored.\<close>

definition parse_create_tx_payload :: "bytes \<Rightarrow> exn + parsed_create_tx" where
  "parse_create_tx_payload payload =
     ebind (take_create_tx (mk_reader payload)) (\<lambda>(p, _). Inr p)"

text \<open>
  The loop over the transaction references: \<open>Inl\<close> is the early return with \<^verbatim>\<open>std::unexpected\<close>. The
  result of the loop is the transactions it appends after the coinbase.
\<close>

primrec resolve_txs :: "'db chain \<Rightarrow> nat \<Rightarrow> (string + transaction list) parser" where
  "resolve_txs c 0 = preturn (Inr [])"
| "resolve_txs c (Suc n) =
     pbind take_hash (\<lambda>id.
       if \<not> pool_contains id c then preturn (Inl ''tx not in pool'')
       else case get_pool_tx id c of
              Inl e \<Rightarrow> pthrow e
            | Inr tx \<Rightarrow>
                pbind (resolve_txs c n) (\<lambda>res.
                  preturn (case res of Inl s \<Rightarrow> Inl s | Inr txs \<Rightarrow> Inr (tx # txs))))"

definition take_create_block ::
    "sodium \<Rightarrow> 'db chain \<Rightarrow> (string + parsed_create_block) parser" where
  "take_create_block so c =
     pbind take_hash (\<lambda>prev.
     pbind take_hash (\<lambda>wire_merkle.
     pbind take_u64 (\<lambda>ts.
     pbind take_u64 (\<lambda>n.
     pbind take_addr (\<lambda>cb_address.
     pbind take_u64 (\<lambda>cb_reward.
     pbind take_u64 (\<lambda>cb_timestamp.
     let coinbase = mk_transaction so [] [\<lparr>recipient = cb_address, amount = cb_reward\<rparr>] cb_timestamp in
     pbind take_u32 (\<lambda>tx_count.
     pbind (resolve_txs c (unat tx_count)) (\<lambda>res.
       preturn (case res of
           Inl s \<Rightarrow> Inl s
         | Inr txs \<Rightarrow> Inr \<lparr>pcb_prev_hash = prev, pcb_wire_merkle = wire_merkle,
               pcb_timestamp = ts, pcb_nonce = n, pcb_coinbase = coinbase,
               pcb_transactions = coinbase # txs\<rparr>))))))))))"

definition parse_create_block_payload ::
    "sodium \<Rightarrow> bytes \<Rightarrow> 'db chain \<Rightarrow> exn + (string + parsed_create_block)" where
  "parse_create_block_payload so payload c =
     ebind (take_create_block so c (mk_reader payload)) (\<lambda>(p, _). Inr p)"


section \<open>Handlers\<close>

text \<open>The reply frame and the events of a handler; \<open>None\<close> is no reply.\<close>

record reaction =
  reply :: "bytes option"
  events :: "event list"

definition replies :: "msg_type \<Rightarrow> bytes \<Rightarrow> reaction" where
  "replies ty payload = \<lparr>reply = Some (send ty payload), events = []\<rparr>"

definition on_get_difficulty :: "'db chain \<Rightarrow> reaction" where
  "on_get_difficulty c = replies DifficultyResponse [get_difficulty c]"

text \<open>
  \<^verbatim>\<open>on_get_pool\<close> takes two snapshots of the pool: the first gives the count, the second the
  identifiers. Between them the thread of the HTTP server may add transactions.
\<close>

definition on_get_pool ::
    "(hash, transaction) map_iter \<Rightarrow> 'db chain \<Rightarrow> 'db chain \<Rightarrow> reaction" where
  "on_get_pool iter c1 c2 =
     replies PoolResponse
       (put_many (\<lambda>tx. put_hash (txid tx)) (get_pool_txs iter c2)
         (put_u32 (word_of_nat (length (get_pool_txs iter c1))) []))"

definition on_get_tip :: "'db chain \<Rightarrow> reaction" where
  "on_get_tip c = replies TipResponse (put_hash (block_hash (tip c)) [])"

definition on_get_utxos :: "bytes \<Rightarrow> 'db chain \<Rightarrow> exn + reaction" where
  "on_get_utxos payload c =
     (let addr = (if length payload \<ge> 20 then take 20 payload else replicate 20 0)
      in ebind (get_utxos addr [] c) (\<lambda>outpoints.
           Inr (replies UTXOsResponse (serialize_utxo_response outpoints))))"

definition on_create_tx ::
    "sodium \<Rightarrow> 'db leveldb \<Rightarrow> bytes \<Rightarrow> 'db chain \<Rightarrow> reaction \<times> 'db chain" where
  "on_create_tx so L payload c =
     (let respond = (\<lambda>err reason evs.
            (replies TransactionResponse (serialize_tx_response err reason))\<lparr>events := evs\<rparr>)
      in case parse_create_tx_payload payload of
           Inl e \<Rightarrow> (respond TxError_InvalidPayload (what e) [], c)
         | Inr p \<Rightarrow>
             let tx = mk_transaction so (pct_inputs p) (pct_outputs p) (pct_timestamp p);
                 st = \<lparr>st_tx = tx, st_pubkey = pct_pubkey p, st_sig = pct_sig p\<rparr>
             in case add_tx so L st c of
                  (Inl e, c') \<Rightarrow> (respond TxError_InvalidPayload (what e) [], c')
                | (Inr err, c') \<Rightarrow>
                    (respond err (tx_error_str err)
                       (if err = TxError_None then [On_tx_accepted tx] else []), c'))"

definition on_create_block ::
    "sodium \<Rightarrow> 'db leveldb \<Rightarrow> bytes \<Rightarrow> 'db chain \<Rightarrow> reaction \<times> 'db chain" where
  "on_create_block so L payload c =
     (let respond = (\<lambda>err reason evs.
            (replies CreateBlockResponse (serialize_block_response err reason))\<lparr>events := evs\<rparr>)
      in case parse_create_block_payload so payload c of
           Inl e \<Rightarrow> (respond BlockError_InvalidPayload (what e) [], c)
         | Inr (Inl s) \<Rightarrow> (respond BlockError_InvalidPayload s [], c)
         | Inr (Inr p) \<Rightarrow>
             let blk = mk_block so (pcb_prev_hash p) (pcb_transactions p) (pcb_timestamp p) (pcb_nonce p)
             in if merkle_root (header blk) \<noteq> pcb_wire_merkle p
                then (respond BlockError_InvalidBlockHash ''merkle root mismatch'' [], c)
                else if block_hash blk > target c
                then (respond BlockError_HighHash ''hash does not meet difficulty'' [], c)
                else if prev_hash (header blk) \<noteq> tip_hash c
                then (respond BlockError_BadPreviousHash ''prev hash does not match tip'' [], c)
                else case add_block so L blk c of
                       (Inl e, c') \<Rightarrow> (respond BlockError_InvalidPayload (what e) [], c')
                     | (Inr _, c') \<Rightarrow>
                         (respond BlockError_None ''accepted'' [On_block_accepted blk], c'))"

text \<open>\<^verbatim>\<open>handle_msg\<close>: the \<^verbatim>\<open>switch\<close>. Only \<^verbatim>\<open>on_get_utxos\<close> can let an exception out.\<close>

definition handle_msg ::
    "sodium \<Rightarrow> 'db leveldb \<Rightarrow> (hash, transaction) map_iter \<Rightarrow> u16 \<Rightarrow> bytes \<Rightarrow>
     ('db chain, reaction) action" where
  "handle_msg so L iter ty payload c =
     (if ty = msg_code GetUTXOs then (on_get_utxos payload c, c)
      else if ty = msg_code GetTip then (Inr (on_get_tip c), c)
      else if ty = msg_code GetPool then (Inr (on_get_pool iter c c), c)
      else if ty = msg_code CreateTransaction then
        (case on_create_tx so L payload c of (r, c') \<Rightarrow> (Inr r, c'))
      else if ty = msg_code GetDifficulty then (Inr (on_get_difficulty c), c)
      else if ty = msg_code CreateBlock then
        (case on_create_block so L payload c of (r, c') \<Rightarrow> (Inr r, c'))
      else (Inr \<lparr>reply = None, events = []\<rparr>, c))"


section \<open>A client session\<close>

text \<open>
  \<^verbatim>\<open>handle_client\<close> on the bytes the client sends: it ends when they run out (Asio's end-of-file error), on
  a packet smaller than a message type, or on an exception of a handler.
\<close>

datatype session_end = End_of_file | Session_error exn

lemma take_raw_shrinks: "take_raw n r = Inr (x, r') \<Longrightarrow> remain r' = remain r - n \<and> n \<le> remain r"
  by (auto simp: take_raw_eq remain_def split: if_splits)

text \<open>One frame: \<^verbatim>\<open>payload_size\<close>, and then that many bytes, the type among them.\<close>

definition read_frame :: "bytes \<Rightarrow> session_end + ((u16 \<times> bytes) \<times> bytes)" where
  "read_frame input =
     (if length input < 4 then Inl End_of_file
      else
        let payload_size = unat (word_of_int (le_int (take 4 input)) :: u32);
            rest = drop 4 input
        in if payload_size < 2 then Inl (Session_error (Runtime_error ''packet too small''))
           else if length rest < payload_size then Inl End_of_file
           else let buf = take payload_size rest
                in Inr ((word_of_int (le_int (take 2 buf)), drop 2 buf), drop payload_size rest))"

lemma read_frame_shrinks: "read_frame input = Inr (m, rest) \<Longrightarrow> length rest < length input"
  by (auto simp: read_frame_def Let_def split: if_splits)

function handle_client ::
    "sodium \<Rightarrow> 'db leveldb \<Rightarrow> (hash, transaction) map_iter \<Rightarrow> bytes \<Rightarrow> 'db chain \<Rightarrow>
     reaction list \<times> session_end \<times> 'db chain" where
  "handle_client so L iter input c =
     (case read_frame input of
        Inl e \<Rightarrow> ([], e, c)
      | Inr ((ty, payload), rest) \<Rightarrow>
          (case handle_msg so L iter ty payload c of
             (Inl e, c') \<Rightarrow> ([], Session_error e, c')
           | (Inr r, c') \<Rightarrow>
               (case handle_client so L iter rest c' of (rs, e, c'') \<Rightarrow> (r # rs, e, c''))))"
  by pat_completeness auto
termination
  by (relation "measure (\<lambda>(so, L, iter, input, c). length input)")
    (auto dest: read_frame_shrinks)

declare handle_client.simps [simp del]

end
