(* ===== verification/Chain_Queries.thy ===== *)
theory Chain_Queries
  imports Chain
begin

text \<open>
  The read-only methods of \<^verbatim>\<open>Chain\<close>: what they return, stated without the 32-bit arithmetic and the
  loops of the code, and the two forms of the proof-of-work test.
\<close>

section \<open>The target\<close>

lemma length_list_updates: "length (fold (\<lambda>i t. t[i := v]) is t) = length t"
  by (induction "is" arbitrary: t) simp_all

lemma fold_update_zeros:
  "n \<le> length t \<Longrightarrow> fold (\<lambda>i t. t[i := v]) [0..<n] t = replicate n v @ drop n t"
proof (induction n)
  case 0
  then show ?case by simp
next
  case (Suc n)
  then have "fold (\<lambda>i t. t[i := v]) [0..<Suc n] t = (replicate n v @ drop n t)[n := v]"
    by simp
  also have "\<dots> = replicate n v @ v # drop (Suc n) t"
    using Suc.prems by (simp add: list_update_append Cons_nth_drop_Suc[symmetric])
  finally show ?case by (simp add: replicate_app_Cons_same del: upt_Suc)
qed

lemma build_target_eq:
  "unat d \<le> 32 \<Longrightarrow> build_target d = replicate (unat d) 0 @ replicate (32 - unat d) 0xff"
  by (simp add: build_target_def fold_update_zeros)

lemma byte_le_ff: "(b :: byte) \<le> 0xff"
proof -
  have "(0xff :: byte) = - 1" by simp
  then show ?thesis using word_n1_ge by metis
qed

lemma le_replicate_ff: "length xs = n \<Longrightarrow> xs \<le> replicate n (0xff :: byte)"
proof (induction xs arbitrary: n)
  case Nil
  then show ?case by simp
next
  case (Cons x xs)
  then obtain m where "n = Suc m" "length xs = m" by (cases n) auto
  with Cons.IH[of m] byte_le_ff[of x] show ?case
    by (auto simp: order_less_le)
qed

lemma le_zeros_ff:
  "length xs = k + n \<Longrightarrow>
   xs \<le> replicate k 0 @ replicate n (0xff :: byte) \<longleftrightarrow> (\<forall>i < k. xs ! i = 0)"
proof (induction k arbitrary: xs)
  case 0
  then show ?case by (simp add: le_replicate_ff)
next
  case (Suc k)
  then obtain x ys where xs: "xs = x # ys" "length ys = k + n" by (cases xs) auto
  have "(\<forall>i < Suc k. (x # ys) ! i = 0) \<longleftrightarrow> x = 0 \<and> (\<forall>i < k. ys ! i = 0)"
    by (auto simp: nth_Cons less_Suc_eq_0_disj split: nat.splits)
  with Suc.IH[OF xs(2)] show ?case
    by (simp add: xs(1))
qed

lemma target_leading_zeros:
  assumes "length h = 32" "unat d \<le> 32"
  shows "h > build_target d \<longleftrightarrow> \<not> leading_zero_bytes (unat d) h"
proof -
  have "h \<le> build_target d \<longleftrightarrow> (\<forall>i < unat d. h ! i = 0)"
    unfolding build_target_eq[OF assms(2)] using assms by (intro le_zeros_ff) simp
  then show ?thesis
    by (auto simp: leading_zero_bytes_def list_all_iff not_le[symmetric])
qed


section \<open>Blocks\<close>

lemma get_blocks_eq:
  assumes len: "length (blocks c) < 2 ^ 32"
  shows "get_blocks start count c = take (unat count) (drop (unat start) (blocks c))"
proof (cases "unat start \<ge> length (blocks c) \<or> count = 0")
  case True
  then show ?thesis by (auto simp: get_blocks_def)
next
  case False
  let ?n = "length (blocks c) - unat start"
  let ?m = "min count (word_of_nat ?n :: u32)"
  have n: "unat (word_of_nat ?n :: u32) = ?n"
    using len by (intro unat_u32_of_nat) simp
  have m: "unat ?m = min (unat count) ?n"
    using n by (simp add: min_def word_le_nat_alt)
  have "unat start + unat ?m < 2 ^ 32"
  proof -
    have "unat ?m \<le> ?n" unfolding m by simp
    with len False show ?thesis by linarith
  qed
  then have e: "unat (start + ?m) = unat start + min (unat count) ?n"
    using m by (simp add: unat_word_ariths)
  have "get_blocks start count c =
      map (\<lambda>i. blocks c ! i) [unat start..<unat start + min (unat count) ?n]"
    using False e by (simp add: get_blocks_def Let_def)
  also have "\<dots> = take (unat count) (drop (unat start) (blocks c))"
    using False by (intro nth_equalityI) auto
  finally show ?thesis .
qed

lemma find_block_Some:
  "unat i + length blks < 2 ^ 32 \<Longrightarrow> find_block h i blks = Some (j, blk) \<Longrightarrow>
   unat i \<le> unat j \<and> unat j < unat i + length blks \<and> blk = blks ! (unat j - unat i) \<and>
   block_hash blk = h \<and> (\<forall>k < unat j - unat i. block_hash (blks ! k) \<noteq> h)"
proof (induction blks arbitrary: i)
  case Nil
  then show ?case by simp
next
  case (Cons b blks)
  show ?case
  proof (cases "block_hash b = h")
    case True
    with Cons.prems show ?thesis by auto
  next
    case False
    have i: "unat (i + 1) = unat i + 1"
      using Cons.prems(1) by (intro unat_Suc_u32) simp
    have "find_block h (i + 1) blks = Some (j, blk)" "unat (i + 1) + length blks < 2 ^ 32"
      using Cons.prems False i by simp_all
    from Cons.IH[OF this(2,1)] i False show ?thesis
      by (auto simp: nth_Cons' Suc_le_eq)
  qed
qed

lemma find_block_None: "find_block h i blks = None \<longleftrightarrow> (\<forall>blk \<in> set blks. block_hash blk \<noteq> h)"
  by (induction blks arbitrary: i) auto


section \<open>Unspent outputs of an address\<close>

lemma collect_utxos_Inr:
  "(\<forall>op \<in> set ops. utxo c op \<noteq> None) \<Longrightarrow>
   collect_utxos c ops acc =
     Inr (acc @ map (\<lambda>op. (op, amount (the (utxo c op)))) (filter (\<lambda>op. pool_spent c op = None) ops))"
  by (induction ops arbitrary: acc) auto

lemma get_utxos_Inr:
  assumes "index_sound c"
  shows "get_utxos addr acc c =
    Inr (acc @ map (\<lambda>op. (op, amount (the (utxo c op))))
                 (filter (\<lambda>op. pool_spent c op = None) (index_of addr c)))"
proof (cases "address_utxo c addr")
  case None
  then show ?thesis by (simp add: get_utxos_def index_of_def)
next
  case (Some ops)
  then have ops: "index_of addr c = ops" by (simp add: index_of_def)
  with assms have "\<forall>op \<in> set ops. utxo c op \<noteq> None"
    unfolding index_sound_def by (metis option.distinct(1))
  with Some ops show ?thesis by (simp add: get_utxos_def collect_utxos_Inr)
qed

lemma get_utxos_exact:
  assumes inv: "ledger_inv c"
  shows "\<exists>res. get_utxos addr [] c = Inr res \<and> distinct res \<and>
    set res = {(op, v). \<exists>out. utxo c op = Some out \<and> recipient out = addr \<and> amount out = v \<and>
                        pool_spent c op = None}"
proof -
  let ?ops = "filter (\<lambda>op. pool_spent c op = None) (index_of addr c)"
  let ?res = "map (\<lambda>op. (op, amount (the (utxo c op)))) ?ops"
  have idx: "op \<in> set (index_of addr c) \<longleftrightarrow> (\<exists>out. utxo c op = Some out \<and> recipient out = addr)" for op
    using inv unfolding ledger_inv_def index_sound_def index_complete_def by blast
  have "distinct ?res"
    using inv by (simp add: ledger_inv_def index_distinct_def distinct_map inj_on_def)
  moreover have "set ?res = {(op, v). \<exists>out. utxo c op = Some out \<and> recipient out = addr \<and>
      amount out = v \<and> pool_spent c op = None}"
    by (force simp: idx)
  moreover have "get_utxos addr [] c = Inr ?res"
    using inv by (simp add: get_utxos_Inr ledger_inv_def)
  ultimately show ?thesis by blast
qed

end
