(* ===== verification/Node.thy ===== *)
theory Node
  imports Net Chain_Queries
begin

text \<open>
  The behaviour of the two handlers that change the state, \<open>on_create_tx\<close> and \<open>on_create_block\<close>, and the
  invariant of the node, \<open>node_inv\<close>: that of the pool, of the history and of the disk, kept by every TCP
  message and by a restart.
\<close>

section \<open>Block submissions\<close>

lemma resolve_txs_Inr:
  "resolve_txs c n r = Inr (Inr txs, r') \<Longrightarrow>
   length txs = n \<and> remain r = remain r' + 32 * n \<and> (\<forall>tx \<in> set txs. \<exists>h. pool c h = Some tx)"
proof (induction n arbitrary: r txs)
  case 0
  then show ?case by simp
next
  case (Suc n)
  from Suc.prems obtain h r1 where h: "take_hash r = Inr (h, r1)"
    and "\<exists>tx txs'. pool c h = Some tx \<and> resolve_txs c n r1 = Inr (Inr txs', r') \<and> txs = tx # txs'"
    by (auto simp: pbind_Inr_iff pool_contains_def get_pool_tx_def pthrow_def case_sum_Inr_iff
        split: if_splits option.splits)
  then obtain tx txs' where tx: "pool c h = Some tx" "txs = tx # txs'"
    and txs': "resolve_txs c n r1 = Inr (Inr txs', r')" by blast
  from h have "remain r = remain r1 + 32"
    by (auto simp: take_hash_def dest: take_raw_shrinks)
  with Suc.IH[OF txs'] tx show ?case by auto
qed

lemma resolve_txs_exn: "resolve_txs c n r = Inl e \<Longrightarrow> e = reader_eof"
  by (induction n arbitrary: r)
    (auto simp: pbind_Inl_iff pool_contains_def get_pool_tx_def dest: whash.get_exn
      split: if_splits option.splits)

text \<open>What a block submission that parses contains.\<close>

lemma parse_create_block_Inr:
  assumes "parse_create_block_payload so payload c = Inr (Inr p)"
  obtains addr reward ts txs where
    "pcb_transactions p = mk_transaction so [] [\<lparr>recipient = addr, amount = reward\<rparr>] ts # txs"
    "pcb_coinbase p = mk_transaction so [] [\<lparr>recipient = addr, amount = reward\<rparr>] ts"
    "length addr = 20" "length (pcb_prev_hash p) = 32" "length (pcb_wire_merkle p) = 32"
    "\<forall>tx \<in> set txs. \<exists>h. pool c h = Some tx" "32 * length txs \<le> length payload"
proof -
  from assms obtain r where p: "take_create_block so c (mk_reader payload) = Inr (Inr p, r)"
    by (auto simp: parse_create_block_payload_def ebind_Inr_iff)
  then obtain prev merkle addr reward ts txs n where
    len: "length prev = 32" "length merkle = 32" "length addr = 20"
    and res: "resolve_txs c n (skip 120 (mk_reader payload)) = Inr (Inr txs, r)"
    and p': "pcb_prev_hash p = prev" "pcb_wire_merkle p = merkle"
      "pcb_coinbase p = mk_transaction so [] [\<lparr>recipient = addr, amount = reward\<rparr>] ts"
      "pcb_transactions p = mk_transaction so [] [\<lparr>recipient = addr, amount = reward\<rparr>] ts # txs"
    unfolding take_create_block_def Let_def whash.bind_Inr wu64.bind_Inr waddr.bind_Inr wu32.bind_Inr
      pbind_Inr_iff[of "resolve_txs _ _"]
    by (clarsimp simp: case_sum_Inr_iff)
  have short: "remain (skip 120 (mk_reader payload)) \<le> length payload"
    by (simp add: remain_def)
  from resolve_txs_Inr[OF res] short have "32 * length txs \<le> length payload"
    "\<forall>tx \<in> set txs. \<exists>h. pool c h = Some tx" by auto
  with len p' show thesis by (intro that) auto
qed

text \<open>The request format of \<^verbatim>\<open>CreateBlock\<close>, as a writer: what a miner sends.\<close>

record block_request =
  br_prev_hash :: hash
  br_merkle :: hash
  br_timestamp :: u64
  br_nonce :: u64
  br_address :: address
  br_reward :: u64
  br_cb_timestamp :: u64
  br_txids :: "hash list"

definition put_create_block :: "block_request \<Rightarrow> writer \<Rightarrow> writer" where
  "put_create_block q w =
     put_counted put_hash (br_txids q)
       (put_u64 (br_cb_timestamp q) (put_u64 (br_reward q) (put_addr (br_address q)
         (put_u64 (br_nonce q) (put_u64 (br_timestamp q)
           (put_hash (br_merkle q) (put_hash (br_prev_hash q) w)))))))"

definition block_request_ok :: "block_request \<Rightarrow> bool" where
  "block_request_ok q \<longleftrightarrow> length (br_prev_hash q) = 32 \<and> length (br_merkle q) = 32 \<and>
     length (br_address q) = 20 \<and> length (br_txids q) < 2 ^ 32 \<and>
     (\<forall>id \<in> set (br_txids q). length id = 32)"

text \<open>What the node makes of the request.\<close>

definition request_coinbase :: "sodium \<Rightarrow> block_request \<Rightarrow> transaction" where
  "request_coinbase so q =
     mk_transaction so [] [\<lparr>recipient = br_address q, amount = br_reward q\<rparr>] (br_cb_timestamp q)"

definition requested :: "sodium \<Rightarrow> 'db chain \<Rightarrow> block_request \<Rightarrow> parsed_create_block" where
  "requested so c q =
     \<lparr>pcb_prev_hash = br_prev_hash q, pcb_wire_merkle = br_merkle q, pcb_timestamp = br_timestamp q,
      pcb_nonce = br_nonce q, pcb_coinbase = request_coinbase so q,
      pcb_transactions = request_coinbase so q # map (\<lambda>id. the (pool c id)) (br_txids q)\<rparr>"

lemma put_create_block_unfold:
  "put_create_block q [] =
     put_hash (br_prev_hash q) [] @ put_hash (br_merkle q) [] @ put_u64 (br_timestamp q) [] @
     put_u64 (br_nonce q) [] @ put_addr (br_address q) [] @ put_u64 (br_reward q) [] @
     put_u64 (br_cb_timestamp q) [] @ put_u32 (word_of_nat (length (br_txids q))) [] @
     put_many put_hash (br_txids q) []"
proof -
  have n: "put_counted put_hash ids w = w @ put_u32 (word_of_nat (length ids)) [] @ put_many put_hash ids []"
    for ids w
    using whash.put_many_append[of ids "put_u32 (word_of_nat (length ids)) w"]
      wu32.put_append[of "word_of_nat (length ids)" w]
    by (simp add: put_counted_def)
  show ?thesis
    unfolding put_create_block_def n
    by (subst (1 2 3 4 5 6) wu64.put_append whash.put_append waddr.put_append,
        simp add: wu64.put_append[of _ "_ @ _"] whash.put_append[of _ "_ @ _"] waddr.put_append[of _ "_ @ _"])
qed

lemma resolve_txs_put:
  "\<forall>id \<in> set ids. length id = 32 \<Longrightarrow> unread r = put_many put_hash ids [] @ rest \<Longrightarrow>
   \<exists>r'. resolve_txs c (length ids) r =
     Inr (if \<forall>id \<in> set ids. pool c id \<noteq> None then Inr (map (\<lambda>id. the (pool c id)) ids)
          else Inl ''tx not in pool'', r')"
proof (induction ids arbitrary: r)
  case Nil
  then show ?case by (simp add: preturn_def)
next
  case (Cons h ids)
  let ?r = "skip (length (put_hash h [])) r"
  have u: "unread r = put_hash h [] @ put_many put_hash ids [] @ rest"
    using Cons.prems(2) whash.put_many_append[of ids "put_hash h []"] by simp
  then have ur: "unread ?r = put_many put_hash ids [] @ rest" by simp
  have t: "take_hash r = Inr (h, ?r)" using Cons.prems(1) u by (intro whash.get_put) auto
  obtain r' where r': "resolve_txs c (length ids) ?r =
     Inr (if \<forall>id \<in> set ids. pool c id \<noteq> None then Inr (map (\<lambda>id. the (pool c id)) ids)
          else Inl ''tx not in pool'', r')"
    using Cons.IH[OF _ ur] Cons.prems(1) by auto
  show ?case
  proof (cases "pool c h")
    case None
    with t show ?thesis by (simp add: pbind_def pool_contains_def preturn_def)
  next
    case (Some tx)
    with t r' show ?thesis
      by (simp add: pbind_def pool_contains_def get_pool_tx_def preturn_def)
  qed
qed

lemma parse_create_block_put:
  assumes ok: "block_request_ok q"
  shows "parse_create_block_payload so (put_create_block q [] @ rest) c =
    Inr (if \<forall>id \<in> set (br_txids q). pool c id \<noteq> None then Inr (requested so c q)
         else Inl ''tx not in pool'')"
proof -
  let ?ids = "br_txids q"
  have len: "length (br_prev_hash q) = 32" "length (br_merkle q) = 32" "length (br_address q) = 20"
    and ids: "\<forall>id \<in> set ?ids. length id = 32" "length ?ids < 2 ^ 32"
    using ok by (simp_all add: block_request_ok_def)
  let ?s8 = "put_many put_hash ?ids [] @ rest"
  let ?s7 = "put_u32 (word_of_nat (length ?ids)) [] @ ?s8"
  let ?s6 = "put_u64 (br_cb_timestamp q) [] @ ?s7"
  let ?s5 = "put_u64 (br_reward q) [] @ ?s6"
  let ?s4 = "put_addr (br_address q) [] @ ?s5"
  let ?s3 = "put_u64 (br_nonce q) [] @ ?s4"
  let ?s2 = "put_u64 (br_timestamp q) [] @ ?s3"
  let ?s1 = "put_hash (br_merkle q) [] @ ?s2"
  have all: "put_create_block q [] @ rest = put_hash (br_prev_hash q) [] @ ?s1"
    by (simp add: put_create_block_unfold)
  let ?r0 = "mk_reader (put_create_block q [] @ rest)"
  have u0: "unread ?r0 = put_hash (br_prev_hash q) [] @ ?s1" using all by simp
  obtain r1 where t1: "take_hash ?r0 = Inr (br_prev_hash q, r1)" and u1: "unread r1 = ?s1"
    by (rule whash.read_next[OF len(1) u0])
  obtain r2 where t2: "take_hash r1 = Inr (br_merkle q, r2)" and u2: "unread r2 = ?s2"
    by (rule whash.read_next[OF len(2) u1])
  obtain r3 where t3: "take_u64 r2 = Inr (br_timestamp q, r3)" and u3: "unread r3 = ?s3"
    by (rule wu64.read_next[OF TrueI u2])
  obtain r4 where t4: "take_u64 r3 = Inr (br_nonce q, r4)" and u4: "unread r4 = ?s4"
    by (rule wu64.read_next[OF TrueI u3])
  obtain r5 where t5: "take_addr r4 = Inr (br_address q, r5)" and u5: "unread r5 = ?s5"
    by (rule waddr.read_next[OF len(3) u4])
  obtain r6 where t6: "take_u64 r5 = Inr (br_reward q, r6)" and u6: "unread r6 = ?s6"
    by (rule wu64.read_next[OF TrueI u5])
  obtain r7 where t7: "take_u64 r6 = Inr (br_cb_timestamp q, r7)" and u7: "unread r7 = ?s7"
    by (rule wu64.read_next[OF TrueI u6])
  obtain r8 where t8: "take_u32 r7 = Inr (word_of_nat (length ?ids), r8)" and u8: "unread r8 = ?s8"
    by (rule wu32.read_next[OF TrueI u7])
  obtain r' where r': "resolve_txs c (length ?ids) r8 =
     Inr (if \<forall>id \<in> set ?ids. pool c id \<noteq> None then Inr (map (\<lambda>id. the (pool c id)) ?ids)
          else Inl ''tx not in pool'', r')"
    using resolve_txs_put[OF ids(1) u8] by blast
  have n: "unat (word_of_nat (length ?ids) :: u32) = length ?ids"
    using ok by (simp add: block_request_ok_def unat_of_nat)
  show ?thesis
    by (simp add: parse_create_block_payload_def take_create_block_def Let_def pbind_def
        t1 t2 t3 t4 t5 t6 t7 t8 n r' preturn_def requested_def request_coinbase_def)
qed

lemma length_put_create_block:
  assumes "block_request_ok q"
  shows "length (put_create_block q []) = 120 + 32 * length (br_txids q)"
proof -
  have "length (put_many put_hash ids []) = 32 * length ids" if "\<forall>h \<in> set ids. length h = 32" for ids
    using that
  proof (induction ids)
    case (Cons h ids)
    then show ?case using whash.put_many_append[of ids "put_hash h []"] by simp
  qed simp
  with assms show ?thesis by (simp add: put_create_block_unfold block_request_ok_def)
qed

text \<open>The block that the handler builds from a parsed submission.\<close>

definition submitted_block :: "sodium \<Rightarrow> parsed_create_block \<Rightarrow> block" where
  "submitted_block so p =
     mk_block so (pcb_prev_hash p) (pcb_transactions p) (pcb_timestamp p) (pcb_nonce p)"

lemma submitted_minable:
  assumes inv: "pool_inv c" and p: "parse_create_block_payload so payload c = Inr (Inr p)"
  shows "\<forall>tx \<in> set (transactions (submitted_block so p)). minable c tx"
  using p
  by (rule parse_create_block_Inr)
    (use pool_invD(1)[OF inv] in \<open>auto simp: submitted_block_def minable_def\<close>)

lemma submitted_block_ok:
  assumes so: "sodium_ok so" and p: "parse_create_block_payload so payload c = Inr (Inr p)"
    and len: "length payload < 2 ^ 32" and pool: "\<forall>h tx. pool c h = Some tx \<longrightarrow> framed_ok tx"
  shows "block_ok so (submitted_block so p)"
proof -
  obtain addr reward ts txs where
    t: "pcb_transactions p = mk_transaction so [] [\<lparr>recipient = addr, amount = reward\<rparr>] ts # txs"
    and l: "length addr = 20" "length (pcb_prev_hash p) = 32" "32 * length txs \<le> length payload"
    and m: "\<forall>tx \<in> set txs. \<exists>h. pool c h = Some tx"
    using p by (rule parse_create_block_Inr)
  have "framed_ok (mk_transaction so [] [\<lparr>recipient = addr, amount = reward\<rparr>] ts)"
    using so l(1) by (simp add: framed_ok_def tx_ok_def txoutput_ok_def length_tx_serialize)
  with m pool have "list_all framed_ok (pcb_transactions p)"
    by (auto simp: t list_all_iff)
  moreover have "length (pcb_transactions p) < 2 ^ 32"
    using l(3) len by (simp add: t)
  ultimately show ?thesis
    unfolding submitted_block_def using so l(2) by (intro mk_block_ok) auto
qed

text \<open>The state after a block submission: unchanged, or that of \<open>add_block\<close> after all three checks.\<close>

definition block_checks :: "sodium \<Rightarrow> parsed_create_block \<Rightarrow> 'db chain \<Rightarrow> bool" where
  "block_checks so p c \<longleftrightarrow>
     merkle_root (header (submitted_block so p)) = pcb_wire_merkle p \<and>
     \<not> block_hash (submitted_block so p) > target c \<and>
     prev_hash (header (submitted_block so p)) = tip_hash c"

lemma on_create_block_cases:
  assumes "on_create_block so L payload c = (r, c')"
  shows "(c' = c \<and> events r = []) \<or>
    (\<exists>p. parse_create_block_payload so payload c = Inr (Inr p) \<and> block_checks so p c \<and>
       ((\<exists>e. add_block so L (submitted_block so p) c = (Inl e, c') \<and> events r = []) \<or>
        (add_block so L (submitted_block so p) c = (Inr (), c') \<and>
         events r = [On_block_accepted (submitted_block so p)])))"
  using assms
  unfolding on_create_block_def block_checks_def submitted_block_def Let_def replies_def
  by (auto split: sum.splits prod.splits if_splits)

lemma pool_inv_on_create_block:
  assumes inv: "pool_inv c" and r: "on_create_block so L payload c = (r, c')"
  shows "pool_inv c'"
  using on_create_block_cases[OF r] submitted_minable[OF inv] pool_inv_add_block[OF inv] inv
  by metis


section \<open>Transaction submissions\<close>

text \<open>
  The request format of \<^verbatim>\<open>CreateTransaction\<close>, as a writer: what a wallet sends. The parser accepts exactly
  what it writes, followed by any bytes.
\<close>

definition put_create_tx :: "parsed_create_tx \<Rightarrow> writer \<Rightarrow> writer" where
  "put_create_tx p w =
     put_sig (pct_sig p)
       (put_counted put_txoutput (pct_outputs p)
         (put_counted put_outpoint (pct_inputs p)
           (put_u64 (pct_timestamp p) (put_pk (pct_pubkey p) w))))"

definition create_tx_ok :: "parsed_create_tx \<Rightarrow> bool" where
  "create_tx_ok p \<longleftrightarrow> length (pct_pubkey p) = 32 \<and> length (pct_sig p) = 64 \<and>
     length (pct_inputs p) < 2 ^ 32 \<and> list_all outpoint_ok (pct_inputs p) \<and>
     length (pct_outputs p) < 2 ^ 32 \<and> list_all txoutput_ok (pct_outputs p)"

interpretation pk_u64: codec_seq
    put_pk take_pk "\<lambda>pk. length pk = crypto_sign_PUBLICKEYBYTES" put_u64 take_u64 "\<lambda>_. True"
  ..

interpretation outs_sig: codec_seq
    "put_counted put_txoutput" "take_counted take_txoutput"
    "\<lambda>xs. length xs < 2 ^ 32 \<and> list_all txoutput_ok xs"
    put_sig take_sig "\<lambda>sig. length sig = crypto_sign_BYTES"
  ..

interpretation ins_outs_sig: codec_seq
    "put_counted put_outpoint" "take_counted take_outpoint"
    "\<lambda>xs. length xs < 2 ^ 32 \<and> list_all outpoint_ok xs"
    "put_seq (put_counted put_txoutput) put_sig" "take_seq (take_counted take_txoutput) take_sig"
    "valid_seq (\<lambda>xs. length xs < 2 ^ 32 \<and> list_all txoutput_ok xs)
       (\<lambda>sig. length sig = crypto_sign_BYTES)"
  by (intro codec_seq.intro outpoint.counted_codec outs_sig.seq_codec)

interpretation create_tx_fields: codec_seq
    "put_seq put_pk put_u64" "take_seq take_pk take_u64"
    "valid_seq (\<lambda>pk. length pk = crypto_sign_PUBLICKEYBYTES) (\<lambda>_. True)"
    "put_seq (put_counted put_outpoint) (put_seq (put_counted put_txoutput) put_sig)"
    "take_seq (take_counted take_outpoint) (take_seq (take_counted take_txoutput) take_sig)"
    "valid_seq (\<lambda>xs. length xs < 2 ^ 32 \<and> list_all outpoint_ok xs)
       (valid_seq (\<lambda>xs. length xs < 2 ^ 32 \<and> list_all txoutput_ok xs)
         (\<lambda>sig. length sig = crypto_sign_BYTES))"
  by (intro codec_seq.intro pk_u64.seq_codec ins_outs_sig.seq_codec)

interpretation create_tx: codec put_create_tx take_create_tx create_tx_ok
proof -
  let ?f = "\<lambda>((pk, ts), (ins, (outs, sig))). \<lparr>pct_pubkey = pk, pct_timestamp = ts,
      pct_inputs = ins, pct_outputs = outs, pct_sig = sig\<rparr>"
    and ?g = "\<lambda>p. ((pct_pubkey p, pct_timestamp p), (pct_inputs p, (pct_outputs p, pct_sig p)))"
    and ?put = "put_seq (put_seq put_pk put_u64)
      (put_seq (put_counted put_outpoint) (put_seq (put_counted put_txoutput) put_sig))"
    and ?get = "take_seq (take_seq take_pk take_u64)
      (take_seq (take_counted take_outpoint) (take_seq (take_counted take_txoutput) take_sig))"
    and ?valid = "valid_seq (valid_seq (\<lambda>pk. length pk = crypto_sign_PUBLICKEYBYTES) (\<lambda>_. True))
      (valid_seq (\<lambda>xs. length xs < 2 ^ 32 \<and> list_all outpoint_ok xs)
         (valid_seq (\<lambda>xs. length xs < 2 ^ 32 \<and> list_all txoutput_ok xs)
           (\<lambda>sig. length sig = crypto_sign_BYTES)))"
  have "codec (\<lambda>p. ?put (?g p)) (pbind ?get (\<lambda>x. preturn (?f x))) (\<lambda>p. ?valid (?g p))"
    by (rule codec.iso_codec[OF create_tx_fields.seq_codec]) auto
  moreover have "put_create_tx = (\<lambda>p. ?put (?g p))"
    by (simp add: fun_eq_iff put_create_tx_def put_seq_def)
  moreover have "take_create_tx = pbind ?get (\<lambda>x. preturn (?f x))"
    by (simp add: take_create_tx_def take_seq_def pbind_assoc pbind_preturn)
  moreover have "create_tx_ok = (\<lambda>p. ?valid (?g p))"
    by (auto simp add: fun_eq_iff create_tx_ok_def valid_seq_def)
  ultimately show "codec put_create_tx take_create_tx create_tx_ok" by simp
qed

lemma put_create_tx_unfold:
  "put_create_tx p [] = put_pk (pct_pubkey p) [] @ put_u64 (pct_timestamp p) [] @
     put_counted put_outpoint (pct_inputs p) [] @ put_counted put_txoutput (pct_outputs p) [] @
     put_sig (pct_sig p) []"
  unfolding put_create_tx_def
  using outputs_list.put_append[of "pct_outputs p" "put_counted put_outpoint (pct_inputs p)
      (put_u64 (pct_timestamp p) (put_pk (pct_pubkey p) []))"]
    inputs_list.put_append[of "pct_inputs p" "put_u64 (pct_timestamp p) (put_pk (pct_pubkey p) [])"]
    wu64.put_append[of "pct_timestamp p" "put_pk (pct_pubkey p) []"]
    wsig.put_append[of "pct_sig p" "put_counted put_txoutput (pct_outputs p)
      (put_counted put_outpoint (pct_inputs p) (put_u64 (pct_timestamp p) (put_pk (pct_pubkey p) [])))"]
  by simp

lemma length_put_create_tx:
  "create_tx_ok p \<Longrightarrow>
   length (put_create_tx p []) = 112 + 36 * length (pct_inputs p) + 28 * length (pct_outputs p)"
  by (simp add: put_create_tx_unfold create_tx_ok_def outpoint.length_put_counted
      txoutput.length_put_counted length_put_outpoints length_put_txoutputs)

lemma parse_create_tx_iff:
  "parse_create_tx_payload payload = Inr p \<longleftrightarrow>
     create_tx_ok p \<and> (\<exists>rest. payload = put_create_tx p [] @ rest)"
  using create_tx.get_put[of p "mk_reader payload"]
  by (auto simp: parse_create_tx_payload_def ebind_Inr_iff dest: create_tx.get_sound)

lemma parse_create_tx_Inr:
  "parse_create_tx_payload payload = Inr p \<Longrightarrow>
   create_tx_ok p \<and> 112 + 36 * length (pct_inputs p) + 28 * length (pct_outputs p) \<le> length payload"
  by (auto simp: parse_create_tx_iff length_put_create_tx)

definition submitted_tx :: "sodium \<Rightarrow> parsed_create_tx \<Rightarrow> signed_transaction" where
  "submitted_tx so p =
     \<lparr>st_tx = mk_transaction so (pct_inputs p) (pct_outputs p) (pct_timestamp p),
      st_pubkey = pct_pubkey p, st_sig = pct_sig p\<rparr>"

lemma submitted_tx_ok:
  assumes so: "sodium_ok so" and p: "parse_create_tx_payload payload = Inr p"
    and len: "length payload < 2 ^ 32"
  shows "framed_ok (st_tx (submitted_tx so p))"
proof -
  have ok: "tx_ok (st_tx (submitted_tx so p))"
    using parse_create_tx_Inr[OF p] so by (simp add: submitted_tx_def tx_ok_def create_tx_ok_def)
  then show ?thesis
    using parse_create_tx_Inr[OF p] len
    by (simp add: framed_ok_def length_tx_serialize) (simp add: submitted_tx_def)
qed

definition tx_reply :: "tx_error \<Rightarrow> string \<Rightarrow> event list \<Rightarrow> reaction" where
  "tx_reply err reason evs =
     \<lparr>reply = Some (send TransactionResponse (serialize_tx_response err reason)), events = evs\<rparr>"

lemma on_create_tx_malformed:
  "parse_create_tx_payload payload = Inl e \<Longrightarrow>
   on_create_tx so L payload c = (tx_reply TxError_InvalidPayload (what e) [], c)"
  by (simp add: on_create_tx_def Let_def replies_def tx_reply_def)

lemma on_create_tx_parsed:
  "parse_create_tx_payload payload = Inr p \<Longrightarrow>
   on_create_tx so L payload c =
     (case add_tx so L (submitted_tx so p) c of
        (Inl e, c') \<Rightarrow> (tx_reply TxError_InvalidPayload (what e) [], c')
      | (Inr err, c') \<Rightarrow>
          (tx_reply err (tx_error_str err)
             (if err = TxError_None then [On_tx_accepted (st_tx (submitted_tx so p))] else []), c'))"
  unfolding on_create_tx_def submitted_tx_def Let_def replies_def tx_reply_def
  by (simp split: prod.split sum.split)

lemma on_create_tx_cases:
  assumes "on_create_tx so L payload c = (r, c')"
  shows "(c' = c \<and> events r = []) \<or>
    (\<exists>p res. parse_create_tx_payload payload = Inr p \<and> add_tx so L (submitted_tx so p) c = (res, c') \<and>
       events r = (if res = Inr TxError_None then [On_tx_accepted (st_tx (submitted_tx so p))] else []))"
proof (cases "parse_create_tx_payload payload")
  case (Inl e)
  with assms show ?thesis by (simp add: on_create_tx_malformed tx_reply_def) auto
next
  case (Inr p)
  obtain res d where d: "add_tx so L (submitted_tx so p) c = (res, d)" by fastforce
  with assms Inr have "d = c'" and "events r = (if res = Inr TxError_None
      then [On_tx_accepted (st_tx (submitted_tx so p))] else [])"
    by (cases res; auto simp: on_create_tx_parsed tx_reply_def)+
  with Inr d show ?thesis by blast
qed

lemma pool_inv_on_create_tx:
  assumes inv: "pool_inv c" and r: "on_create_tx so L payload c = (r, c')"
  shows "pool_inv c'"
  using on_create_tx_cases[OF r] pool_inv_add_tx[OF inv] inv by blast



section \<open>Frames and sessions\<close>

text \<open>A message of a response type, or of a request the server does not implement, is ignored.\<close>

lemma handle_msg_response:
  "DifficultyResponse \<le> ty \<Longrightarrow> handle_msg so L iter (msg_code ty) payload c = (Inr \<lparr>reply = None, events = []\<rparr>, c)"
  by (cases ty) (simp_all add: handle_msg_def less_eq_msg_type_def)

lemma handle_msg_unimplemented:
  "ty \<in> {GetBlock, GetTransaction, GetUTXO} \<Longrightarrow>
   handle_msg so L iter (msg_code ty) payload c = (Inr \<lparr>reply = None, events = []\<rparr>, c)"
  by (auto simp: handle_msg_def)

text \<open>A frame of the protocol, for any message type, as a client writes it and as \<open>send\<close> does.\<close>

definition encode_frame :: "u16 \<Rightarrow> bytes \<Rightarrow> bytes" where
  "encode_frame ty payload = put_span payload (put_u16 ty (put_u32 (word_of_nat (2 + length payload)) []))"

lemma send_encode_frame: "send ty payload = encode_frame (msg_code ty) payload"
  by (simp add: send_def encode_frame_def)

lemma read_frame_encode:
  assumes "length payload + 2 < 2 ^ 32"
  shows "read_frame (encode_frame ty payload @ rest) = Inr ((ty, payload), rest)"
proof -
  have "(2 + word_of_nat (length payload) :: u32) = word_of_nat (length payload + 2)" by simp
  then have n: "unat (2 + word_of_nat (length payload) :: u32) = length payload + 2"
    using assms unat_u32_of_nat[of "length payload + 2"] by simp
  have u: "unat (word_of_int (le_int (le_bytes 4 (uint w))) :: u32) = unat w" for w :: u32
    by (simp add: word_le_roundtrip)
  have t: "(word_of_int (le_int (le_bytes 2 (uint w))) :: u16) = w" for w :: u16
    by (simp add: word_le_roundtrip)
  show ?thesis
    using assms by (simp add: read_frame_def encode_frame_def put_span_def put_u16_def put_u32_def
        put_bytes_def u n t Let_def)
qed

text \<open>What a session does, without the bytes: the messages one after the other, until one throws.\<close>

primrec run_messages ::
    "sodium \<Rightarrow> 'db leveldb \<Rightarrow> (hash, transaction) map_iter \<Rightarrow> (u16 \<times> bytes) list \<Rightarrow> session_end \<Rightarrow>
     'db chain \<Rightarrow> reaction list \<times> session_end \<times> 'db chain" where
  "run_messages so L iter [] e c = ([], e, c)"
| "run_messages so L iter (m # ms) e c =
     (case handle_msg so L iter (fst m) (snd m) c of
        (Inl ex, c') \<Rightarrow> ([], Session_error ex, c')
      | (Inr r, c') \<Rightarrow> (case run_messages so L iter ms e c' of (rs, e', c'') \<Rightarrow> (r # rs, e', c'')))"

lemma handle_client_frames:
  "\<forall>m \<in> set ms. length (snd m) + 2 < 2 ^ 32 \<Longrightarrow> read_frame tail = Inl e \<Longrightarrow>
   handle_client so L iter (concat (map (\<lambda>m. encode_frame (fst m) (snd m)) ms) @ tail) c =
     run_messages so L iter ms e c"
proof (induction ms arbitrary: c)
  case Nil
  then show ?case by (simp add: handle_client.simps[of so L iter tail])
next
  case (Cons m ms)
  let ?rest = "concat (map (\<lambda>m. encode_frame (fst m) (snd m)) ms) @ tail"
  have f: "read_frame (encode_frame (fst m) (snd m) @ ?rest) = Inr ((fst m, snd m), ?rest)"
    using Cons.prems(1) by (intro read_frame_encode) simp
  have IH: "handle_client so L iter ?rest d = run_messages so L iter ms e d" for d
    using Cons by simp
  show ?case
    by (simp add: handle_client.simps[of so L iter "encode_frame (fst m) (snd m) @ ?rest"] f[simplified] IH[simplified]
        split: prod.split sum.split)
qed


section \<open>The invariant of the node\<close>

text \<open>A database that does not fail.\<close>

definition db_reliable :: "'db leveldb \<Rightarrow> bool" where
  "db_reliable L \<longleftrightarrow> (\<forall>k v db. fst (db_put L k v db) = None) \<and>
     (\<forall>k db. fst (db_delete L k db) = None) \<and> (\<forall>db. snd (db_scan L db) = None)"

definition node_inv ::
    "sodium \<Rightarrow> ('db \<Rightarrow> string \<Rightarrow> bytes option) \<Rightarrow> 'db chain \<Rightarrow> bool" where
  "node_inv so contents c \<longleftrightarrow> pool_inv c \<and> history_inv c \<and> disk_inv so contents c"

lemma handle_msg_state:
  assumes "handle_msg so L iter ty payload c = (r, c')"
  shows "c' = c \<or> (\<exists>re. on_create_tx so L payload c = (re, c')) \<or>
    (\<exists>re. on_create_block so L payload c = (re, c'))"
  using assms by (auto simp: handle_msg_def split: if_splits prod.splits)

lemma pool_inv_handle_msg:
  "pool_inv c \<Longrightarrow> handle_msg so L iter ty payload c = (r, c') \<Longrightarrow> pool_inv c'"
  by (drule handle_msg_state) (auto intro: pool_inv_on_create_tx pool_inv_on_create_block)

lemma pool_inv_handle_client:
  "pool_inv c \<Longrightarrow> handle_client so L iter input c = (rs, e, c') \<Longrightarrow> pool_inv c'"
proof (induction so L iter input c arbitrary: rs rule: handle_client.induct)
  case (1 so L iter input c)
  show ?case
  proof (cases "read_frame input")
    case (Inl e)
    with "1.prems" show ?thesis by (simp add: handle_client.simps[of so L iter input])
  next
    case (Inr m)
    obtain ty payload rest where m: "m = ((ty, payload), rest)" by (metis surj_pair)
    obtain r d where d: "handle_msg so L iter ty payload c = (r, d)" by fastforce
    then have inv: "pool_inv d" using "1.prems"(1) pool_inv_handle_msg by blast
    show ?thesis
    proof (cases r)
      case (Inl e)
      with "1.prems" Inr m d inv show ?thesis by (simp add: handle_client.simps[of so L iter input])
    next
      case r: (Inr re)
      obtain rs' e' c'' where n: "handle_client so L iter rest d = (rs', e', c'')"
        by (metis surj_pair)
      with "1.prems"(2) Inr m d r have "c'' = c'"
        by (simp add: handle_client.simps[of so L iter input])
      with n have "handle_client so L iter rest d = (rs', e', c')" by simp
      moreover from "1.prems"(2) Inr m d r n have "e' = e"
        by (simp add: handle_client.simps[of so L iter input])
      ultimately show ?thesis using "1.IH"[OF Inr m[symmetric] refl d[symmetric] r inv] by simp
    qed
  qed
qed

lemma db_reliable_add_tx: "db_reliable L \<Longrightarrow> add_tx so L st c = (res, c') \<Longrightarrow> \<exists>err. res = Inr err"
  by (auto simp: add_tx_cases Let_def db_reliable_def split: if_splits prod.splits option.splits)
    (metis fst_conv option.distinct(1))

lemma db_reliable_confirm_txs:
  "db_reliable L \<Longrightarrow> confirm_txs so L txs c = (res, c') \<Longrightarrow> res = Inr ()"
proof (induction txs arbitrary: c)
  case Nil
  then show ?case by simp
next
  case (Cons tx txs)
  obtain r1 c1 where c1: "confirm_tx so L tx c = (r1, c1)" by fastforce
  have "fst (db_delete L k db) = None" for k db using Cons.prems(1) by (simp add: db_reliable_def)
  with c1 have "r1 = Inr ()"
    by (auto simp: confirm_tx_cases Let_def split: if_splits prod.splits option.splits)
      (metis fst_conv option.distinct(1))
  with c1 Cons show ?case by (simp add: sbind_def)
qed

lemma db_reliable_add_block:
  assumes L: "db_reliable L" and r: "add_block so L blk c = (res, c')"
  shows "res = Inr ()"
proof -
  obtain r1 c1 where c1: "confirm_txs so L (transactions blk) c = (r1, c1)" by fastforce
  have put: "fst (db_put L k v db) = None" for k v db using L by (simp add: db_reliable_def)
  obtain r2 c2 where c2: "store_block L blk c1 = (r2, c2)" by fastforce
  with put have "r2 = Inr ()"
    by (auto simp: store_block_def Let_def split: prod.splits option.splits)
      (metis fst_conv option.distinct(1))
  with r c1 c2 db_reliable_confirm_txs[OF L c1] show ?thesis
    by (simp add: add_block_def sbind_def)
qed

lemma node_inv_add_tx:
  assumes L: "leveldb_ok L contents" "db_reliable L" and so: "sodium_ok so"
    and inv: "node_inv so contents c" and tx: "framed_ok (st_tx st)"
    and r: "add_tx so L st c = (res, c')"
  shows "node_inv so contents c'"
proof -
  obtain err where "res = Inr err" using db_reliable_add_tx[OF L(2) r] by blast
  with r inv disk_inv_add_tx[OF L(1) so _ tx] show ?thesis
    unfolding node_inv_def by (auto intro: pool_inv_add_tx history_inv_add_tx)
qed

lemma node_inv_handle_msg:
  assumes L: "leveldb_ok L contents" "db_reliable L" and so: "sodium_ok so"
    and inv: "node_inv so contents c" and len: "length payload < 2 ^ 32"
    and room: "length (blocks c) < 2 ^ 32"
    and r: "handle_msg so L iter ty payload c = (r, c')"
  shows "node_inv so contents c'"
  using handle_msg_state[OF r]
proof (elim disjE exE)
  assume "c' = c"
  with inv show ?thesis by simp
next
  fix re assume "on_create_tx so L payload c = (re, c')"
  from on_create_tx_cases[OF this] show ?thesis
    using inv node_inv_add_tx[OF L so inv] submitted_tx_ok[OF so _ len] by blast
next
  fix re assume b: "on_create_block so L payload c = (re, c')"
  from on_create_block_cases[OF b] show ?thesis
  proof (elim disjE exE conjE)
    assume "c' = c"
    with inv show ?thesis by simp
  next
    fix p e assume "add_block so L (submitted_block so p) c = (Inl e, c')"
    with db_reliable_add_block[OF L(2)] show ?thesis by blast
  next
    fix p assume p: "parse_create_block_payload so payload c = Inr (Inr p)"
      and a: "add_block so L (submitted_block so p) c = (Inr (), c')"
    have "block_ok so (submitted_block so p)"
      using inv by (intro submitted_block_ok[OF so p len]) (simp add: node_inv_def disk_inv_def)
    with inv a show ?thesis
      unfolding node_inv_def
      using pool_inv_on_create_block[OF _ b] history_inv_add_block[OF _ a]
        disk_inv_add_block[OF L(1) so _ room _ a] by blast
  qed
qed

lemma restart_identity:
  assumes L: "leveldb_ok L contents" "db_reliable L" and so: "sodium_ok so"
    and inv: "node_inv so contents c"
    and o: "opened ''blocks'' = Inr (blocks_db c)" "opened ''pool'' = Inr (pool_db c)"
    and r: "Chain_init so L opened = Inr c'"
  shows "c' = c"
proof -
  obtain addr where addr: "GENESIS_ADDR so = Inr addr"
    using r by (auto simp: Chain_init_def ebind_Inr_iff)
  have scan: "db_scan L db = (fst (db_scan L db), None)" for db
    using L(2) by (metis db_reliable_def prod.collapse)
  show ?thesis
    using Chain_init_restart[OF L(1) so _ _ _ scan scan o addr] inv r by (simp add: node_inv_def)
qed

lemma node_inv_first_start:
  assumes L: "leveldb_ok L contents" "db_reliable L" and so: "sodium_ok so"
    and o: "opened ''blocks'' = Inr bdb" "opened ''pool'' = Inr pdb"
    and scans: "db_scan L bdb = ([], None)" "db_scan L pdb = ([], None)"
    and c: "Chain_init so L opened = Inr c"
  shows "node_inv so contents c"
proof -
  obtain addr where addr: "GENESIS_ADDR so = Inr addr"
    using c by (auto simp: Chain_init_def ebind_Inr_iff)
  obtain bdb' where "db_put L (block_key 0) (block_serialize_str (genesis_block so addr)) bdb = (None, bdb')"
    using L(2) by (metis db_reliable_def prod.collapse)
  from invariants_first_start(1-3)[OF L(1) so o scans addr this c] show ?thesis
    by (simp add: node_inv_def)
qed

end
