(* ===== verification/Web.thy ===== *)
theory Web
  imports Node
begin

text \<open>
  \<^verbatim>\<open>include/axis/web.h\<close> and \<^verbatim>\<open>src/web.cpp\<close>: the HTTP and WebSocket server. A route is a function from
  its request parameters and the chain to the response; \<open>api_transaction\<close> also changes the chain, and
  the WebSocket handlers change the set of open connections. Crow (routing, threads, sockets, parsing
  of the request body) and the text form of JSON are not part of the repository: a handler takes what
  Crow hands it, and a reply keeps its JSON value.
\<close>

section \<open>JSON and responses\<close>

text \<open>
  The values the server builds. All integers in replies are unsigned; \<open>JDouble a b\<close> is the quotient of
  two integers converted to \<^verbatim>\<open>double\<close>. An object lists its members in the order they are written.
\<close>

datatype json =
    JNull
  | JBool bool
  | JNum nat
  | JDouble u64 u64
  | JString string
  | JArray "json list"
  | JObject "(string \<times> json) list"

record http_response =
  status :: nat
  body :: json
  headers :: "(string \<times> string) list"

definition json_response :: "nat \<Rightarrow> json \<Rightarrow> http_response" where
  "json_response code j =
     \<lparr>status = code, body = j,
      headers = [(''Content-Type'', ''application/json''),
                 (''Access-Control-Allow-Origin'', ''*''),
                 (''Access-Control-Allow-Methods'', ''GET, POST, OPTIONS''),
                 (''Access-Control-Allow-Headers'', ''Content-Type, X-API-Key'')]\<rparr>"

definition error_response :: "nat \<Rightarrow> string \<Rightarrow> http_response" where
  "error_response code message =
     json_response code (JObject [(''error'', JString message), (''code'', JNum code)])"

lemma response_simps [simp]:
  "status (json_response code j) = code" "body (json_response code j) = j"
  "status (error_response code m) = code"
  by (simp_all add: json_response_def error_response_def)


section \<open>Constants\<close>

definition kDefaultBlockCount :: u32 where "kDefaultBlockCount = 10"
definition kMaxBlockCount :: u32 where "kMaxBlockCount = 100"
definition kMaxRawTxHexChars :: nat where "kMaxRawTxHexChars = 128 * 1024"
definition kOutPointSize :: nat where "kOutPointSize = 36"
definition kTxOutputSize :: nat where "kTxOutputSize = 28"
definition kTxFixedOverhead :: nat where "kTxFixedOverhead = 48"
definition kBlockHeaderSize :: nat where "kBlockHeaderSize = 80"

lemmas size_constants =
  kOutPointSize_def kTxOutputSize_def kTxFixedOverhead_def kBlockHeaderSize_def


section \<open>Parsing\<close>

text \<open>
  \<^verbatim>\<open>std::from_chars\<close> on a \<^verbatim>\<open>uint64_t\<close>: the longest prefix of digits, without a sign; \<open>None\<close> is an error
  (no digit, or out of range), otherwise the value and the characters left.
\<close>

definition is_digit :: "char \<Rightarrow> bool" where
  "is_digit ch \<longleftrightarrow> 48 \<le> (of_char ch :: nat) \<and> (of_char ch :: nat) \<le> 57"

definition digits_value :: "string \<Rightarrow> nat" where
  "digits_value s = foldl (\<lambda>v ch. 10 * v + (of_char ch - 48)) 0 s"

definition from_chars :: "string \<Rightarrow> (u64 \<times> string) option" where
  "from_chars s =
     (let ds = takeWhile is_digit s
      in if ds = [] \<or> digits_value ds \<ge> 2 ^ 64 then None
         else Some (word_of_nat (digits_value ds), dropWhile is_digit s))"

definition parse_u32 :: "string \<Rightarrow> u32 option" where
  "parse_u32 txt =
     (if txt = [] then None
      else case from_chars txt of
             None \<Rightarrow> None
           | Some (v, rest) \<Rightarrow> if rest \<noteq> [] \<or> v > 0xFFFFFFFF then None else Some (ucast v))"

definition hex_to_bytes :: "sodium \<Rightarrow> string \<Rightarrow> exn + bytes" where
  "hex_to_bytes so hex =
     (if length hex mod 2 \<noteq> 0
      then Inl (Runtime_error ''hex input must contain an even number of characters'')
      else if length hex div 2 = 0 then Inr []
      else case hex2bin so (length hex div 2) hex of
             None \<Rightarrow> Inl (Runtime_error ''invalid hex data'')
           | Some bs \<Rightarrow>
               if length bs \<noteq> length hex div 2 then Inl (Runtime_error ''invalid hex data'')
               else Inr bs)"

definition parse_signed_transaction_payload :: "sodium \<Rightarrow> bytes \<Rightarrow> exn + signed_transaction" where
  "parse_signed_transaction_payload so payload =
     ebind (take_pk (mk_reader payload)) (\<lambda>(pubkey, r1).
     ebind (take_u64 r1) (\<lambda>(ts, r2).
     ebind (take_counted take_outpoint r2) (\<lambda>(ins, r3).
     ebind (take_counted take_txoutput r3) (\<lambda>(outs, r4).
     ebind (take_sig r4) (\<lambda>(sig, r).
       if roffset r \<noteq> length (rdata r)
       then Inl (Runtime_error ''trailing bytes after transaction payload'')
       else Inr \<lparr>st_tx = mk_transaction so ins outs ts, st_pubkey = pubkey, st_sig = sig\<rparr>)))))"

fun tx_error_to_string :: "tx_error \<Rightarrow> string" where
  "tx_error_to_string TxError_None = ''accepted''"
| "tx_error_to_string TxError_InvalidPayload = ''invalid payload''"
| "tx_error_to_string TxError_BadPubkey = ''bad public key''"
| "tx_error_to_string TxError_ZeroAmount = ''zero amount''"
| "tx_error_to_string TxError_BadOwnership = ''ownership failed''"
| "tx_error_to_string TxError_BadSignature = ''bad signature''"
| "tx_error_to_string TxError_Duplicate = ''duplicate''"
| "tx_error_to_string TxError_InputSpent = ''input spent''"
| "tx_error_to_string TxError_Internal = ''internal error''"


section \<open>JSON forms\<close>

definition outpoint_json :: "sodium \<Rightarrow> outpoint \<Rightarrow> json" where
  "outpoint_json so op = JObject
     [(''txid'', JString (to_hex so (op_txid op))), (''index'', JNum (unat (op_index op))),
      (''size'', JNum kOutPointSize)]"

definition output_json :: "sodium \<Rightarrow> txoutput \<Rightarrow> json" where
  "output_json so out = JObject
     [(''recipient'', JString (to_hex so (recipient out))), (''amount'', JNum (unat (amount out))),
      (''size'', JNum kTxOutputSize)]"

definition tx_size :: "transaction \<Rightarrow> nat" where
  "tx_size tx = kTxFixedOverhead + kOutPointSize * length (inputs tx) + kTxOutputSize * length (outputs tx)"

definition transaction_json :: "sodium \<Rightarrow> transaction \<Rightarrow> json" where
  "transaction_json so tx = JObject
     [(''txid'', JString (to_hex so (txid tx))), (''timestamp'', JNum (unat (tx_timestamp tx))),
      (''coinbase'', JBool (is_coinbase tx)), (''size'', JNum (tx_size tx)),
      (''inputs'', JArray (map (outpoint_json so) (inputs tx))),
      (''outputs'', JArray (map (output_json so) (outputs tx)))]"

definition block_serialized_size :: "block \<Rightarrow> nat" where
  "block_serialized_size blk =
     foldl (\<lambda>s tx. s + (4 + tx_size tx)) (kBlockHeaderSize + 4) (transactions blk)"

text \<open>A \<^verbatim>\<open>json\<close> that nothing was pushed onto is \<open>null\<close>.\<close>

definition block_summary_json :: "sodium \<Rightarrow> block \<Rightarrow> u32 \<Rightarrow> json" where
  "block_summary_json so blk h =
     (let txs_json = (if transactions blk = [] then JNull
                      else JArray (map (transaction_json so) (transactions blk)))
      in JObject
        [(''height'', JNum (unat h)), (''hash'', JString (to_hex so (block_hash blk))),
         (''previousHash'', JString (to_hex so (prev_hash (header blk)))),
         (''merkleRoot'', JString (to_hex so (merkle_root (header blk)))),
         (''timestamp'', JNum (unat (hd_timestamp (header blk)))),
         (''nonce'', JNum (unat (nonce (header blk)))),
         (''transactionCount'', JNum (length (transactions blk))),
         (''transactions'', txs_json), (''size'', JNum (block_serialized_size blk))])"

definition block_json :: "sodium \<Rightarrow> block \<Rightarrow> u32 \<Rightarrow> json" where
  "block_json so blk h = JObject
     [(''height'', JNum (unat h)), (''hash'', JString (to_hex so (block_hash blk))),
      (''previousHash'', JString (to_hex so (prev_hash (header blk)))),
      (''merkleRoot'', JString (to_hex so (merkle_root (header blk)))),
      (''timestamp'', JNum (unat (hd_timestamp (header blk)))),
      (''nonce'', JNum (unat (nonce (header blk)))),
      (''size'', JNum (block_serialized_size blk)),
      (''txids'', JArray (map (\<lambda>tx. JString (to_hex so (txid tx))) (transactions blk))),
      (''transactions'', JArray (map (transaction_json so) (transactions blk)))]"

definition event_new_tx_json :: "sodium \<Rightarrow> transaction \<Rightarrow> json" where
  "event_new_tx_json so tx = JObject
     [(''type'', JString ''new_tx''), (''txid'', JString (to_hex so (txid tx))),
      (''size'', JNum (tx_size tx)), (''transaction'', transaction_json so tx)]"

definition event_new_block_json :: "sodium \<Rightarrow> block \<Rightarrow> json" where
  "event_new_block_json so blk = JObject
     [(''type'', JString ''new_block''), (''hash'', JString (to_hex so (block_hash blk))),
      (''timestamp'', JNum (unat (hd_timestamp (header blk)))),
      (''transactionCount'', JNum (length (transactions blk))),
      (''size'', JNum (block_serialized_size blk))]"


section \<open>Routes that read the chain\<close>

text \<open>
  A handler that asks the chain several times may see another thread's changes in between, so the chain each
  call sees is a parameter of its own.
\<close>

definition api_status :: "sodium \<Rightarrow> 'db chain \<Rightarrow> 'db chain \<Rightarrow> 'db chain \<Rightarrow> http_response" where
  "api_status so c1 c2 c3 = json_response 200 (JObject
     [(''status'', JString ''online''), (''version'', JString ''0.1''),
      (''blockHeight'', JNum (unat (height c1))),
      (''difficulty'', JNum (unat (get_difficulty c2))),
      (''tipHash'', JString (to_hex so (tip_hash c3)))])"

definition api_tip :: "sodium \<Rightarrow> 'db chain \<Rightarrow> 'db chain \<Rightarrow> http_response" where
  "api_tip so c1 c2 =
     (let h = height c1
      in if h = 0 then error_response 404 ''chain is empty''
         else json_response 200 (block_json so (tip c2) (h - 1)))"

definition api_block :: "sodium \<Rightarrow> string \<Rightarrow> 'db chain \<Rightarrow> http_response" where
  "api_block so block_id c =
     (case parse_u32 block_id of
        Some h \<Rightarrow>
          (case get_block h c of
             None \<Rightarrow> error_response 404 ''block not found''
           | Some blk \<Rightarrow> json_response 200 (block_json so blk h))
      | None \<Rightarrow>
          (case from_hex so 32 block_id of
             Inl e \<Rightarrow> error_response 400 ''block id must be a height or 32-byte hex hash''
           | Inr hash \<Rightarrow>
               (case get_block_by_hash hash c of
                  None \<Rightarrow> error_response 404 ''block not found''
                | Some (h, blk) \<Rightarrow> json_response 200 (block_json so blk h))))"

text \<open>The query parameters are \<open>None\<close> when the request does not give them.\<close>

definition query_u32 :: "u32 \<Rightarrow> string option \<Rightarrow> u32 option" where
  "query_u32 initial param = (case param of None \<Rightarrow> Some initial | Some value \<Rightarrow> parse_u32 value)"

definition summaries_json :: "sodium \<Rightarrow> u32 \<Rightarrow> block list \<Rightarrow> json list" where
  "summaries_json so start blks =
     map (\<lambda>i. block_summary_json so (blks ! i) (start + word_of_nat i)) [0..<length blks]"

definition api_blocks ::
    "sodium \<Rightarrow> string option \<Rightarrow> string option \<Rightarrow> 'db chain \<Rightarrow> 'db chain \<Rightarrow> http_response" where
  "api_blocks so start_param count_param c1 c2 =
     (case query_u32 0 start_param of
        None \<Rightarrow> error_response 400 ''start must be an unsigned integer''
      | Some start \<Rightarrow>
          (case query_u32 kDefaultBlockCount count_param of
             None \<Rightarrow> error_response 400 ''count must be an unsigned integer''
           | Some count \<Rightarrow>
               let blks = get_blocks start (min count kMaxBlockCount) c1
               in json_response 200 (JObject
                    [(''blocks'', JArray (summaries_json so start blks)),
                     (''total'', JNum (unat (height c2)))])))"

definition api_mempool ::
    "sodium \<Rightarrow> (hash, transaction) map_iter \<Rightarrow> 'db chain \<Rightarrow> http_response" where
  "api_mempool so iter c =
     (let txs = get_pool_txs iter c
      in json_response 200 (JObject
           [(''size'', JNum (length txs)),
            (''txids'', JArray (map (\<lambda>tx. JString (to_hex so (txid tx))) txs)),
            (''transactions'', JArray (map (transaction_json so) txs))]))"

text \<open>\<^verbatim>\<open>utxos_handler\<close>; an exception of \<^verbatim>\<open>get_utxos\<close> is not caught here.\<close>

definition utxo_json :: "sodium \<Rightarrow> outpoint \<times> u64 \<Rightarrow> json" where
  "utxo_json so p = JObject
     [(''txid'', JString (to_hex so (op_txid (fst p)))), (''index'', JNum (unat (op_index (fst p)))),
      (''amount'', JNum (unat (snd p))), (''size'', JNum kOutPointSize)]"

definition utxos_handler :: "sodium \<Rightarrow> string \<Rightarrow> 'db chain \<Rightarrow> exn + http_response" where
  "utxos_handler so address_hex c =
     (case from_hex so 20 address_hex of
        Inl e \<Rightarrow> Inr (error_response 400 ''address must be a 20-byte hex value'')
      | Inr address \<Rightarrow>
          ebind (get_utxos address [] c) (\<lambda>utxos.
            let balance = foldl (\<lambda>b p. b + snd p) (0 :: u64) utxos
            in Inr (json_response 200 (JObject
                 [(''address'', JString (to_hex so address)),
                  (''utxos'', JArray (map (utxo_json so) utxos)),
                  (''balance'', JNum (unat balance))]))))"


section \<open>Submitting a transaction\<close>

text \<open>
  The request body as Crow parses it: \<open>None\<close> when it is not JSON, otherwise an object with its members, of
  which only strings are told apart from other values, or a value of another kind, with the exception that
  Crow's \<^verbatim>\<open>has\<close> throws for it, if it throws. The result is the response and the transaction to broadcast, or an
  exception that leaves the handler, and the new chain. Only \<^verbatim>\<open>has\<close> is outside the \<^verbatim>\<open>try\<close>.
\<close>

datatype crow_value = Crow_String string | Crow_Other

datatype crow_body = Crow_object "string \<Rightarrow> crow_value option" | Crow_not_object "exn option"

definition submit_raw_tx ::
    "sodium \<Rightarrow> 'db leveldb \<Rightarrow> string \<Rightarrow> 'db chain \<Rightarrow>
     (exn + http_response \<times> transaction option) \<times> 'db chain" where
  "submit_raw_tx so L raw_tx c =
     (case ebind (hex_to_bytes so raw_tx) (parse_signed_transaction_payload so) of
        Inl e \<Rightarrow> (Inl e, c)
      | Inr signed_tx \<Rightarrow>
          (case add_tx so L signed_tx c of
             (Inl e, c') \<Rightarrow> (Inl e, c')
           | (Inr err, c') \<Rightarrow>
               if err \<noteq> TxError_None
               then (Inr (error_response 400 (tx_error_to_string err), None), c')
               else (Inr (json_response 200 (JObject
                            [(''txid'', JString (to_hex so (txid (st_tx signed_tx)))),
                             (''status'', JString ''submitted'')]),
                          Some (st_tx signed_tx)), c')))"

definition api_transaction ::
    "sodium \<Rightarrow> 'db leveldb \<Rightarrow> crow_body option \<Rightarrow> 'db chain \<Rightarrow>
     (exn + http_response \<times> transaction option) \<times> 'db chain" where
  "api_transaction so L request c =
     (let no_field = (Inr (error_response 400 ''request body must include string field rawTx'', None), c)
      in case request of
           None \<Rightarrow> no_field
         | Some (Crow_not_object (Some e)) \<Rightarrow> (Inl e, c)
         | Some (Crow_not_object None) \<Rightarrow> no_field
         | Some (Crow_object members) \<Rightarrow>
             (case members ''rawTx'' of
                Some (Crow_String raw_tx) \<Rightarrow>
                  if length raw_tx > kMaxRawTxHexChars
                  then (Inr (error_response 413 ''rawTx payload is too large'', None), c)
                  else (case submit_raw_tx so L raw_tx c of
                          (Inl e, c') \<Rightarrow> (Inr (error_response 400 (what e), None), c')
                        | (Inr r, c') \<Rightarrow> (Inr r, c'))
              | _ \<Rightarrow> no_field))"

definition api_options :: http_response where
  "api_options = json_response 204 JNull"


section \<open>WebSocket\<close>

text \<open>
  The open connections, and the texts sent: a literal of the source or the text of a JSON value. A
  handler returns the new set and the messages, each with its connection.
\<close>

datatype ws_text = Ws_literal string | Ws_json json

definition ws_connected :: string where "ws_connected = ''{\"type\":\"connected\"}''"
definition ws_ping :: string where "ws_ping = ''{\"type\":\"ping\"}''"
definition ws_pong :: string where "ws_pong = ''{\"type\":\"pong\"}''"

definition ws_open :: "'conn \<Rightarrow> 'conn set \<Rightarrow> 'conn set \<times> ('conn \<times> ws_text) set" where
  "ws_open conn conns = (insert conn conns, {(conn, Ws_literal ws_connected)})"

definition ws_close :: "'conn \<Rightarrow> 'conn set \<Rightarrow> 'conn set" where
  "ws_close conn conns = conns - {conn}"

definition ws_message :: "'conn \<Rightarrow> string \<Rightarrow> bool \<Rightarrow> ('conn \<times> ws_text) set" where
  "ws_message conn message is_binary =
     (if is_binary then {}
      else if message = ''ping'' \<or> message = ws_ping then {(conn, Ws_literal ws_pong)}
      else {})"

definition broadcast_text :: "ws_text \<Rightarrow> 'conn set \<Rightarrow> ('conn \<times> ws_text) set" where
  "broadcast_text message conns = (\<lambda>conn. (conn, message)) ` conns"

definition broadcast_new_tx :: "sodium \<Rightarrow> transaction \<Rightarrow> 'conn set \<Rightarrow> ('conn \<times> ws_text) set" where
  "broadcast_new_tx so tx = broadcast_text (Ws_json (event_new_tx_json so tx))"

definition broadcast_new_block :: "sodium \<Rightarrow> block \<Rightarrow> 'conn set \<Rightarrow> ('conn \<times> ws_text) set" where
  "broadcast_new_block so blk = broadcast_text (Ws_json (event_new_block_json so blk))"

end
