(* ===== verification/Charts.thy ===== *)
theory Charts
  imports Web
begin

text \<open>
  The route \<^verbatim>\<open>/api/charts\<close> of \<^verbatim>\<open>src/web.cpp\<close>, a summary of the last blocks for explorers. All times are
  64-bit words and the code subtracts without looking at their order, so the model keeps the words.
  The route reads the clock once per chart; the times are parameters. It reads the height once and
  then asks for blocks one at a time, so a chart takes the height and the answers to these questions.
\<close>

section \<open>Hours\<close>

definition kHour :: u64 where "kHour = 3600"

definition hour_of :: "u64 \<Rightarrow> u64" where
  "hour_of t = t - (t mod kHour)"

text \<open>
  The loop over the slots, from the first to \<open>current_hour\<close> in steps of an hour. It need not
  end when the counter wraps around, so it is an option.
\<close>

partial_function (option) hour_slots :: "u64 \<Rightarrow> u64 \<Rightarrow> u64 list option" where
  "hour_slots h current_hour =
     (if h \<le> current_hour
      then Option.bind (hour_slots (h + kHour) current_hour) (\<lambda>slots. Some (h # slots))
      else Some [])"

definition chart_slots :: "u64 \<Rightarrow> u64 list option" where
  "chart_slots now = hour_slots (hour_of now - 23 * kHour) (hour_of now)"

text \<open>\<^verbatim>\<open>strftime("%H:%M")\<close> of \<^verbatim>\<open>gmtime_r\<close>; \<^verbatim>\<open>time_t\<close> is a signed 64-bit integer.\<close>

definition hour_minute :: "u64 \<Rightarrow> string" where
  "hour_minute h =
     (let t = sint h in two_digits (t div 3600 mod 24) @ '':'' @ two_digits (t div 60 mod 60))"

definition block_hour :: "block \<Rightarrow> u64" where
  "block_hour blk = hour_of (hd_timestamp (header blk))"

text \<open>The blocks below the height, as the loops meet them.\<close>

type_synonym lookup = "u32 \<Rightarrow> block option"

definition chart_blocks :: "nat \<Rightarrow> u32 \<Rightarrow> lookup \<Rightarrow> block list" where
  "chart_blocks from n look =
     concat (map (\<lambda>h. case look (word_of_nat h) of None \<Rightarrow> [] | Some blk \<Rightarrow> [blk]) [from..<unat n])"


section \<open>Blocks over time\<close>

definition in_window :: "u64 \<Rightarrow> block \<Rightarrow> bool" where
  "in_window now blk \<longleftrightarrow> block_hour blk > hour_of now - 23 * kHour"

text \<open>\<^verbatim>\<open>hour_counts\<close>: a missing entry of the \<^verbatim>\<open>std::map\<close> reads as 0.\<close>

definition count_block :: "u64 \<Rightarrow> block \<Rightarrow> (u64 \<Rightarrow> u32) \<Rightarrow> (u64 \<Rightarrow> u32)" where
  "count_block now blk m =
     (if in_window now blk then m(block_hour blk := m (block_hour blk) + 1) else m)"

definition hour_counts :: "u64 \<Rightarrow> u32 \<Rightarrow> lookup \<Rightarrow> (u64 \<Rightarrow> u32)" where
  "hour_counts now n look = fold (count_block now) (chart_blocks 0 n look) (\<lambda>_. 0)"

definition blocks_over_time :: "u64 \<Rightarrow> u32 \<Rightarrow> lookup \<Rightarrow> json list option" where
  "blocks_over_time now n look =
     (if n > 0
      then map_option (map (\<lambda>h. JObject
             [(''time'', JString (hour_minute h)), (''blocksMined'', JNum (unat (hour_counts now n look h)))]))
             (chart_slots now)
      else Some [])"


section \<open>Transactions per block\<close>

definition relative_time :: "u64 \<Rightarrow> string" where
  "relative_time dt =
     (if dt < 60 then nat_to_string (unat dt) @ ''s ago''
      else if dt < 3600 then nat_to_string (unat (dt div 60)) @ ''m ago''
      else nat_to_string (unat (dt div 3600)) @ ''h ago'')"

definition recent_start :: "u32 \<Rightarrow> u32 \<Rightarrow> u32" where
  "recent_start k n = (if n > k then n - k else 0)"

definition tx_per_block :: "u64 \<Rightarrow> u32 \<Rightarrow> lookup \<Rightarrow> json list" where
  "tx_per_block now n look =
     concat (map (\<lambda>h. case look (word_of_nat h) of
         None \<Rightarrow> []
       | Some blk \<Rightarrow>
           [JObject [(''blockHeight'', JString (''#'' @ nat_to_string h)),
                     (''txCount'', JNum (length (transactions blk))),
                     (''time'', JString (relative_time (now - hd_timestamp (header blk))))]])
       [unat (recent_start 20 n)..<unat n])"


section \<open>Average block size\<close>

definition add_size :: "u64 \<Rightarrow> block \<Rightarrow> (u64 \<Rightarrow> u64 \<times> u32) \<Rightarrow> (u64 \<Rightarrow> u64 \<times> u32)" where
  "add_size now blk m =
     (if in_window now blk
      then m(block_hour blk :=
               (fst (m (block_hour blk)) + word_of_nat (block_serialized_size blk),
                snd (m (block_hour blk)) + 1))
      else m)"

definition hour_sizes :: "u64 \<Rightarrow> u32 \<Rightarrow> lookup \<Rightarrow> (u64 \<Rightarrow> u64 \<times> u32)" where
  "hour_sizes now n look = fold (add_size now) (chart_blocks 0 n look) (\<lambda>_. (0, 0))"

definition average_size :: "u64 \<times> u32 \<Rightarrow> u64" where
  "average_size p = (if snd p > 0 then fst p div ucast (snd p) else 0)"

definition avg_block_size :: "u64 \<Rightarrow> u32 \<Rightarrow> lookup \<Rightarrow> json list option" where
  "avg_block_size now n look =
     (if n > 0
      then map_option (map (\<lambda>h. JObject
             [(''time'', JString (hour_minute h)),
              (''avgSize'', JNum (unat (average_size (hour_sizes now n look h))))]))
             (chart_slots now)
      else Some [])"


section \<open>Network activity\<close>

text \<open>
  The loop from the tip downwards, which stops at the first block older than the window. The two sums
  before it in the code, \<^verbatim>\<open>total_tx\<close> and \<^verbatim>\<open>time_span\<close>, are not used.
\<close>

primrec recent_txs :: "u64 \<Rightarrow> u64 \<Rightarrow> lookup \<Rightarrow> nat \<Rightarrow> u64" where
  "recent_txs now secs look 0 = 0"
| "recent_txs now secs look (Suc h) =
     (case look (word_of_nat h) of
        None \<Rightarrow> recent_txs now secs look h
      | Some blk \<Rightarrow>
          if now - hd_timestamp (header blk) > secs then 0
          else word_of_nat (length (transactions blk)) + recent_txs now secs look h)"

text \<open>The three windows ask for the blocks anew.\<close>

definition network_activity :: "u64 \<Rightarrow> u32 \<Rightarrow> (nat \<Rightarrow> lookup) \<Rightarrow> json list" where
  "network_activity now n looks =
     map (\<lambda>(i, label, secs). JObject
            [(''time'', JString label), (''tps'', JDouble (recent_txs now secs (looks i) (unat n)) secs)])
         [(0, ''1m ago'', 60), (1, ''5m ago'', 300), (2, ''1h ago'', 3600)]"


section \<open>The route\<close>

text \<open>
  Each question may meet another chain: \<open>c\<close> is the chain when the height is read, \<open>cs p h\<close> the one when loop \<open>p\<close> asks
  for the block at height \<open>h\<close>. Loops 0 to 2 are those of the first three charts, 3 to 5 the windows.
\<close>

definition api_charts ::
    "u64 \<Rightarrow> u64 \<Rightarrow> u64 \<Rightarrow> u64 \<Rightarrow> 'db chain \<Rightarrow> (nat \<Rightarrow> u32 \<Rightarrow> 'db chain) \<Rightarrow> http_response option" where
  "api_charts now1 now2 now3 now4 c cs =
     (let n = height c; look = (\<lambda>p h. get_block h (cs p h))
      in case blocks_over_time now1 n (look 0) of
        None \<Rightarrow> None
      | Some over_time \<Rightarrow>
          (case avg_block_size now3 n (look 2) of
             None \<Rightarrow> None
           | Some avg \<Rightarrow>
               Some (json_response 200 (JObject
                 [(''blocksOverTime'', JArray over_time), (''txPerBlock'', JArray (tx_per_block now2 n (look 1))),
                  (''avgBlockSize'', JArray avg),
                  (''networkActivity'', JArray (network_activity now4 n (\<lambda>i. look (3 + i))))]))))"

end
