(* ===== verification/Web_Facts.thy ===== *)
theory Web_Facts
  imports Charts
begin

text \<open>
  Facts about the HTTP server: its number parser, its size formulas against the encoders of the node,
  the agreement of the HTTP and the TCP submission of a transaction, and the charts.
\<close>

section \<open>Numbers\<close>

lemma digits_value_snoc: "digits_value (s @ [ch]) = 10 * digits_value s + (of_char ch - 48)"
  by (simp add: digits_value_def)

lemma of_char_digit_char: "d < 10 \<Longrightarrow> of_char (digit_char d) = 48 + d"
  by (simp add: digit_char_def)

lemma is_digit_digit_char: "d < 10 \<Longrightarrow> is_digit (digit_char d)"
  by (simp add: is_digit_def of_char_digit_char)

lemma nat_to_string_digits:
  "nat_to_string n \<noteq> [] \<and> list_all is_digit (nat_to_string n) \<and> digits_value (nat_to_string n) = n"
proof (induction n rule: less_induct)
  case (less n)
  show ?case
  proof (cases "n < 10")
    case True
    then show ?thesis
      by (simp add: nat_to_string.simps[of n] is_digit_digit_char digits_value_def of_char_digit_char)
  next
    case False
    with less[of "n div 10"] show ?thesis
      by (simp add: nat_to_string.simps[of n] is_digit_digit_char digits_value_snoc of_char_digit_char)
  qed
qed

lemma takeWhile_all: "list_all P s \<Longrightarrow> takeWhile P s = s"
  by (simp add: takeWhile_eq_all_conv list_all_iff)

lemma from_chars_all_iff:
  "from_chars s = Some (v, []) \<longleftrightarrow>
     s \<noteq> [] \<and> list_all is_digit s \<and> digits_value s < 2 ^ 64 \<and> v = word_of_nat (digits_value s)"
  by (auto simp: from_chars_def Let_def dropWhile_eq_Nil_conv takeWhile_all list_all_iff not_le
      split: if_splits) 

lemma parse_u32_Some_iff:
  "parse_u32 s = Some n \<longleftrightarrow> s \<noteq> [] \<and> list_all is_digit s \<and> digits_value s = unat n"
proof -
  have "parse_u32 s = Some n \<longleftrightarrow>
      (\<exists>v. from_chars s = Some (v, []) \<and> \<not> v > 0xFFFFFFFF \<and> n = ucast v)"
    by (auto simp: parse_u32_def from_chars_def Let_def split: option.splits if_splits prod.splits)
  also have "\<dots> \<longleftrightarrow> s \<noteq> [] \<and> list_all is_digit s \<and> digits_value s < 2 ^ 64 \<and>
      \<not> (word_of_nat (digits_value s) :: u64) > 0xFFFFFFFF \<and>
      n = ucast (word_of_nat (digits_value s) :: u64)"
    by (auto simp: from_chars_all_iff)
  also have "\<dots> \<longleftrightarrow> s \<noteq> [] \<and> list_all is_digit s \<and> digits_value s = unat n"
  proof -
    have "digits_value s < 2 ^ 64 \<and> \<not> (word_of_nat (digits_value s) :: u64) > 0xFFFFFFFF \<and>
        n = ucast (word_of_nat (digits_value s) :: u64) \<longleftrightarrow> digits_value s = unat n" (is "?l = ?r")
    proof
      assume ?l
      then have "unat (word_of_nat (digits_value s) :: u64) = digits_value s"
        by (simp add: unat_of_nat)
      with \<open>?l\<close> have "digits_value s < 2 ^ 32" by (simp add: word_less_nat_alt)
      with \<open>?l\<close> show ?r by (simp add: unsigned_ucast_eq unsigned_of_nat take_bit_eq_mod)
    next
      assume r: ?r
      have "unat n < 2 ^ 32" using unsigned_less[of n] by simp
      have w: "(word_of_nat (unat n) :: u64) = ucast n" by simp
      have "unat (ucast n :: u64) = unat n"
        using \<open>unat n < 2 ^ 32\<close> by (simp add: unsigned_ucast_eq take_bit_eq_mod)
      moreover have "(ucast (ucast n :: u64) :: u32) = n"
        by transfer simp
      ultimately show ?l
        using \<open>unat n < 2 ^ 32\<close> unfolding r w by (simp add: word_less_nat_alt)
    qed
    then show ?thesis by blast
  qed
  finally show ?thesis .
qed

lemma parse_u32_nat_to_string: "n < 2 ^ 32 \<Longrightarrow> parse_u32 (nat_to_string n) = Some (word_of_nat n)"
  using nat_to_string_digits[of n] by (simp add: parse_u32_Some_iff unat_of_nat)


section \<open>Sizes\<close>

lemma tx_size_serialized: "tx_ok tx \<Longrightarrow> tx_size tx = length (tx_serialize_str tx)"
  by (simp add: tx_size_def size_constants length_tx_serialize)

lemma foldl_sum: "foldl (\<lambda>s x. s + f x) a xs = a + (\<Sum>x \<leftarrow> xs. (f x :: nat))"
  by (induction xs arbitrary: a) simp_all

lemma block_serialized_size_exact:
  assumes "block_ok so blk"
  shows "block_serialized_size blk = length (block_serialize_str blk)"
proof -
  have "map (\<lambda>tx. 4 + tx_size tx) (transactions blk) =
      map (\<lambda>tx. 4 + length (tx_serialize_str tx)) (transactions blk)"
    using assms by (auto simp: block_ok_def list_all_iff framed_ok_def tx_size_serialized)
  then show ?thesis
    unfolding block_serialized_size_def foldl_sum length_block_serialize[OF assms] size_constants
    by (simp only:)
qed


section \<open>Submitting over HTTP and over TCP\<close>

lemma tx_error_strings_agree: "tx_error_to_string e = tx_error_str e"
  by (cases e) simp_all

text \<open>The HTTP parser is the TCP parser with the trailing bytes refused.\<close>

lemma parse_signed_take:
  "parse_signed_transaction_payload so payload =
     ebind (take_create_tx (mk_reader payload)) (\<lambda>(p, r).
       if roffset r \<noteq> length (rdata r)
       then Inl (Runtime_error ''trailing bytes after transaction payload'')
       else Inr (submitted_tx so p))"
  by (simp add: parse_signed_transaction_payload_def take_create_tx_def pbind_def preturn_def
      submitted_tx_def ebind_def split: sum.split prod.split)


lemma roffset_take_create_tx:
  assumes "take_create_tx (mk_reader payload) = Inr (p, r)"
  shows "roffset r = length (rdata r) \<longleftrightarrow> payload = put_create_tx p []"
proof -
  obtain rest where p: "create_tx_ok p" "payload = put_create_tx p [] @ rest"
    and r: "r = skip (length (put_create_tx p [])) (mk_reader payload)"
    using create_tx.get_sound[OF assms] by auto
  then show ?thesis by (simp add: skip_def mk_reader_def)
qed

lemma parse_signed_iff:
  "parse_signed_transaction_payload so payload = Inr st \<longleftrightarrow>
     (\<exists>p. create_tx_ok p \<and> payload = put_create_tx p [] \<and> st = submitted_tx so p)"
proof
  assume "parse_signed_transaction_payload so payload = Inr st"
  then obtain p r where t: "take_create_tx (mk_reader payload) = Inr (p, r)"
    and "roffset r = length (rdata r)" "st = submitted_tx so p"
    by (auto simp: parse_signed_take ebind_Inr_iff split: if_splits)
  with roffset_take_create_tx[OF t] create_tx.get_sound[OF t]
  show "\<exists>p. create_tx_ok p \<and> payload = put_create_tx p [] \<and> st = submitted_tx so p" by auto
next
  assume "\<exists>p. create_tx_ok p \<and> payload = put_create_tx p [] \<and> st = submitted_tx so p"
  then obtain p where p: "create_tx_ok p" "payload = put_create_tx p []" "st = submitted_tx so p"
    by blast
  then have t: "take_create_tx (mk_reader payload) = Inr (p, skip (length payload) (mk_reader payload))"
    using create_tx.get_put[of p "mk_reader payload" "[]"] by simp
  show "parse_signed_transaction_payload so payload = Inr st"
    unfolding parse_signed_take t using roffset_take_create_tx[OF t] p(2,3) by simp
qed

lemma parse_signed_ok:
  assumes so: "sodium_ok so" and len: "length payload < 2 ^ 32"
    and p: "parse_signed_transaction_payload so payload = Inr st"
  shows "framed_ok (st_tx st)"
proof -
  obtain p where p: "create_tx_ok p" "payload = put_create_tx p []" "st = submitted_tx so p"
    using p unfolding parse_signed_iff by blast
  then have "parse_create_tx_payload payload = Inr p" by (auto simp: parse_create_tx_iff)
  from submitted_tx_ok[OF so this len] p(3) show ?thesis by simp
qed

text \<open>The chain after a submission: unchanged, or that of \<open>add_tx\<close> on a transaction that parses.\<close>

lemma hex_to_bytes_length:
  "hex_to_bytes so hex = Inr bs \<Longrightarrow> length hex = 2 * length bs"
  by (auto simp: hex_to_bytes_def split: if_splits option.splits)

definition http_submitted ::
    "sodium \<Rightarrow> 'db leveldb \<Rightarrow> 'db chain \<Rightarrow> transaction option \<Rightarrow> 'db chain \<Rightarrow> bool" where
  "http_submitted so L c tx c' \<longleftrightarrow>
     (\<exists>payload st r. length payload \<le> 65536 \<and>
        parse_signed_transaction_payload so payload = Inr st \<and> add_tx so L st c = (r, c') \<and>
        tx = (if r = Inr TxError_None then Some (st_tx st) else None))"

lemma submit_raw_tx_state:
  assumes s: "submit_raw_tx so L raw c = (q, c')" and len: "length raw \<le> kMaxRawTxHexChars"
  shows "(c' = c \<and> (\<exists>e. q = Inl e)) \<or> 
    http_submitted so L c (case q of Inl e \<Rightarrow> None | Inr rt \<Rightarrow> snd rt) c'"
proof (cases "ebind (hex_to_bytes so raw) (parse_signed_transaction_payload so)")
  case (Inl e)
  with s show ?thesis by (auto simp: submit_raw_tx_def)
next
  case (Inr st)
  then obtain payload where pl: "hex_to_bytes so raw = Inr payload"
    and st: "parse_signed_transaction_payload so payload = Inr st" by (auto simp: ebind_Inr_iff)
  obtain r c2 where a: "add_tx so L st c = (r, c2)" by fastforce
  have "c' = c2 \<and> (case q of Inl e \<Rightarrow> None | Inr rt \<Rightarrow> snd rt) =
      (if r = Inr TxError_None then Some (st_tx st) else None)"
    using s Inr a by (cases r) (auto simp: submit_raw_tx_def split: if_splits)
  moreover have "length payload \<le> 65536"
    using hex_to_bytes_length[OF pl] len by (simp add: kMaxRawTxHexChars_def)
  ultimately show ?thesis using st a unfolding http_submitted_def by blast
qed

lemma api_transaction_state:
  assumes a: "api_transaction so L request c = (Inr (res, tx), c')"
  shows "(c' = c \<and> tx = None) \<or> http_submitted so L c tx c'"
proof (cases "\<exists>members raw. request = Some (Crow_object members) \<and> members ''rawTx'' = Some (Crow_String raw)
    \<and> length raw \<le> kMaxRawTxHexChars")
  case True
  then obtain members raw where raw: "request = Some (Crow_object members)" "members ''rawTx'' = Some (Crow_String raw)"
    and len: "length raw \<le> kMaxRawTxHexChars" by blast
  obtain q c2 where q: "submit_raw_tx so L raw c = (q, c2)" by fastforce
  with a raw len have "c' = c2 \<and> tx = (case q of Inl e \<Rightarrow> None | Inr rt \<Rightarrow> snd rt)"
    by (cases q) (auto simp: api_transaction_def)
  with submit_raw_tx_state[OF q len] show ?thesis by auto
next
  case False
  with a show ?thesis
    by (auto simp: api_transaction_def Let_def split: option.splits crow_body.splits crow_value.splits if_splits)
qed

lemma api_transaction_throws: "api_transaction so L request c = (Inl e, c') \<Longrightarrow> c' = c"
  by (auto simp: api_transaction_def Let_def split: option.splits crow_body.splits crow_value.splits if_splits
      prod.splits sum.splits)



section \<open>Charts\<close>

lemma hour_slots_up:
  "unat h + 3600 * n \<le> unat cur \<Longrightarrow> unat cur < unat h + 3600 * Suc n \<Longrightarrow>
   unat cur + 3600 < 2 ^ 64 \<Longrightarrow>
   hour_slots h cur = Some (map (\<lambda>i. h + word_of_nat i * kHour) [0..<Suc n])"
proof (induction n arbitrary: h)
  case 0
  then have "unat (h + kHour) = unat h + 3600"
    by (simp add: kHour_def unat_word_ariths)
  with 0 have "\<not> h + kHour \<le> cur" "h \<le> cur" by (simp_all add: word_le_nat_alt)
  then show ?case by (simp add: hour_slots.simps[of h] hour_slots.simps[of "h + kHour"])
next
  case (Suc n)
  then have u: "unat (h + kHour) = unat h + 3600"
    by (simp add: kHour_def unat_word_ariths)
  have "hour_slots (h + kHour) cur = Some (map (\<lambda>i. h + kHour + word_of_nat i * kHour) [0..<Suc n])"
    using Suc.prems u by (intro Suc.IH) simp_all
  moreover have "h \<le> cur" using Suc.prems by (simp add: word_le_nat_alt)
  moreover have "map (\<lambda>i. h + word_of_nat i * kHour) [0..<Suc (Suc n)] =
      h # map (\<lambda>i. h + kHour + word_of_nat i * kHour) [0..<Suc n]"
    by (subst upt_conv_Cons, simp) (simp add: map_Suc_upt[symmetric] del: upt_Suc, simp add: algebra_simps)
  ultimately show ?case by (simp add: hour_slots.simps[of h] del: upt_Suc)
qed

lemma chart_slots_24:
  assumes "23 * 3600 \<le> unat (hour_of now)" "unat (hour_of now) + 3600 < 2 ^ 64"
  shows "chart_slots now =
    Some (map (\<lambda>i. hour_of now - 23 * kHour + word_of_nat i * kHour) [0..<24])"
proof -
  have "(23 * kHour :: u64) = 82800" by (simp add: kHour_def)
  moreover have "unat (hour_of now - 82800) = unat (hour_of now) - 82800"
    using assms(1) by (subst unat_sub) (simp_all add: word_le_nat_alt)
  ultimately show ?thesis
    using hour_slots_up[of "hour_of now - 23 * kHour" 23 "hour_of now"] assms
    by (simp add: chart_slots_def)
qed

text \<open>
  The counter of the loop over the hours moves by 3600 modulo \<open>2 ^ 64\<close>, so it meets every multiple of 16: 225,
  which is 3600 divided by 16, has an inverse. The loop ends when one of them is above the last hour, which
  is a multiple of 16 as well, and runs forever when that is the greatest, \<open>2 ^ 64 - 16\<close>.
\<close>

lemma hour_slots_from:
  assumes "cur < t"
  shows "\<exists>slots. hour_slots (t - of_nat k * kHour) cur = Some slots"
proof (induction k)
  case 0
  with assms show ?case by (simp add: hour_slots.simps[of t] flip: not_le)
next
  case (Suc k)
  define h where "h = t - of_nat (Suc k) * kHour"
  have "h + kHour = t - of_nat k * kHour" by (simp add: h_def algebra_simps)
  with Suc have "\<exists>slots. hour_slots h cur = Some slots" by (auto simp: hour_slots.simps[of h])
  then show ?case by (simp only: h_def)
qed

lemma inverse_225: "(225 :: u64) * 0xFEDCBA987654321 = 1"
  by simp

lemma hour_of_div: "hour_of t = t div kHour * kHour"
  by (simp add: hour_of_def minus_mod_eq_div_mult)

lemma unat_hour_of: "unat (hour_of t) = unat t div 3600 * 3600"
proof -
  have "unat t div 3600 * 3600 \<le> unat t" by simp
  then have "unat t div 3600 * 3600 < 2 ^ 64" using unat_u64_less[of t] by linarith
  then show ?thesis by (simp add: hour_of_div kHour_def unat_word_ariths unat_div)
qed

lemma hour_of_last: "hour_of t < - 16 \<longleftrightarrow> unat t < 2 ^ 64 - 16"
proof -
  have "unat t div 3600 * 3600 < 18446744073709551600 \<longleftrightarrow> unat t div 3600 < 5124095576030431" by auto
  also have "\<dots> \<longleftrightarrow> unat t < 18446744073709551600" by (simp add: div_less_iff_less_mult)
  finally show ?thesis by (simp add: word_less_nat_alt unat_hour_of)
qed

lemma chart_slots_Some:
  assumes "unat now < 2 ^ 64 - 16"
  shows "\<exists>slots. chart_slots now = Some slots"
proof -
  let ?q = "now div kHour"
  let ?w = "0xFEDCBA987654321 * (- 1 - 225 * ?q + 225 * 23) :: u64"
  have "?w * kHour = 16 * (225 * 0xFEDCBA987654321) * (- 1 - 225 * ?q + 225 * 23)"
    by (simp add: kHour_def)
  also have "\<dots> = - 16 - (hour_of now - 23 * kHour)"
    unfolding inverse_225 hour_of_div by (simp add: kHour_def algebra_simps)
  finally have "- 16 - of_nat (unat ?w) * kHour = hour_of now - 23 * kHour" by simp
  with hour_slots_from[of "hour_of now" "- 16" "unat ?w"] hour_of_last[of now] assms show ?thesis
    by (simp add: chart_slots_def)
qed

lemma hour_slots_forever:
  assumes "hour_slots h cur = Some slots"
  shows "\<not> (cur = - 16 \<and> 16 dvd unat h)"
proof (rule hour_slots.raw_induct[where P = "\<lambda>h cur _. \<not> (cur = - 16 \<and> 16 dvd unat h)", OF _ assms])
  fix f :: "u64 \<Rightarrow> u64 \<Rightarrow> u64 list option" and h cur slots
  assume IH: "\<And>h cur slots. f h cur = Some slots \<Longrightarrow> \<not> (cur = - 16 \<and> 16 dvd unat h)"
    and body: "(if h \<le> cur then Option.bind (f (h + kHour) cur) (\<lambda>slots. Some (h # slots)) else Some []) = Some slots"
  show "\<not> (cur = - 16 \<and> 16 dvd unat h)"
  proof
    assume "cur = - 16 \<and> 16 dvd unat h"
    then obtain k where cur: "cur = - 16" and k: "unat h = 16 * k" by blast
    with unat_u64_less[of h] have "k < 1152921504606846976" by simp
    with k have "unat h \<le> 18446744073709551600" by simp
    then have "h \<le> cur" by (simp add: cur word_le_nat_alt)
    with body obtain s where s: "f (h + kHour) cur = Some s"
      by (auto simp: bind_eq_Some_conv)
    have "unat (h + kHour) = (16 * (k + 225)) mod (16 * 2 ^ 60)"
      by (simp add: kHour_def unat_word_ariths k)
    also have "\<dots> = 16 * ((k + 225) mod 2 ^ 60)" by (rule mult_mod_right[symmetric])
    finally show False using IH[OF s] cur by simp
  qed
qed

lemma chart_slots_None:
  assumes "2 ^ 64 - 16 \<le> unat now"
  shows "chart_slots now = None"
proof (rule ccontr)
  assume "chart_slots now \<noteq> None"
  then obtain slots where s: "hour_slots (hour_of now - 23 * kHour) (hour_of now) = Some slots"
    by (auto simp: chart_slots_def)
  have "\<not> hour_of now < - 16" using assms by (simp add: hour_of_last)
  then have "18446744073709551600 \<le> unat (hour_of now)" by (simp add: word_less_nat_alt)
  moreover have "unat now div 3600 \<le> (2 ^ 64 - 1) div 3600"
    using unat_u64_less[of now] by (intro div_le_mono) simp
  ultimately have "unat (hour_of now) = unat (- 16 :: u64)" by (simp add: unat_hour_of)
  then have h: "hour_of now = - 16" by (simp only: word_unat_eq_iff)
  have "16 dvd unat (- 16 - 23 * kHour)" by (simp add: kHour_def)
  with hour_slots_forever[OF s] h show False by simp
qed

lemma chart_blocks_all:
  assumes h: "height c = word_of_nat (length (blocks c))" and len: "length (blocks c) < 2 ^ 32"
  shows "chart_blocks from (height c) (\<lambda>i. get_block i c) = drop from (blocks c)"
proof -
  have u: "unat (height c) = length (blocks c)"
    using len by (simp add: h unat_of_nat)
  have "get_block (word_of_nat i) c = Some (blocks c ! i)" if "i < length (blocks c)" for i
    using that len by (simp add: get_block_def unat_of_nat)
  then have "chart_blocks from (height c) (\<lambda>i. get_block i c) = concat (map (\<lambda>i. [blocks c ! i]) [from..<length (blocks c)])"
    unfolding chart_blocks_def u by (intro arg_cong[of _ _ concat] map_cong) auto
  also have "\<dots> = map (\<lambda>i. blocks c ! i) [from..<length (blocks c)]"
    by (induction "[from..<length (blocks c)]") simp_all
  also have "\<dots> = drop from (blocks c)" by (rule nth_equalityI) simp_all
  finally show ?thesis .
qed

lemma count_blocks:
  "fold (count_block now) blks m h =
     m h + (if h > hour_of now - 23 * kHour
            then word_of_nat (length (filter (\<lambda>blk. block_hour blk = h) blks)) else 0)"
  by (induction blks arbitrary: m) (auto simp: count_block_def in_window_def)

lemma hour_counts_eq:
  "hour_counts now n look h =
     (if h > hour_of now - 23 * kHour
      then word_of_nat (length (filter (\<lambda>blk. block_hour blk = h) (chart_blocks 0 n look))) else 0)"
  by (simp add: hour_counts_def count_blocks)


text \<open>A tip with a timestamp after the clock makes the difference wrap, which ends the loop at once.\<close>

lemma unat_future: "now < t \<Longrightarrow> unat (now - t) = 2 ^ 64 + unat now - unat (t :: u64)"
  by (simp add: unat_sub_if_size word_less_nat_alt word_size)

lemma recent_txs_future_tip:
  assumes h: "height c = word_of_nat (length (blocks c))" and len: "length (blocks c) < 2 ^ 32"
    and ne: "blocks c \<noteq> []" and fut: "now < hd_timestamp (header (tip c))"
    and near: "unat (hd_timestamp (header (tip c))) + unat secs < 2 ^ 64 + unat now"
  shows "recent_txs now secs (\<lambda>i. get_block i c) (unat (height c)) = 0"
proof -
  obtain n where n: "length (blocks c) = Suc n" using ne by (cases "blocks c") auto
  have "unat (word_of_nat (length (blocks c)) :: u32) = length (blocks c)"
    using len by (simp add: unat_of_nat)
  then have u: "unat (height c) = Suc n" unfolding h n .
  have "unat (word_of_nat n :: u32) = n" using len n by (simp add: unat_of_nat)
  then have "get_block (word_of_nat n) c = Some (tip c)"
    using n ne by (simp add: get_block_def tip_def last_conv_nth)
  moreover have "now - hd_timestamp (header (tip c)) > secs"
    using near fut by (simp add: word_less_nat_alt unat_future)
  ultimately show ?thesis by (simp add: u)
qed


text \<open>The charts depend on the blocks below the height only, which no other thread changes.\<close>

lemma get_block_extends:
  assumes "blocks d = blocks c @ bs" "unat h < length (blocks c)"
  shows "get_block h d = get_block h c"
  using assms by (simp add: get_block_def nth_append)

lemma word_of_nat_below: "k < unat (n :: u32) \<Longrightarrow> word_of_nat k < n"
  using unsigned_less[of n] by (simp add: word_less_nat_alt unat_of_nat)

lemma chart_blocks_cong:
  "(\<And>h. h < n \<Longrightarrow> look h = look' h) \<Longrightarrow> chart_blocks from n look = chart_blocks from n look'"
  unfolding chart_blocks_def by (intro arg_cong[of _ _ concat] map_cong refl) (simp add: word_of_nat_below)

lemma charts_cong:
  assumes "\<And>h. h < n \<Longrightarrow> look h = look' h"
  shows "blocks_over_time now n look = blocks_over_time now n look'"
    and "tx_per_block now n look = tx_per_block now n look'"
    and "avg_block_size now n look = avg_block_size now n look'"
proof -
  have "hour_counts now n look = hour_counts now n look'" "hour_sizes now n look = hour_sizes now n look'"
    using chart_blocks_cong[OF assms] by (simp_all add: hour_counts_def hour_sizes_def)
  then show "blocks_over_time now n look = blocks_over_time now n look'"
    and "avg_block_size now n look = avg_block_size now n look'"
    by (simp_all add: blocks_over_time_def avg_block_size_def)
  show "tx_per_block now n look = tx_per_block now n look'"
    unfolding tx_per_block_def
    by (intro arg_cong[of _ _ concat] map_cong refl) (simp add: assms word_of_nat_below)
qed

lemma recent_txs_cong:
  "(\<And>h. h < n \<Longrightarrow> look h = look' h) \<Longrightarrow> k \<le> unat n \<Longrightarrow> recent_txs now secs look k = recent_txs now secs look' k"
  by (induction k) (simp_all add: word_of_nat_below split: option.split)

lemma api_charts_atomic:
  assumes h: "unat (height c) \<le> length (blocks c)" and ext: "\<And>p i. \<exists>bs. blocks (cs p i) = blocks c @ bs"
  shows "api_charts now1 now2 now3 now4 c cs = api_charts now1 now2 now3 now4 c (\<lambda>_ _. c)"
proof -
  have look: "get_block i (cs p i) = get_block i c" if "i < height c" for p i
    using ext[of p i] h that by (auto simp: word_less_nat_alt intro: get_block_extends)
  show ?thesis
    using charts_cong[of "height c" "\<lambda>i. get_block i (cs _ i)" "\<lambda>i. get_block i c"]
      recent_txs_cong[of "height c" "\<lambda>i. get_block i (cs _ i)" "\<lambda>i. get_block i c"] look
    by (simp add: api_charts_def network_activity_def Let_def cong: option.case_cong)
qed

end
