(* ===== verification/Consensus.thy ===== *)
theory Consensus
  imports Node
begin

text \<open>
  What the accepted blocks have in common: they start at the genesis block, each names the hash of
  its predecessor, each after the first has the leading zero bytes of the proof of work, the Merkle
  root of its own transactions, and starts with a coinbase. Kept by every block submission. The hash of
  the tip then commits to the headers of the whole chain.
\<close>

section \<open>The invariant of the chain of blocks\<close>

definition block_sealed :: "sodium \<Rightarrow> block \<Rightarrow> bool" where
  "block_sealed so blk \<longleftrightarrow>
     cached_hash blk = header_hash so (header blk) \<and>
     merkle_root (header blk) = compute_block_merkle_root so (transactions blk) \<and>
     (\<exists>cb txs. transactions blk = cb # txs \<and> inputs cb = [] \<and> length (outputs cb) = 1)"

definition linked :: "block list \<Rightarrow> bool" where
  "linked blks \<longleftrightarrow>
     (\<forall>i. Suc i < length blks \<longrightarrow> prev_hash (header (blks ! Suc i)) = block_hash (blks ! i))"

definition proof_of_work :: "block list \<Rightarrow> bool" where
  "proof_of_work blks \<longleftrightarrow> (\<forall>blk \<in> set (tl blks). leading_zero_bytes 3 (block_hash blk))"

definition consensus_inv :: "sodium \<Rightarrow> 'db chain \<Rightarrow> bool" where
  "consensus_inv so c \<longleftrightarrow>
     (\<exists>addr. GENESIS_ADDR so = Inr addr \<and> blocks c \<noteq> [] \<and> hd (blocks c) = genesis_block so addr) \<and>
     linked (blocks c) \<and> proof_of_work (blocks c) \<and> list_all (block_sealed so) (blocks c)"

lemma linked_snoc:
  "linked (blks @ [blk]) \<longleftrightarrow>
     linked blks \<and> (blks \<noteq> [] \<longrightarrow> prev_hash (header blk) = block_hash (last blks))"
proof (cases "blks = []")
  case True
  then show ?thesis by (simp add: linked_def)
next
  case False
  have "linked (blks @ [blk]) \<longleftrightarrow>
      (\<forall>i. Suc i < Suc (length blks) \<longrightarrow>
         prev_hash (header ((blks @ [blk]) ! Suc i)) = block_hash ((blks @ [blk]) ! i))"
    by (simp add: linked_def)
  also have "\<dots> \<longleftrightarrow> linked blks \<and> prev_hash (header blk) = block_hash (last blks)"
  proof -
    obtain n where n: "length blks = Suc n" using False by (cases blks) auto
    have "blks ! n = last blks" using False n by (simp add: last_conv_nth)
    with n show ?thesis
      by (auto simp: linked_def nth_append less_Suc_eq)
  qed
  finally show ?thesis using False by simp
qed

lemma confirm_txs_blocks:
  "confirm_txs so L txs c = (r, c') \<Longrightarrow> blocks c' = blocks c"
proof (induction txs arbitrary: c)
  case Nil
  then show ?case by simp
next
  case (Cons tx txs)
  obtain r1 c1 where "confirm_tx so L tx c = (r1, c1)" by fastforce
  with Cons confirm_tx_frame[OF this] show ?case
    by (cases r1) (auto simp: sbind_def)
qed

text \<open>The blocks after \<open>add_block\<close>: as before when it throws, one more when it returns.\<close>

lemma add_block_blocks:
  assumes "add_block so L blk c = (r, c')"
  shows "blocks c' = (case r of Inl e \<Rightarrow> blocks c | Inr _ \<Rightarrow> blocks c @ [blk])"
proof -
  obtain r1 c1 where c1: "confirm_txs so L (transactions blk) c = (r1, c1)" by fastforce
  obtain r2 c2 where c2: "store_block L blk c1 = (r2, c2)" by fastforce
  have "blocks c1 = blocks c" using c1 by (rule confirm_txs_blocks)
  moreover have "blocks c2 = blocks c1" using store_block_frame[OF c2] by auto
  ultimately show ?thesis
    using assms c1 c2 by (cases r1; cases r2) (auto simp: add_block_def sbind_def)
qed

lemma on_create_tx_blocks:
  assumes "on_create_tx so L payload c = (r, c')"
  shows "blocks c' = blocks c"
  using on_create_tx_cases[OF assms] by (auto dest!: add_tx_state simp: accept_tx_def)

lemma submitted_sealed:
  assumes "parse_create_block_payload so payload c = Inr (Inr p)"
  shows "block_sealed so (submitted_block so p)"
  by (rule parse_create_block_Inr[OF assms]) (simp add: block_sealed_def submitted_block_def)

lemma genesis_sealed: "block_sealed so (genesis_block so addr)"
  by (auto simp: block_sealed_def genesis_block_def)

lemma submitted_hash: "block_hash (submitted_block so p) = header_hash so (header (submitted_block so p))"
  by (simp add: submitted_block_def block_hash_def)

lemma length_header_hash: "sodium_ok so \<Longrightarrow> length (header_hash so h) = 32"
  by (simp add: header_hash_def)

lemma consensus_inv_cong: "blocks c' = blocks c \<Longrightarrow> consensus_inv so c' = consensus_inv so c"
  by (simp add: consensus_inv_def)

lemma consensus_inv_append:
  assumes so: "sodium_ok so" and inv: "consensus_inv so c" and t: "chain_target c = build_target 3"
    and p: "parse_create_block_payload so payload c = Inr (Inr p)"
    and k: "block_checks so p c" and c': "blocks c' = blocks c @ [submitted_block so p]"
  shows "consensus_inv so c'"
proof -
  let ?b = "submitted_block so p"
  have ne: "blocks c \<noteq> []" using inv by (auto simp: consensus_inv_def)
  have "\<not> block_hash ?b > build_target 3" using k t by (simp add: block_checks_def target_def)
  then have pow: "leading_zero_bytes 3 (block_hash ?b)"
    using target_leading_zeros[of "block_hash ?b" 3]
    by (simp add: submitted_hash length_header_hash[OF so])
  have "prev_hash (header ?b) = block_hash (last (blocks c))"
    using k by (simp add: block_checks_def tip_hash_def)
  with inv ne pow submitted_sealed[OF p] show ?thesis
    by (simp add: consensus_inv_def c' linked_snoc proof_of_work_def)
qed

lemma consensus_inv_on_create_block:
  assumes so: "sodium_ok so" and inv: "consensus_inv so c" and t: "chain_target c = build_target 3"
    and r: "on_create_block so L payload c = (r, c')"
  shows "consensus_inv so c'"
  using on_create_block_cases[OF r]
proof (elim disjE exE conjE)
  assume "c' = c"
  with inv show ?thesis by simp
next
  fix p e assume "add_block so L (submitted_block so p) c = (Inl e, c')"
  from add_block_blocks[OF this] have "blocks c' = blocks c" by simp
  from consensus_inv_cong[OF this] inv show ?thesis by simp
next
  fix p assume p: "parse_create_block_payload so payload c = Inr (Inr p)" "block_checks so p c"
    and "add_block so L (submitted_block so p) c = (Inr (), c')"
  from add_block_blocks[OF this(3)] show ?thesis
    using consensus_inv_append[OF so inv t p] by simp
qed

lemma consensus_inv_handle_msg:
  assumes so: "sodium_ok so" and inv: "consensus_inv so c" and t: "chain_target c = build_target 3"
    and r: "handle_msg so L iter ty payload c = (r, c')"
  shows "consensus_inv so c'"
  using handle_msg_state[OF r]
proof (elim disjE exE)
  assume "c' = c"
  with inv show ?thesis by simp
next
  fix re assume "on_create_tx so L payload c = (re, c')"
  from consensus_inv_cong[OF on_create_tx_blocks[OF this]] inv show ?thesis by simp
next
  fix re assume "on_create_block so L payload c = (re, c')"
  from consensus_inv_on_create_block[OF so inv t this] show ?thesis .
qed


section \<open>The tip commits to the headers\<close>

lemma header_hash_inj:
  assumes ok: "header_ok h" "header_ok h'"
    and inj: "inj_on (blake2b so) {header_serialize h [], header_serialize h' []}"
    and eq: "header_hash so h = header_hash so h'"
  shows "h = h'"
proof -
  have "header_serialize h [] = header_serialize h' []"
    using inj eq unfolding header_hash_def by (auto dest: inj_onD)
  with ok show ?thesis using header_codec.put_inj by blast
qed

lemma tip_commits_headers:
  assumes "\<forall>blk \<in> set xs \<union> set ys. header_ok (header blk) \<and> block_sealed so blk"
    and "inj_on (blake2b so) ((\<lambda>blk. header_serialize (header blk) []) ` (set xs \<union> set ys))"
    and "linked xs" "linked ys" "length xs = length ys" "xs \<noteq> []"
    and "block_hash (last xs) = block_hash (last ys)"
  shows "map header xs = map header ys"
  using assms
proof (induction xs arbitrary: ys rule: rev_induct)
  case Nil
  then show ?case by simp
next
  case (snoc x xs)
  then obtain y ys' where ys: "ys = ys' @ [y]" by (metis append_is_Nil_conv length_0_conv rev_exhaust)
  have sealed: "block_hash b = header_hash so (header b)" if "b \<in> {x, y}" for b
    using snoc.prems(1) that ys by (auto simp: block_sealed_def block_hash_def)
  have hdr: "header x = header y"
  proof (rule header_hash_inj[of _ _ so])
    show "header_ok (header x)" "header_ok (header y)" using snoc.prems(1) ys by auto
    show "inj_on (blake2b so) {header_serialize (header x) [], header_serialize (header y) []}"
      by (rule inj_on_subset[OF snoc.prems(2)]) (auto simp: ys)
    show "header_hash so (header x) = header_hash so (header y)"
      using snoc.prems(7) ys sealed by simp
  qed
  show ?case
  proof (cases "xs = []")
    case True
    with snoc.prems(5) ys hdr show ?thesis by simp
  next
    case False
    with snoc.prems(5) ys have ne: "ys' \<noteq> []" by auto
    have "map header xs = map header ys'"
    proof (rule snoc.IH)
      show "inj_on (blake2b so) ((\<lambda>blk. header_serialize (header blk) []) ` (set xs \<union> set ys'))"
        using snoc.prems(2) by (rule inj_on_subset) (auto simp: ys)
      show "block_hash (last xs) = block_hash (last ys')"
        using snoc.prems(3,4) ys False ne hdr by (simp add: linked_snoc)
    qed (use snoc.prems ys False in \<open>auto simp: linked_snoc\<close>)
    with hdr ys show ?thesis by simp
  qed
qed

end
