(* ===== verification/Console.thy ===== *)
theory Console
  imports Charts "HOL-Library.Product_Lexorder"
begin

text \<open>
  What the program writes to the console: the log lines of \<^verbatim>\<open>util.h\<close>, the stream operators of \<^verbatim>\<open>tx.cpp\<close> and
  \<^verbatim>\<open>block.cpp\<close>, \<^verbatim>\<open>dump_utxo\<close> and the report of the constructor in \<^verbatim>\<open>chain.cpp\<close>, the output of the handlers of
  \<^verbatim>\<open>net.cpp\<close>, and \<^verbatim>\<open>main\<close>. An output is a string option: \<open>None\<close> when writing it is undefined behaviour, which
  happens when a timestamp cannot be formatted. Shown: exactly which requests and which chains lead there,
  and that the dump of the unspent outputs is sorted, complete and independent of the hash table.
\<close>

section \<open>Characters\<close>

definition nl :: string where "nl = [CHR 0x0A]"

text \<open>The characters outside ASCII, as the bytes of their UTF-8 encoding.\<close>

definition box_horizontal :: string where "box_horizontal = [CHR 0xE2, CHR 0x94, CHR 0x80]"
definition box_branch :: string where "box_branch = [CHR 0xE2, CHR 0x94, CHR 0x9C]"
definition box_corner :: string where "box_corner = [CHR 0xE2, CHR 0x94, CHR 0x94]"
definition arrow_right :: string where "arrow_right = [CHR 0xE2, CHR 0x86, CHR 0x92]"
definition black_diamond :: string where "black_diamond = [CHR 0xE2, CHR 0x97, CHR 0x86]"
definition white_circle :: string where "white_circle = [CHR 0xE2, CHR 0x97, CHR 0x8B]"
definition small_triangle :: string where "small_triangle = [CHR 0xE2, CHR 0x96, CHR 0xB8]"

abbreviation spaces :: "nat \<Rightarrow> string" where "spaces n \<equiv> replicate n (CHR '' '')"

text \<open>\<^verbatim>\<open>std::setw\<close> with \<^verbatim>\<open>std::left\<close> and with \<^verbatim>\<open>std::right\<close>.\<close>

definition set_left :: "nat \<Rightarrow> string \<Rightarrow> string" where
  "set_left n s = s @ spaces (n - length s)"

definition set_right :: "nat \<Rightarrow> string \<Rightarrow> string" where
  "set_right n s = spaces (n - length s) @ s"

definition log_info :: "string \<Rightarrow> string" where "log_info msg = ''[INFO] '' @ msg @ nl"
definition log_err :: "string \<Rightarrow> string" where "log_err msg = ''[ERR] '' @ msg @ nl"
definition log_reject :: "string \<Rightarrow> string" where "log_reject msg = ''[REJ] '' @ msg @ nl"


section \<open>Transactions\<close>

definition print_outpoint :: "sodium \<Rightarrow> outpoint \<Rightarrow> string" where
  "print_outpoint so op =
     ''{ txid: '' @ short_hex so (op_txid op) @ '',  index: '' @ nat_to_string (unat (op_index op)) @ '' }''"

definition print_txoutput :: "sodium \<Rightarrow> txoutput \<Rightarrow> string" where
  "print_txoutput so out =
     arrow_right @ '' '' @ short_addr so (recipient out) @ ''  '' @
     format_amount (amount out) 1000000 @ '' AXIS''"

text \<open>\<^verbatim>\<open>Transaction::pretty\<close>; \<^verbatim>\<open>total\<close> wraps around at 64 bits.\<close>

definition rule_line :: "nat \<Rightarrow> string" where
  "rule_line indent = spaces indent @ concat (replicate (3 + 18 + 1 + 18) box_horizontal) @ nl"

definition amount_column :: "u64 \<Rightarrow> string" where
  "amount_column v = set_right 18 (format_amount v 1000000 @ '' AXIS'')"

definition pretty_inputs :: "sodium \<Rightarrow> outpoint list \<Rightarrow> string" where
  "pretty_inputs so ins =
     (if ins = [] then []
      else ''    Inputs  '' @ nat_to_string (length ins) @ nl @ nl @
        concat (map (\<lambda>op. ''      '' @ white_circle @ ''  '' @ print_outpoint so op @ nl) ins) @ nl)"

definition pretty_outputs :: "sodium \<Rightarrow> txoutput list \<Rightarrow> string" where
  "pretty_outputs so outs =
     (if outs = [] then []
      else ''    Outputs  '' @ nat_to_string (length outs) @ nl @
        concat (map (\<lambda>out. ''      '' @ arrow_right @ ''  '' @ set_left 18 (short_addr so (recipient out)) @
                        '' '' @ amount_column (amount out) @ nl) outs) @
        rule_line 6 @ ''      '' @ set_left 18 ''Total'' @ '' '' @
        amount_column (sum_list (map amount outs)) @ nl @ nl)"

definition pretty :: "sodium \<Rightarrow> transaction \<Rightarrow> string option" where
  "pretty so tx =
     map_option (\<lambda>date.
       ''  '' @ black_diamond @ ''  '' @ (if is_coinbase tx then ''Coinbase'' else ''Transaction'') @
       ''  '' @ short_hex so (txid tx) @ nl @ rule_line 2 @
       pretty_inputs so (inputs tx) @ pretty_outputs so (outputs tx) @
       ''    '' @ small_triangle @ ''  '' @ date @ nl)
     (format_timestamp (tx_timestamp tx))"

definition print_tx :: "sodium \<Rightarrow> transaction \<Rightarrow> string option" where
  "print_tx so tx = pretty so tx"


section \<open>Blocks\<close>

abbreviation branch :: string where "branch \<equiv> box_branch @ box_horizontal"
abbreviation last_branch :: string where "last_branch \<equiv> box_corner @ box_horizontal"

definition header_lines :: "sodium \<Rightarrow> block_header \<Rightarrow> string \<Rightarrow> string" where
  "header_lines so hdr date =
     branch @ '' Previous:     '' @ short_hex so (prev_hash hdr) @ nl @
     branch @ '' Merkle Root:  '' @ short_hex so (merkle_root hdr) @ nl @
     branch @ '' Timestamp:    '' @ date @ nl @
     branch @ '' Nonce:        '' @ nat_to_string (unat (nonce hdr)) @ nl"

definition print_header :: "sodium \<Rightarrow> block_header \<Rightarrow> string option" where
  "print_header so hdr = map_option (header_lines so hdr) (format_timestamp (hd_timestamp hdr))"

text \<open>One line of the list of transactions; \<open>is_last\<close> for the final one.\<close>

definition tx_line :: "sodium \<Rightarrow> transaction \<Rightarrow> bool \<Rightarrow> string" where
  "tx_line so tx is_last =
     ''   '' @ (if is_last then box_corner else box_branch) @ box_horizontal @ '' '' @ short_hex so (txid tx) @
     (if is_coinbase tx then ''  (coinbase)'' else []) @
     ''  ['' @ nat_to_string (length (inputs tx)) @ '' in,  '' @ nat_to_string (length (outputs tx)) @ '' out]'' @
     (if is_coinbase tx \<and> outputs tx \<noteq> []
      then ''  '' @ format_amount (amount (outputs tx ! 0)) 1000000 @ '' AXIS'' else []) @ nl"

definition print_block :: "sodium \<Rightarrow> block \<Rightarrow> string option" where
  "print_block so blk =
     map_option (\<lambda>date.
       short_hex so (block_hash blk) @ nl @
       branch @ '' Previous:     '' @ short_hex so (prev_hash (header blk)) @ nl @
       branch @ '' Merkle Root:  '' @ short_hex so (merkle_root (header blk)) @ nl @
       branch @ '' Timestamp:    '' @ date @ nl @
       branch @ '' Nonce:        '' @ nat_to_string (unat (nonce (header blk))) @ nl @
       last_branch @ '' Transactions ('' @ nat_to_string (length (transactions blk)) @ '')'' @ nl @
       concat (map (\<lambda>i. tx_line so (transactions blk ! i) (i + 1 = length (transactions blk)))
                   [0..<length (transactions blk)]))
     (format_timestamp (hd_timestamp (header blk)))"


section \<open>The unspent outputs\<close>

text \<open>
  \<^verbatim>\<open>dump_utxo\<close>: the entries in the order of the hash table, sorted by identifier in hex and index, then
  printed with a total that wraps around at 64 bits.
\<close>

definition dump_key :: "sodium \<Rightarrow> outpoint \<times> txoutput \<Rightarrow> string \<times> u32" where
  "dump_key so e = (to_hex so (op_txid (fst e)), op_index (fst e))"

definition dump_entries ::
    "sodium \<Rightarrow> (outpoint, txoutput) map_iter \<Rightarrow> 'db chain \<Rightarrow> (outpoint \<times> txoutput) list" where
  "dump_entries so iter c = sort_key (dump_key so) (iter (utxo c))"

definition dump_entry :: "sodium \<Rightarrow> outpoint \<times> txoutput \<Rightarrow> bool \<Rightarrow> string" where
  "dump_entry so e is_last =
     (if is_last then last_branch else branch) @ '' OutPoint'' @ nl @
     ''   '' @ branch @ '' TxID:       '' @ short_hex so (op_txid (fst e)) @ nl @
     ''   '' @ branch @ '' Index:      '' @ nat_to_string (unat (op_index (fst e))) @ nl @
     ''   '' @ branch @ '' Recipient:  '' @ short_addr so (recipient (snd e)) @
        '' ('' @ to_hex so (recipient (snd e)) @ '')'' @ nl @
     ''   '' @ last_branch @ '' Amount:     '' @ format_amount (amount (snd e)) 1000000 @ '' AXIS'' @ nl"

definition dump_utxo :: "sodium \<Rightarrow> (outpoint, txoutput) map_iter \<Rightarrow> 'db chain \<Rightarrow> string" where
  "dump_utxo so iter c =
     log_info (''UTXO set contains '' @ nat_to_string (length (iter (utxo c))) @ '' output(s)'') @
     (if iter (utxo c) = []
      then ''UTXO Set'' @ nl @ last_branch @ '' (empty)'' @ nl
      else let entries = dump_entries so iter c in
        ''UTXO Set'' @ nl @
        concat (map (\<lambda>i. dump_entry so (entries ! i) (i + 1 = length entries)) [0..<length entries]) @
        ''Total UTXO Balance: '' @ format_amount (sum_list (map (\<lambda>e. amount (snd e)) entries)) 1000000 @
        '' AXIS'' @ nl)"


section \<open>Start-up\<close>

definition print_numbered :: "sodium \<Rightarrow> nat \<times> block \<Rightarrow> string option" where
  "print_numbered so e =
     map_option (\<lambda>s. ''Block #'' @ nat_to_string (fst e) @ nl @ s @ nl) (print_block so (snd e))"

text \<open>What the constructor prints after loading: every block, then the unspent outputs.\<close>

definition chain_report :: "sodium \<Rightarrow> (outpoint, txoutput) map_iter \<Rightarrow> 'db chain \<Rightarrow> string option" where
  "chain_report so iter c =
     map_option (\<lambda>bs. log_info (''chain contains '' @ nat_to_string (length (blocks c)) @ '' block(s)'') @
                      concat bs @ dump_utxo so iter c)
       (those (map (print_numbered so) (List.enumerate 0 (blocks c))))"

text \<open>The constructor with its output, when it does not throw.\<close>

definition Chain_start ::
    "sodium \<Rightarrow> 'db leveldb \<Rightarrow> (outpoint, txoutput) map_iter \<Rightarrow> (string \<Rightarrow> string + 'db) \<Rightarrow>
     exn + ('db chain \<times> string option)" where
  "Chain_start so L iter opened =
     ebind (Chain_init so L opened) (\<lambda>c.
     ebind (open_db ''blocks'' (opened ''blocks'')) (\<lambda>bdb.
       Inr (c, map_option (\<lambda>report.
                 log_info ''loading blocks from database'' @
                 log_info (''loaded '' @ nat_to_string (unat (word_of_nat (length (fst (db_scan L bdb))) :: u32)) @
                           '' block(s) from database'') @ report)
               (chain_report so iter c))))"


section \<open>Requests\<close>

text \<open>
  \<^verbatim>\<open>add_tx\<close> prints the two sums when it meets an input that is not unspent: \<^verbatim>\<open>sum_in\<close> of the inputs before it.
\<close>

fun missing_input_sum ::
    "(outpoint \<Rightarrow> txoutput option) \<Rightarrow> address \<Rightarrow> outpoint list \<Rightarrow> u64 \<Rightarrow> u64 option" where
  "missing_input_sum utxos sender [] sum_in = None"
| "missing_input_sum utxos sender (op # ops) sum_in =
     (case utxos op of
        None \<Rightarrow> Some sum_in
      | Some out \<Rightarrow>
          if recipient out \<noteq> sender then None
          else if sum_in > u64_max - amount out then None
          else missing_input_sum utxos sender ops (sum_in + amount out))"

definition add_tx_output :: "sodium \<Rightarrow> signed_transaction \<Rightarrow> 'db chain \<Rightarrow> string" where
  "add_tx_output so st c =
     (case sum_outputs (outputs (st_tx st)) 0 of
        Inl e \<Rightarrow> []
      | Inr sum_out \<Rightarrow>
          if sum_out = 0 \<or> inputs (st_tx st) = [] then []
          else case missing_input_sum (utxo c) (derive_address so (st_pubkey st)) (inputs (st_tx st)) 0 of
                 None \<Rightarrow> []
               | Some sum_in \<Rightarrow>
                   ''Sum in: '' @ nat_to_string (unat sum_in) @ nl @
                   ''Sum out: '' @ nat_to_string (unat sum_out) @ nl)"

lemma missing_input_sum_rejected:
  "missing_input_sum utxos sender ops s = Some s' \<Longrightarrow> sum_inputs utxos sender ops s = Inl TxError_BadOwnership"
  by (induction utxos sender ops s rule: missing_input_sum.induct) (auto split: option.splits if_splits)

lemma add_tx_output_rejected: "add_tx_output so st c \<noteq> [] \<Longrightarrow> check_tx so st c = TxError_BadOwnership"
  by (auto simp: add_tx_output_def check_tx_def Let_def missing_input_sum_rejected
      split: sum.splits if_splits option.splits)

definition on_create_tx_output ::
    "sodium \<Rightarrow> 'db leveldb \<Rightarrow> bytes \<Rightarrow> 'db chain \<Rightarrow> string option" where
  "on_create_tx_output so L payload c =
     (case parse_create_tx_payload payload of
        Inl e \<Rightarrow> Some (log_reject (''parse: '' @ what e))
      | Inr p \<Rightarrow>
          let tx = mk_transaction so (pct_inputs p) (pct_outputs p) (pct_timestamp p);
              st = \<lparr>st_tx = tx, st_pubkey = pct_pubkey p, st_sig = pct_sig p\<rparr>
          in case fst (add_tx so L st c) of
               Inl e \<Rightarrow> Some (add_tx_output so st c @ log_reject (''parse: '' @ what e))
             | Inr err \<Rightarrow>
                 map_option (\<lambda>s. add_tx_output so st c @
                                 (if err \<noteq> TxError_None then log_reject (tx_error_str err)
                                  else log_info ''tx accepted'') @ s @ nl)
                   (print_tx so tx))"

definition on_create_block_output ::
    "sodium \<Rightarrow> 'db leveldb \<Rightarrow> bytes \<Rightarrow> 'db chain \<Rightarrow> string option" where
  "on_create_block_output so L payload c =
     (case parse_create_block_payload so payload c of
        Inl e \<Rightarrow> Some (log_reject (''block parse: '' @ what e))
      | Inr (Inl s) \<Rightarrow> Some (log_reject (''block parse: '' @ s))
      | Inr (Inr p) \<Rightarrow>
          let blk = mk_block so (pcb_prev_hash p) (pcb_transactions p) (pcb_timestamp p) (pcb_nonce p)
          in if merkle_root (header blk) \<noteq> pcb_wire_merkle p then Some []
             else if block_hash blk > target c
             then Some (''hash: '' @ to_hex so (block_hash blk) @ '' target: '' @ to_hex so (target c) @ nl)
             else if prev_hash (header blk) \<noteq> tip_hash c then Some []
             else case add_block so L blk c of
                    (Inl e, c') \<Rightarrow> Some (log_reject (''block parse: '' @ what e))
                  | (Inr _, c') \<Rightarrow>
                      map_option (\<lambda>s. log_info (''block accepted at height '' @
                                        nat_to_string (unat (height c'))) @ s @ nl)
                        (print_block so blk))"

definition handle_msg_output ::
    "sodium \<Rightarrow> 'db leveldb \<Rightarrow> u16 \<Rightarrow> bytes \<Rightarrow> 'db chain \<Rightarrow> string option" where
  "handle_msg_output so L ty payload c =
     (if ty \<in> {msg_code GetUTXOs, msg_code GetTip, msg_code GetPool, msg_code GetDifficulty} then Some []
      else if ty = msg_code CreateTransaction then on_create_tx_output so L payload c
      else if ty = msg_code CreateBlock then on_create_block_output so L payload c
      else Some (log_err ''unknown msg type''))"

text \<open>\<^verbatim>\<open>handle_client\<close> at the end of a session.\<close>

fun session_output :: "session_end \<Rightarrow> string" where
  "session_output End_of_file = []"
| "session_output (Session_error e) = log_err (''client session ended: '' @ what e)"


section \<open>The main function\<close>

text \<open>
  \<^verbatim>\<open>sodium\<close> is the result of \<^verbatim>\<open>sodium_init\<close>, \<open>chain\<close> and \<open>servers\<close> those of the constructors, \<open>running\<close> that
  of everything from the start of the web thread on (its log lines are left out). An exception after that point destroys the thread
  object while it is joinable: \<^verbatim>\<open>std::terminate\<close>, before the handler is reached.
\<close>

datatype outcome = Exit int | Terminate

definition main_function ::
    "int \<Rightarrow> exn + unit \<Rightarrow> exn + unit \<Rightarrow> exn + unit \<Rightarrow> string \<times> outcome" where
  "main_function sodium chain servers running =
     (if sodium < 0 then (log_err ''sodium init failed'', Exit 1)
      else let hello = ''Hello world'' @ nl; fatal = (\<lambda>e. log_err (''fatal: '' @ what e)) in
        case ebind chain (\<lambda>_. servers) of
          Inl e \<Rightarrow> (hello @ fatal e, Exit 1)
        | Inr _ \<Rightarrow> (case running of Inl e \<Rightarrow> (hello, Terminate) | Inr _ \<Rightarrow> (hello, Exit 0)))"


section \<open>When the output is undefined\<close>

abbreviation printable :: "u64 \<Rightarrow> bool" where
  "printable ts \<equiv> - 67768040609740800 \<le> sint ts \<and> sint ts \<le> 67768036191676799"

lemma format_timestamp_None: "format_timestamp ts = None \<longleftrightarrow> \<not> printable ts"
  by (auto simp: format_timestamp_None_iff)

lemma pretty_None: "print_tx so tx = None \<longleftrightarrow> \<not> printable (tx_timestamp tx)"
  by (simp add: print_tx_def pretty_def format_timestamp_None)

lemma print_block_None: "print_block so blk = None \<longleftrightarrow> \<not> printable (hd_timestamp (header blk))"
  by (simp add: print_block_def format_timestamp_None)

lemma those_None: "those xs = None \<longleftrightarrow> None \<in> set xs"
  by (induction xs) (auto split: option.splits)

lemma chain_report_None:
  "chain_report so iter c = None \<longleftrightarrow> (\<exists>blk \<in> set (blocks c). \<not> printable (hd_timestamp (header blk)))"
proof -
  let ?es = "List.enumerate 0 (blocks c)"
  have "snd ` set ?es = set (blocks c)" by (metis list.set_map map_snd_enumerate)
  then have "(\<exists>blk \<in> set (blocks c). print_block so blk = None) \<longleftrightarrow> (\<exists>e \<in> set ?es. print_block so (snd e) = None)"
    by (metis (no_types, lifting) imageE imageI)
  also have "\<dots> \<longleftrightarrow> (\<exists>e \<in> set ?es. print_numbered so e = None)"
    by (simp add: print_numbered_def)
  also have "\<dots> \<longleftrightarrow> None \<in> set (map (print_numbered so) ?es)"
    unfolding set_map image_iff by (simp only: eq_commute)
  finally have "None \<in> set (map (print_numbered so) ?es) \<longleftrightarrow> (\<exists>blk \<in> set (blocks c). print_block so blk = None)"
    by simp
  then show ?thesis by (simp add: chain_report_def those_None print_block_None)
qed

text \<open>
  A submitted transaction is printed whether it is accepted or not, a block when it is accepted.
\<close>

lemma on_create_tx_output_None:
  "on_create_tx_output so L payload c = None \<longleftrightarrow>
     (\<exists>p. parse_create_tx_payload payload = Inr p \<and> \<not> printable (pct_timestamp p) \<and>
        (\<exists>err. fst (add_tx so L (submitted_tx so p) c) = Inr err))"
  by (auto simp: on_create_tx_output_def submitted_tx_def Let_def pretty_None split: sum.splits)

lemma on_create_block_output_None:
  "on_create_block_output so L payload c = None \<longleftrightarrow>
     (\<exists>p. parse_create_block_payload so payload c = Inr (Inr p) \<and> block_checks so p c \<and>
        fst (add_block so L (submitted_block so p) c) = Inr () \<and> \<not> printable (pcb_timestamp p))"
  by (auto simp: on_create_block_output_def block_checks_def submitted_block_def Let_def print_block_None
      split: sum.splits prod.splits)


section \<open>The dump of the unspent outputs\<close>

lemma dump_key_inj: "sodium_ok so \<Longrightarrow> dump_key so e = dump_key so e' \<longleftrightarrow> fst e = fst e'"
  by (cases "fst e"; cases "fst e'") (simp add: dump_key_def to_hex_def bin2hex_inj)

lemma set_iter: "iterates iter m \<Longrightarrow> set (iter m) = {(k, v). m k = Some v}"
  unfolding iterates_def by (auto dest: map_of_is_SomeI) (metis map_of_SomeD)

text \<open>Strictly sorted by identifier and index, with every unspent output.\<close>

lemma dump_entries_sorted:
  assumes so: "sodium_ok so" and i: "iterates iter (utxo c)"
  shows "sorted_wrt (<) (map (dump_key so) (dump_entries so iter c))"
    and "set (dump_entries so iter c) = {(op, out). utxo c op = Some out}"
proof -
  show set: "set (dump_entries so iter c) = {(op, out). utxo c op = Some out}"
    by (simp add: dump_entries_def set_iter[OF i])
  have "distinct (map fst (dump_entries so iter c))"
    using i by (simp add: dump_entries_def iterates_def distinct_map)
  then have "distinct (map (dump_key so) (dump_entries so iter c))"
    unfolding distinct_conv_nth by (simp add: dump_key_inj[OF so])
  moreover have "sorted (map (dump_key so) (dump_entries so iter c))"
    by (simp add: dump_entries_def)
  ultimately show "sorted_wrt (<) (map (dump_key so) (dump_entries so iter c))"
    by (simp add: strict_sorted_iff)
qed

lemma dump_entries_order:
  assumes so: "sodium_ok so" and i: "iterates iter (utxo c)" "iterates iter' (utxo c)"
  shows "dump_entries so iter c = dump_entries so iter' c"
proof (rule map_sorted_distinct_set_unique)
  show "inj_on (dump_key so) (set (dump_entries so iter c) \<union> set (dump_entries so iter' c))"
    unfolding dump_entries_sorted(2)[OF so i(1)] dump_entries_sorted(2)[OF so i(2)]
    by (auto simp: inj_on_def dump_key_inj[OF so])
qed (use dump_entries_sorted[OF so i(1)] dump_entries_sorted[OF so i(2)] in
    \<open>simp_all add: strict_sorted_iff\<close>)

lemma dump_utxo_order:
  assumes so: "sodium_ok so" and i: "iterates iter (utxo c)" "iterates iter' (utxo c)"
  shows "dump_utxo so iter c = dump_utxo so iter' c"
proof -
  have len: "length (dump_entries so it c) = length (it (utxo c))" for it
    by (simp add: dump_entries_def)
  then have "length (iter (utxo c)) = length (iter' (utxo c))"
    using dump_entries_order[OF so i] by metis
  moreover from this have "iter (utxo c) = [] \<longleftrightarrow> iter' (utxo c) = []" by auto
  ultimately show ?thesis
    using dump_entries_order[OF so i] by (simp add: dump_utxo_def)
qed

lemma sum_list_word: "sum_list (ws :: u64 list) = word_of_nat (sum_list (map unat ws))"
  by (induction ws) simp_all

text \<open>The total printed is the total value, modulo \<open>2 ^ 64\<close>.\<close>

lemma dump_total:
  assumes so: "sodium_ok so" and i: "iterates iter (utxo c)"
  shows "sum_list (map (\<lambda>e. amount (snd e)) (dump_entries so iter c)) = word_of_nat (total_value c)"
proof -
  let ?es = "dump_entries so iter c"
  have d: "distinct (map (dump_key so) ?es)"
    using dump_entries_sorted(1)[OF so i] strict_sorted_iff by blast
  then have "distinct ?es" by (simp only: distinct_map)
  then have "sum_list (map (\<lambda>e. unat (amount (snd e))) ?es) = (\<Sum>e \<in> set ?es. unat (amount (snd e)))"
    by (rule sum_list_distinct_conv_sum_set)
  also have "\<dots> = (\<Sum>op \<in> fst ` set ?es. unat (amount (the (utxo c op))))"
    unfolding dump_entries_sorted(2)[OF so i]
    by (subst sum.reindex) (auto simp: inj_on_def intro!: sum.cong)
  also have "fst ` set ?es = dom (utxo c)"
    unfolding dump_entries_sorted(2)[OF so i] by force
  finally have "sum_list (map (\<lambda>e. unat (amount (snd e))) ?es) = total_value c"
    by (simp add: total_value_def)
  then show ?thesis by (simp add: sum_list_word o_def)
qed

end
