(* ===== verification/System.thy ===== *)
theory System
  imports Web_Facts Consensus Console
begin

text \<open>
  The whole program as a state machine: the chain, shared by the TCP and the HTTP server, and the open
  WebSocket connections. A step is one request, one WebSocket callback, or a restart on the databases
  left behind; it sends the messages that \<^verbatim>\<open>main.cpp\<close> wires the events of the TCP server to. The
  invariant of the node and that of the blocks hold in every reachable state. Also shown here: parsing a
  block submission while the HTTP thread adds transactions gives what an undisturbed parse gives.
\<close>

section \<open>Steps\<close>

record ('db, 'conn) system =
  sys_chain :: "'db chain"
  sys_conns :: "'conn set"

text \<open>The callbacks of \<^verbatim>\<open>main\<close>.\<close>

fun publish :: "sodium \<Rightarrow> 'conn set \<Rightarrow> event \<Rightarrow> ('conn \<times> ws_text) set" where
  "publish so conns (On_tx_accepted tx) = broadcast_new_tx so tx conns"
| "publish so conns (On_block_accepted blk) = broadcast_new_block so blk conns"

definition tcp_messages :: "sodium \<Rightarrow> 'conn set \<Rightarrow> exn + reaction \<Rightarrow> ('conn \<times> ws_text) set" where
  "tcp_messages so conns r =
     (case r of Inl e \<Rightarrow> {} | Inr re \<Rightarrow> \<Union> (set (map (publish so conns) (events re))))"

definition http_messages ::
    "sodium \<Rightarrow> 'conn set \<Rightarrow> transaction option \<Rightarrow> ('conn \<times> ws_text) set" where
  "http_messages so conns tx = (case tx of None \<Rightarrow> {} | Some t \<Rightarrow> broadcast_new_tx so t conns)"

text \<open>
  A frame holds fewer than \<open>2 ^ 32\<close> bytes, two of them the type. Heights are 32-bit: a TCP step is one
  of a chain that still has room for a block.
\<close>

inductive system_step ::
    "sodium \<Rightarrow> 'db leveldb \<Rightarrow> ('db, 'conn) system \<Rightarrow> ('conn \<times> ws_text) set \<Rightarrow>
     ('db, 'conn) system \<Rightarrow> bool"
  for so :: sodium and L :: "'db leveldb"
where
  tcp_message:
    "length payload + 2 < 2 ^ 32 \<Longrightarrow> length (blocks (sys_chain s)) < 2 ^ 32 \<Longrightarrow>
     handle_msg so L iter ty payload (sys_chain s) = (r, c') \<Longrightarrow>
     system_step so L s (tcp_messages so (sys_conns s) r) (s\<lparr>sys_chain := c'\<rparr>)"
| http_submit:
    "api_transaction so L request (sys_chain s) = (Inr (response, tx), c') \<Longrightarrow>
     system_step so L s (http_messages so (sys_conns s) tx) (s\<lparr>sys_chain := c'\<rparr>)"
| websocket_open:
    "ws_open conn (sys_conns s) = (conns, sent) \<Longrightarrow> system_step so L s sent (s\<lparr>sys_conns := conns\<rparr>)"
| websocket_close:
    "system_step so L s {} (s\<lparr>sys_conns := ws_close conn (sys_conns s)\<rparr>)"
| websocket_message:
    "conn \<in> sys_conns s \<Longrightarrow> system_step so L s (ws_message conn message is_binary) s"
| restart:
    "opened ''blocks'' = Inr (blocks_db (sys_chain s)) \<Longrightarrow>
     opened ''pool'' = Inr (pool_db (sys_chain s)) \<Longrightarrow>
     Chain_init so L opened = Inr c' \<Longrightarrow>
     system_step so L s {} \<lparr>sys_chain = c', sys_conns = {}\<rparr>"

inductive reachable :: "sodium \<Rightarrow> 'db leveldb \<Rightarrow> ('db, 'conn) system \<Rightarrow> bool"
  for so :: sodium and L :: "'db leveldb"
where
  first_start:
    "opened ''blocks'' = Inr bdb \<Longrightarrow> opened ''pool'' = Inr pdb \<Longrightarrow>
     db_scan L bdb = ([], None) \<Longrightarrow> db_scan L pdb = ([], None) \<Longrightarrow>
     Chain_init so L opened = Inr c \<Longrightarrow> reachable so L \<lparr>sys_chain = c, sys_conns = {}\<rparr>"
| step: "reachable so L s \<Longrightarrow> system_step so L s sent s' \<Longrightarrow> reachable so L s'"

inductive_cases system_stepE: "system_step so L s sent s'"


section \<open>Invariants\<close>

lemma http_submitted_blocks:
  assumes "http_submitted so L c tx c'"
  shows "blocks c' = blocks c"
  using assms by (auto simp: http_submitted_def accept_tx_def dest!: add_tx_state)

lemma node_inv_http_submitted:
  assumes L: "leveldb_ok L contents" "db_reliable L" and so: "sodium_ok so"
    and inv: "node_inv so contents c" and s: "http_submitted so L c tx c'"
  shows "node_inv so contents c'"
proof -
  obtain payload st r where len: "length payload \<le> 65536"
    and p: "parse_signed_transaction_payload so payload = Inr st" and a: "add_tx so L st c = (r, c')"
    using s unfolding http_submitted_def by blast
  from len have "length payload < 2 ^ 32" by simp
  from node_inv_add_tx[OF L so inv parse_signed_ok[OF so this p] a] show ?thesis .
qed

definition system_inv ::
    "sodium \<Rightarrow> ('db \<Rightarrow> string \<Rightarrow> bytes option) \<Rightarrow> ('db, 'conn) system \<Rightarrow> bool" where
  "system_inv so contents s \<longleftrightarrow>
     node_inv so contents (sys_chain s) \<and> consensus_inv so (sys_chain s)"

lemma system_inv_chain: "sys_chain s' = sys_chain s \<Longrightarrow> system_inv so contents s \<Longrightarrow> system_inv so contents s'"
  by (simp add: system_inv_def)

lemma node_inv_target: "node_inv so contents c \<Longrightarrow> chain_target c = build_target 3"
  by (simp add: node_inv_def history_inv_def)

lemma system_inv_step:
  assumes L: "leveldb_ok L contents" "db_reliable L" and so: "sodium_ok so"
    and inv: "system_inv so contents s" and st: "system_step so L s sent s'"
  shows "system_inv so contents s'"
  using st
proof (cases rule: system_step.cases)
  case (tcp_message payload iter ty r c')
  from inv have n: "node_inv so contents (sys_chain s)" and k: "consensus_inv so (sys_chain s)"
    by (simp_all add: system_inv_def)
  have "node_inv so contents c'"
    using tcp_message(3,4) by (intro node_inv_handle_msg[OF L so n _ _ tcp_message(5)]) simp_all
  with consensus_inv_handle_msg[OF so k node_inv_target[OF n] tcp_message(5)] tcp_message(2)
  show ?thesis by (simp add: system_inv_def)
next
  case (http_submit request response tx c')
  from api_transaction_state[OF http_submit(3)] show ?thesis
  proof (elim disjE conjE)
    assume "c' = sys_chain s"
    with http_submit(2) inv show ?thesis by (simp add: system_inv_def)
  next
    assume h: "http_submitted so L (sys_chain s) tx c'"
    from node_inv_http_submitted[OF L so _ h] consensus_inv_cong[OF http_submitted_blocks[OF h]] inv
    show ?thesis by (simp add: http_submit(2) system_inv_def)
  qed
next
  case (restart opened c')
  have "c' = sys_chain s"
    using inv restart(3-5) by (intro restart_identity[OF L so]) (auto simp: system_inv_def)
  with inv restart(2) show ?thesis by (simp add: system_inv_def)
qed (use inv in \<open>simp_all add: system_inv_def\<close>)

lemma system_inv_first_start:
  assumes L: "leveldb_ok L contents" "db_reliable L" and so: "sodium_ok so"
    and o: "opened ''blocks'' = Inr bdb" "opened ''pool'' = Inr pdb"
    and scans: "db_scan L bdb = ([], None)" "db_scan L pdb = ([], None)"
    and c: "Chain_init so L opened = Inr c"
  shows "system_inv so contents \<lparr>sys_chain = c, sys_conns = {}\<rparr>"
proof -
  obtain addr where addr: "GENESIS_ADDR so = Inr addr"
    using c by (auto simp: Chain_init_def ebind_Inr_iff)
  obtain bdb' where "db_put L (block_key 0) (block_serialize_str (genesis_block so addr)) bdb = (None, bdb')"
    using L(2) by (metis db_reliable_def prod.collapse)
  from invariants_first_start(6)[OF L(1) so o scans addr this c]
  have "consensus_inv so c"
    using addr by (simp add: consensus_inv_def linked_def proof_of_work_def genesis_sealed)
  with node_inv_first_start[OF L so o scans c] show ?thesis by (simp add: system_inv_def)
qed

lemma reachable_system_inv:
  assumes L: "leveldb_ok L contents" "db_reliable L" and so: "sodium_ok so"
  shows "reachable so L s \<Longrightarrow> system_inv so contents s"
proof (induction rule: reachable.induct)
  case (first_start opened bdb pdb c)
  then show ?case using system_inv_first_start[OF L so] by blast
next
  case (step s sent s')
  then show ?case using system_inv_step[OF L so] by blast
qed



text \<open>The chain of blocks only grows at its end, and every new block is announced.\<close>

definition block_announced :: "sodium \<Rightarrow> ('db, 'conn) system \<Rightarrow> ('conn \<times> ws_text) set \<Rightarrow> ('db, 'conn) system \<Rightarrow> bool" where
  "block_announced so s sent s' \<longleftrightarrow>
     (\<exists>blk. blocks (sys_chain s') = blocks (sys_chain s) @ [blk] \<and>
        sent = broadcast_new_block so blk (sys_conns s))"

lemma handle_msg_create_block:
  assumes h: "handle_msg so L iter ty payload c = (r, c')" and b: "blocks c' \<noteq> blocks c"
  shows "\<exists>re. on_create_block so L payload c = (re, c') \<and> r = Inr re"
  using assms by (auto simp: handle_msg_def dest: on_create_tx_blocks split: if_splits prod.splits)

lemma tcp_step_blocks:
  assumes h: "handle_msg so L iter ty payload (sys_chain s) = (r, c')"
  shows "blocks c' = blocks (sys_chain s) \<or>
    block_announced so s (tcp_messages so (sys_conns s) r) (s\<lparr>sys_chain := c'\<rparr>)"
proof (cases "blocks c' = blocks (sys_chain s)")
  case False
  then obtain re where b: "on_create_block so L payload (sys_chain s) = (re, c')" and r: "r = Inr re"
    using handle_msg_create_block[OF h] by blast
  from on_create_block_cases[OF b] False obtain p where
    p: "add_block so L (submitted_block so p) (sys_chain s) = (Inr (), c')"
      "events re = [On_block_accepted (submitted_block so p)]"
    using add_block_blocks by fastforce
  then show ?thesis
    using add_block_blocks[OF p(1)] by (auto simp: block_announced_def tcp_messages_def r)
qed simp

lemma step_blocks:
  assumes L: "leveldb_ok L contents" "db_reliable L" and so: "sodium_ok so"
    and inv: "system_inv so contents s" and st: "system_step so L s sent s'"
  shows "blocks (sys_chain s') = blocks (sys_chain s) \<or> block_announced so s sent s'"
  using st
proof (rule system_stepE)
  fix payload iter ty r c'
  assume "sent = tcp_messages so (sys_conns s) r" "s' = s\<lparr>sys_chain := c'\<rparr>"
    and "handle_msg so L iter ty payload (sys_chain s) = (r, c')"
  with tcp_step_blocks[OF this(3)] show ?thesis by simp
next
  fix request response tx c'
  assume s': "s' = s\<lparr>sys_chain := c'\<rparr>"
    and a: "api_transaction so L request (sys_chain s) = (Inr (response, tx), c')"
  from api_transaction_state[OF a] show ?thesis
    using s' by (auto dest: http_submitted_blocks)
next
  fix opened c'
  assume o: "opened ''blocks'' = Inr (blocks_db (sys_chain s))" "opened ''pool'' = Inr (pool_db (sys_chain s))"
    and c': "Chain_init so L opened = Inr c'" and s': "s' = \<lparr>sys_chain = c', sys_conns = {}\<rparr>"
  have "c' = sys_chain s"
    using inv by (intro restart_identity[OF L so _ o c']) (simp add: system_inv_def)
  with s' show ?thesis by simp
qed simp_all


section \<open>Block submissions and the HTTP thread\<close>

text \<open>
  \<^verbatim>\<open>parse_create_block_payload\<close> locks the chain anew for each lookup, so the HTTP thread can submit
  transactions between two of them: lookup number \<open>k\<close> sees the chain \<open>cs k\<close>. The only changes the HTTP
  thread makes to the pool are additions.
\<close>

primrec resolve_interleaved ::
    "(nat \<Rightarrow> 'db chain) \<Rightarrow> nat \<Rightarrow> nat \<Rightarrow> (string + transaction list) parser" where
  "resolve_interleaved cs k 0 = preturn (Inr [])"
| "resolve_interleaved cs k (Suc n) =
     pbind take_hash (\<lambda>id.
       if \<not> pool_contains id (cs k) then preturn (Inl ''tx not in pool'')
       else case get_pool_tx id (cs (k + 1)) of
              Inl e \<Rightarrow> pthrow e
            | Inr tx \<Rightarrow>
                pbind (resolve_interleaved cs (k + 2) n) (\<lambda>res.
                  preturn (case res of Inl s \<Rightarrow> Inl s | Inr txs \<Rightarrow> Inr (tx # txs))))"

lemma add_tx_pool_grows:
  assumes "add_tx so L st c = (r, c')"
  shows "pool c \<subseteq>\<^sub>m pool c'"
  using add_tx_state[OF assms]
  by (auto simp: accept_tx_def tx_acceptable_def Let_def map_le_def dom_def)

lemma http_pool_grows:
  assumes "api_transaction so L request c = (Inr (res, tx), c')"
  shows "pool c \<subseteq>\<^sub>m pool c'"
  using api_transaction_state[OF assms] by (auto simp: http_submitted_def dest: add_tx_pool_grows)

lemma map_le_chain:
  assumes "\<And>i. m i \<subseteq>\<^sub>m m (Suc i)" and "i \<le> j"
  shows "m i \<subseteq>\<^sub>m m j"
  using assms(2) by (induction j rule: dec_induct) (auto intro: map_le_trans assms(1))

lemma resolve_txs_Suc_found:
  "take_hash r = Inr (h, r') \<Longrightarrow> pool c h = Some tx \<Longrightarrow>
   resolve_txs c (Suc n) r =
     pbind (resolve_txs c n) (\<lambda>res. preturn (case res of Inl s \<Rightarrow> Inl s | Inr txs \<Rightarrow> Inr (tx # txs))) r'"
  by (simp add: pbind_def[of take_hash] pool_contains_def get_pool_tx_def)

lemma resolve_interleaved_atomic:
  assumes grow: "\<And>i. pool (cs i) \<subseteq>\<^sub>m pool (cs (Suc i))"
  shows "\<exists>j. k \<le> j \<and> j \<le> k + 2 * n \<and> resolve_interleaved cs k n r = resolve_txs (cs j) n r"
proof (induction n arbitrary: k r)
  case 0
  then show ?case by auto
next
  case (Suc n)
  show ?case
  proof (cases "take_hash r")
    case (Inl e)
    then show ?thesis by (intro exI[of _ k]) (simp add: pbind_def)
  next
    case (Inr p)
    then obtain h r' where t: "take_hash r = Inr (h, r')" by (cases p) auto
    show ?thesis
    proof (cases "pool (cs k) h")
      case None
      with t show ?thesis by (intro exI[of _ k]) (simp add: pbind_def pool_contains_def)
    next
      case (Some tx)
      have later: "pool (cs j) h = Some tx" if "k \<le> j" for j
        using map_le_chain[of "\<lambda>i. pool (cs i)", OF grow that] Some by (auto simp: map_le_def dom_def)
      obtain j where j: "k + 2 \<le> j" "j \<le> k + 2 + 2 * n" "resolve_interleaved cs (k + 2) n r' = resolve_txs (cs j) n r'"
        using Suc by blast
      have "resolve_interleaved cs k (Suc n) r = resolve_txs (cs j) (Suc n) r"
        using resolve_txs_Suc_found[OF t later[of j]] j later[of "k + 1"] t Some
        by (simp add: pbind_def pool_contains_def get_pool_tx_def)
      with j show ?thesis by (intro exI[of _ j]) simp
    qed
  qed
qed

end
