(* ===== verification/History.thy ===== *)
theory History
  imports System
begin

text \<open>
  The ledger as the result of the accepted blocks: where each unspent output comes from, when the
  address index is sound, and what a repeated coinbase does to it.
\<close>

section \<open>The origin of unspent outputs\<close>

definition block_txs :: "block list \<Rightarrow> transaction set" where
  "block_txs blks = (\<Union>blk \<in> set blks. set (transactions blk))"

definition created_by :: "transaction set \<Rightarrow> outpoint \<Rightarrow> txoutput \<Rightarrow> bool" where
  "created_by txs op out \<longleftrightarrow>
     (\<exists>tx \<in> txs. txid tx = op_txid op \<and> unat (op_index op) < length (outputs tx) \<and>
                 outputs tx ! unat (op_index op) = out)"

definition origin_ok :: "transaction set \<Rightarrow> 'a ledger_scheme \<Rightarrow> bool" where
  "origin_ok txs l \<longleftrightarrow> (\<forall>op out. utxo l op = Some out \<longrightarrow> created_by txs op out)"

lemma origin_ok_apply_tx:
  assumes o: "origin_ok txs l" and tx: "tx \<in> txs" and n: "length (outputs tx) \<le> 2 ^ 32"
  shows "origin_ok txs (apply_tx tx l)"
  using o tx unfolding origin_ok_def utxo_apply_tx[OF n] created_by_def
  by (auto split: if_splits)

lemma created_by_unique:
  assumes inj: "inj_on txid txs" and a: "created_by txs op out" and b: "created_by txs op out'"
  shows "out = out'"
  using a b inj unfolding created_by_def by (metis inj_onD)

lemma index_sound_create_outputs:
  assumes inj: "inj_on txid txs" and tx: "tx \<in> txs"
  shows "index_sound l \<Longrightarrow> origin_ok txs l \<Longrightarrow> outs = drop (unat idx) (outputs tx) \<Longrightarrow>
    unat idx + length outs \<le> 2 ^ 32 \<Longrightarrow> index_sound (create_outputs (txid tx) idx outs l)"
proof (induction outs arbitrary: idx l)
  case Nil
  then show ?case by simp
next
  case (Cons out outs)
  let ?op = "\<lparr>op_txid = txid tx, op_index = idx\<rparr>"
  have len: "unat idx < length (outputs tx)" using Cons.prems(3) by (metis drop_all list.simps(3) not_le)
  have out: "out = outputs tx ! unat idx" and outs: "outs = drop (Suc (unat idx)) (outputs tx)"
    using Cons.prems(3) unfolding Cons_nth_drop_Suc[OF len, symmetric] by simp_all
  have made: "created_by txs ?op out" using tx len out by (auto simp: created_by_def)
  have "may_create ?op out l"
    using Cons.prems(2) created_by_unique[OF inj made]
    by (auto simp: may_create_def origin_ok_def)
  then have sound: "index_sound (create_output ?op out l)"
    using Cons.prems(1) by (rule index_sound_create_output[rotated])
  have origin: "origin_ok txs (create_output ?op out l)"
    using Cons.prems(2) made by (auto simp: origin_ok_def utxo_create_output)
  show ?case
  proof (cases "outs = []")
    case True
    with sound show ?thesis by simp
  next
    case False
    then have "unat (idx + 1) = Suc (unat idx)"
      using unat_Suc_u32[of idx] Cons.prems(4) by (cases outs) auto
    with Cons.IH[OF sound origin, of "idx + 1"] outs Cons.prems(4) show ?thesis by simp
  qed
qed

lemma index_sound_apply_tx:
  assumes inj: "inj_on txid txs" and tx: "tx \<in> txs" and n: "length (outputs tx) \<le> 2 ^ 32"
    and s: "index_sound l" and o: "origin_ok txs l"
  shows "index_sound (apply_tx tx l)"
proof -
  have "index_sound (fold spend (inputs tx) l)"
    using s by (rule fold_invariant_list[of _ index_sound, rotated]) (rule index_sound_spend)
  moreover have "origin_ok txs (fold spend (inputs tx) l)"
    using o by (auto simp: origin_ok_def utxo_spends split: if_splits)
  ultimately show ?thesis
    unfolding apply_tx_def using n by (intro index_sound_create_outputs[OF inj tx]) simp_all
qed

definition replay_inv :: "transaction set \<Rightarrow> 'a ledger_scheme \<Rightarrow> bool" where
  "replay_inv txs l \<longleftrightarrow> index_sound l \<and> origin_ok txs l \<and> index_complete l \<and> finite (dom (utxo l))"

lemma replay_inv_apply_txs:
  assumes inj: "inj_on txid txs"
  shows "set us \<subseteq> txs \<Longrightarrow> \<forall>tx \<in> set us. length (outputs tx) \<le> 2 ^ 32 \<Longrightarrow> replay_inv txs l \<Longrightarrow>
    replay_inv txs (fold apply_tx us l)"
proof (induction us arbitrary: l)
  case Nil
  then show ?case by simp
next
  case (Cons tx us)
  have "replay_inv txs (apply_tx tx l)"
    using Cons.prems
    by (auto simp: replay_inv_def intro!: index_sound_apply_tx[OF inj] origin_ok_apply_tx
        index_complete_apply_tx finite_utxo_apply_tx)
  with Cons show ?case by simp
qed

lemma replay_inv_replay:
  assumes inj: "inj_on txid (block_txs blks)"
    and n: "\<forall>tx \<in> block_txs blks. length (outputs tx) \<le> 2 ^ 32"
  shows "replay_inv (block_txs blks) (replay blks)"
proof -
  let ?txs = "block_txs blks"
  have empty: "replay_inv ?txs empty_ledger"
    by (simp add: replay_inv_def empty_ledger_def index_sound_def index_complete_def origin_ok_def
        index_of_def)
  show ?thesis
    unfolding replay_def
  proof (rule fold_invariant_list[where P = "replay_inv ?txs"])
    show "replay_inv ?txs empty_ledger" by (rule empty)
  next
    fix blk l assume "blk \<in> set blks" "replay_inv ?txs l"
    then show "replay_inv ?txs (apply_block blk l)"
      unfolding apply_block_def using n
      by (intro replay_inv_apply_txs[OF inj]) (auto simp: block_txs_def)
  qed
qed


lemma node_inv_replay:
  assumes "node_inv so contents c"
  shows "utxo c = utxo (replay (blocks c))"
  using assms by (metis history_inv_def node_inv_def utxo_truncate)

lemma reachable_index:
  assumes "leveldb_ok L contents" "db_reliable L" "sodium_ok so" "reachable so L s"
    and "inj_on txid (block_txs (blocks (sys_chain s)))"
  shows "index_sound (sys_chain s)" "index_complete (sys_chain s)"
proof -
  let ?c = "sys_chain s"
  have inv: "node_inv so contents ?c"
    using reachable_system_inv[OF assms(1-4)] by (simp add: system_inv_def)
  then have rep: "ledger.truncate ?c = replay (blocks ?c)" by (simp add: node_inv_def history_inv_def)
  have "\<forall>tx \<in> block_txs (blocks ?c). length (outputs tx) \<le> 2 ^ 32"
    using inv by (force simp: node_inv_def disk_inv_def list_all_iff block_txs_def block_ok_def framed_ok_def tx_ok_def)
  from replay_inv_replay[OF assms(5) this] have "replay_inv (block_txs (blocks ?c)) (ledger.truncate ?c)"
    by (simp add: rep)
  then show "index_sound ?c" "index_complete ?c"
    by (simp_all add: replay_inv_def index_sound_def index_complete_def)
qed

end
