(* ===== verification/Instances.thy ===== *)
theory Instances
  imports History
begin

text \<open>
  Concrete libraries for the parameters \<open>sodium\<close> and \<open>leveldb\<close>, on which the hypotheses about them
  hold and on which the definitions evaluate: a hash that reverses its input and then pads or cuts it, the hex coding of
  libsodium, and a database that is an association list. The witnesses of the properties are stated on
  these; no property is.
\<close>

section \<open>libsodium\<close>

definition padded :: "nat \<Rightarrow> bytes \<Rightarrow> bytes" where
  "padded n d = take n (rev d @ replicate n 0)"

definition hex_digit :: "nat \<Rightarrow> char" where
  "hex_digit n = (if n < 10 then char_of (48 + n) else char_of (87 + n))"

definition hex_value :: "char \<Rightarrow> nat option" where
  "hex_value ch =
     (let n = (of_char ch :: nat)
      in if 48 \<le> n \<and> n \<le> 57 then Some (n - 48)
         else if 97 \<le> n \<and> n \<le> 102 then Some (n - 87)
         else if 65 \<le> n \<and> n \<le> 70 then Some (n - 55) else None)"

definition hex_encode :: "bytes \<Rightarrow> string" where
  "hex_encode d = concat (map (\<lambda>b. [hex_digit (unat b div 16), hex_digit (unat b mod 16)]) d)"

fun hex_decode :: "string \<Rightarrow> bytes option" where
  "hex_decode [] = Some []"
| "hex_decode [a] = None"
| "hex_decode (a # b # cs) =
     (case (hex_value a, hex_value b, hex_decode cs) of
        (Some x, Some y, Some d) \<Rightarrow> Some (word_of_nat (16 * x + y) # d)
      | _ \<Rightarrow> None)"

definition ex_sodium :: sodium where
  "ex_sodium =
     \<lparr>generichash = padded,
      verify_detached = (\<lambda>sig m pk. if hd sig = 0 then 0 else -1),
      sign_detached = (\<lambda>m sk. replicate 64 0),
      bin2hex = hex_encode,
      hex2bin = (\<lambda>n s. case hex_decode s of None \<Rightarrow> None
                       | Some d \<Rightarrow> if length d \<le> n then Some d else None)\<rparr>"

lemma length_hex_encode: "length (hex_encode d) = 2 * length d"
  by (induction d) (simp_all add: hex_encode_def)

lemma hex_value_digit: "n < 16 \<Longrightarrow> hex_value (hex_digit n) = Some n"
  by (simp add: hex_value_def hex_digit_def Let_def)

lemma hex_decode_encode: "hex_decode (hex_encode d) = Some d"
proof (induction d)
  case Nil
  then show ?case by (simp add: hex_encode_def)
next
  case (Cons b d)
  have "unat b < 256" using unsigned_less[of b] by simp
  then have "hex_value (hex_digit (unat b div 16)) = Some (unat b div 16)"
    "hex_value (hex_digit (unat b mod 16)) = Some (unat b mod 16)"
    by (simp_all add: hex_value_digit less_mult_imp_div_less)
  with Cons show ?case by (simp add: hex_encode_def)
qed

lemma hex_decode_length: "hex_decode s = Some d \<Longrightarrow> length s = 2 * length d"
  by (induction s arbitrary: d rule: hex_decode.induct) (auto split: option.splits)

lemma ex_sodium_ok: "sodium_ok ex_sodium"
  by (auto simp: sodium_ok_def hash_lengths_ok_def bin2hex_ok_def hex2bin_ok_def ex_sodium_def
      padded_def length_hex_encode hex_decode_encode hex_decode_length split: option.splits if_splits)

lemma ex_sodium_simps [simp]:
  "generichash ex_sodium = padded" "bin2hex ex_sodium = hex_encode"
  "verify_detached ex_sodium sig m pk = (if hd sig = 0 then 0 else -1)"
  by (simp_all add: ex_sodium_def)


section \<open>LevelDB\<close>

type_synonym ex_db = "(string \<times> bytes) list"

definition ex_leveldb :: "ex_db leveldb" where
  "ex_leveldb =
     \<lparr>db_put = (\<lambda>k v db. (None, (k, v) # db)),
      db_delete = (\<lambda>k db. (None, filter (\<lambda>e. fst e \<noteq> k) db)),
      db_scan = (\<lambda>db. (map (\<lambda>k. (k, the (map_of db k))) (sort (remdups (map fst db))), None))\<rparr>"

lemma map_of_filter_fst: "map_of (filter (\<lambda>e. fst e \<noteq> k) db) = (map_of db)(k := None)"
  by (induction db) (auto simp: fun_eq_iff)

lemma map_of_map_keys: "map_of (map (\<lambda>k. (k, f k)) ks) k = (if k \<in> set ks then Some (f k) else None)"
  by (induction ks) auto

lemma ex_leveldb_ok: "leveldb_ok ex_leveldb map_of"
proof -
  have "sorted_wrt (<) (sort (remdups (map fst db)))" for db :: ex_db
    by (simp add: strict_sorted_iff)
  moreover have "map_of (map (\<lambda>k. (k, the (map_of db k))) (sort (remdups (map fst db)))) = map_of db"
    for db :: ex_db
    by (rule ext) (auto simp: map_of_map_keys dest: map_of_SomeD weak_map_of_SomeI
        intro: sym map_of_eq_None_iff[THEN iffD2])
  ultimately show ?thesis
    by (auto simp: leveldb_ok_def ex_leveldb_def map_of_filter_fst comp_def)
qed

lemma ex_leveldb_reliable: "db_reliable ex_leveldb"
  by (simp add: db_reliable_def ex_leveldb_def)


section \<open>A node on these libraries\<close>

definition ex_addr :: address where
  "ex_addr = (case GENESIS_ADDR ex_sodium of Inr a \<Rightarrow> a | Inl _ \<Rightarrow> [])"

definition ex_opened :: "string \<Rightarrow> string + ex_db" where
  "ex_opened name = Inr []"

lemma ex_scan_empty: "db_scan ex_leveldb [] = ([], None)"
  by (simp add: ex_leveldb_def)

lemma ex_genesis_addr: "GENESIS_ADDR ex_sodium = Inr ex_addr"
  by (simp add: ex_addr_def GENESIS_ADDR_def from_hex_def ex_sodium_def hex_value_def)


text \<open>The node after its first start, and what a wallet and a miner may send to it.\<close>

definition ex_node :: "ex_db chain" where
  "ex_node = projr (Chain_init ex_sodium ex_leveldb ex_opened)"

lemma ex_init: "Chain_init ex_sodium ex_leveldb ex_opened = Inr ex_node"
proof -
  have "\<not> isl (Chain_init ex_sodium ex_leveldb ex_opened)" by code_simp
  then show ?thesis unfolding ex_node_def by simp
qed

definition ex_system :: "(ex_db, nat) system" where
  "ex_system = \<lparr>sys_chain = ex_node, sys_conns = {}\<rparr>"

lemma ex_reachable: "reachable ex_sodium ex_leveldb ex_system"
  unfolding ex_system_def
  by (rule first_start[OF _ _ ex_scan_empty ex_scan_empty ex_init]) (simp_all add: ex_opened_def)

definition ex_genesis :: block where
  "ex_genesis = genesis_block ex_sodium ex_addr"

definition ex_op :: outpoint where
  "ex_op = \<lparr>op_txid = txid (hd (transactions ex_genesis)), op_index = 0\<rparr>"

definition ex_payment :: "outpoint list \<Rightarrow> u64 \<Rightarrow> parsed_create_tx" where
  "ex_payment ins v =
     \<lparr>pct_pubkey = replicate 12 0 @ rev ex_addr, pct_timestamp = 7, pct_inputs = ins,
      pct_outputs = [\<lparr>recipient = replicate 20 9, amount = v\<rparr>], pct_sig = replicate 64 0\<rparr>"

lemma length_ex_addr: "length ex_addr = 20"
  by code_simp

lemma ex_genesis_ok: "block_ok ex_sodium ex_genesis"
  unfolding ex_genesis_def by (rule genesis_block_ok[OF ex_sodium_ok length_ex_addr])


lemma ex_node_blocks: "blocks ex_node = [ex_genesis]"
  unfolding ex_genesis_def
  by (rule invariants_first_start(6)[OF ex_leveldb_ok ex_sodium_ok _ _ ex_scan_empty ex_scan_empty
        ex_genesis_addr _ ex_init]) (simp_all add: ex_opened_def ex_leveldb_def)


lemma ex_hex_to_bytes: "hex_to_bytes ex_sodium (hex_encode d) = Inr d"
  by (cases d) (simp_all add: hex_to_bytes_def length_hex_encode hex_decode_encode ex_sodium_def)

lemma ex_payment_ok: "length ins < 2 ^ 32 \<Longrightarrow> list_all outpoint_ok ins \<Longrightarrow> create_tx_ok (ex_payment ins v)"
  by (simp add: create_tx_ok_def ex_payment_def length_ex_addr txoutput_ok_def)

lemma ex_op_ok: "outpoint_ok ex_op"
  using ex_genesis_ok
  by (simp add: outpoint_ok_def ex_op_def block_ok_def ex_genesis_def genesis_block_def Let_def
      framed_ok_def tx_ok_def)

end
