(* ===== verification/Codec_Properties.thy ===== *)
theory Codec_Properties
  imports Instances
begin

text \<open>
  Properties of the binary formats, of transaction identifiers and of the Merkle root.
\<close>

section \<open>Binary formats\<close>

text \<open>C33. Decoding a stored transaction succeeds exactly on the bytes that start with the encoding of
  a well-formed transaction, and returns it; on all other bytes it throws the reader's exception.\<close>

theorem transaction_decoding:
  "(tx_of_bytes bs = Inr tx \<longleftrightarrow> tx_ok tx \<and> (\<exists>rest. bs = tx_serialize_str tx @ rest)) \<and>
   (tx_of_bytes bs = Inl e \<longleftrightarrow> e = reader_eof \<and> \<not> (\<exists>t rest. tx_ok t \<and> bs = tx_serialize_str t @ rest))"
proof -
  have dec: "tx_of_bytes bs = Inr t \<longleftrightarrow> tx_ok t \<and> (\<exists>rest. bs = tx_serialize_str t @ rest)" for t
    using tx_of_bytes_Inr tx_of_bytes_serialize by blast
  show ?thesis
  proof (cases "tx_of_bytes bs")
    case (Inl e')
    then have "e' = reader_eof" by (rule tx_of_bytes_exn)
    moreover have "\<not> (\<exists>t rest. tx_ok t \<and> bs = tx_serialize_str t @ rest)" using Inl dec by fastforce
    ultimately show ?thesis using Inl dec[of tx] by auto
  next
    case (Inr t)
    then have "\<exists>t rest. tx_ok t \<and> bs = tx_serialize_str t @ rest" using dec by blast
    with Inr dec[of tx] show ?thesis by simp
  qed
qed

text \<open>C34. A stored block is read back: decoding the encoding of a well-formed block, whatever bytes
  follow, returns the block and stops at the end of its encoding.\<close>

theorem block_roundtrip:
  assumes "block_ok so blk"
  shows "\<exists>r. block_deserialize so (mk_reader (block_serialize_str blk @ rest)) = Inr (blk, r) \<and>
    unread r = rest"
  using block_deserialize_put[OF assms, of "mk_reader (block_serialize_str blk @ rest)" rest] by simp

theorem block_roundtrip_witness:
  "\<exists>r. block_deserialize ex_sodium (mk_reader (block_serialize_str ex_genesis @ [1])) = Inr (ex_genesis, r) \<and>
    unread r = [1]"
  by (rule block_roundtrip[OF ex_genesis_ok])

text \<open>The encoding of a block is not unique: bytes added inside the frame of a transaction are
  ignored by the reader, which \<open>load_blocks\<close>, checking only the end of the block, does not notice.\<close>

theorem framed_tx_not_canonical:
  assumes ok: "tx_ok tx" and n: "length (tx_serialize_str tx @ junk) < 2 ^ 32"
  shows "\<exists>r. take_framed_tx (mk_reader (put_u32 (word_of_nat (length (tx_serialize_str tx @ junk))) [] @
      tx_serialize_str tx @ junk @ rest)) = Inr (tx, r) \<and> unread r = rest"
proof -
  let ?view = "tx_serialize_str tx @ junk"
  let ?r = "mk_reader (put_u32 (word_of_nat (length ?view)) [] @ ?view @ rest)"
  obtain r1 where r1: "take_u32 ?r = Inr (word_of_nat (length ?view), r1)" "unread r1 = ?view @ rest"
    by (rule wu32.read_next[OF TrueI, of ?r "word_of_nat (length ?view)" "?view @ rest"]) simp_all
  obtain r2 where r2: "take_view (length ?view) r1 = Inr (?view, r2)" "unread r2 = rest"
    by (rule wview.read_next[OF refl, of r1 ?view rest]) (simp_all add: r1(2) put_bytes_def)
  have "unat (word_of_nat (length ?view) :: u32) = length ?view" using n by (rule unat_u32_of_nat)
  then show ?thesis
    using r1 r2 tx_deserialize_serialize[OF ok, of junk]
    by (simp add: take_framed_tx_def pbind_def)
qed

definition ex_coinbase :: transaction where
  "ex_coinbase = mk_transaction ex_sodium [] [\<lparr>recipient = replicate 20 1, amount = 5\<rparr>] 9"

lemma ex_coinbase_ok: "tx_ok ex_coinbase"
  by (simp add: ex_coinbase_def tx_ok_def txoutput_ok_def ex_sodium_ok)

theorem framed_tx_not_canonical_witness:
  "\<exists>r. take_framed_tx (mk_reader (put_u32 (word_of_nat (length (tx_serialize_str ex_coinbase @ [1, 2]))) [] @
      tx_serialize_str ex_coinbase @ [1, 2] @ [])) = Inr (ex_coinbase, r) \<and> unread r = []"
proof (rule framed_tx_not_canonical[OF ex_coinbase_ok])
  show "length (tx_serialize_str ex_coinbase @ [1, 2]) < 2 ^ 32"
    by (simp add: length_tx_serialize[OF ex_coinbase_ok]) (simp add: ex_coinbase_def)
qed

text \<open>The TCP parser of a transaction submission accepts exactly the payloads that start with the
  documented encoding of a request with well-sized fields, ignoring the rest.\<close>

theorem tcp_transaction_payload:
  "parse_create_tx_payload payload = Inr p \<longleftrightarrow>
     create_tx_ok p \<and> (\<exists>rest. payload = put_create_tx p [] @ rest)"
  by (rule parse_create_tx_iff)

text \<open>The HTTP parser accepts the same requests, without bytes after them, and builds the same
  signed transaction as the TCP handler.\<close>

theorem http_transaction_payload:
  "parse_signed_transaction_payload so payload = Inr st \<longleftrightarrow>
     (\<exists>p. parse_create_tx_payload payload = Inr p \<and> payload = put_create_tx p [] \<and>
          st = submitted_tx so p)"
  unfolding parse_signed_iff parse_create_tx_iff by blast

text \<open>A block request in the documented format is understood: the parser resolves every listed
  identifier from the pool, puts the coinbase first, and refuses the request if one is missing.\<close>

theorem block_request_parsed:
  assumes "block_request_ok q"
  shows "parse_create_block_payload so (put_create_block q [] @ rest) c =
    Inr (if \<forall>id \<in> set (br_txids q). pool c id \<noteq> None then Inr (requested so c q)
         else Inl ''tx not in pool'')"
  by (rule parse_create_block_put[OF assms])

definition ex_request :: block_request where
  "ex_request =
     \<lparr>br_prev_hash = replicate 32 1, br_merkle = replicate 32 2, br_timestamp = 3, br_nonce = 4,
      br_address = replicate 20 5, br_reward = 6, br_cb_timestamp = 7, br_txids = [replicate 32 8]\<rparr>"

theorem block_request_parsed_witness:
  "parse_create_block_payload ex_sodium (put_create_block ex_request []) (blank_chain [] []) =
     Inr (Inl ''tx not in pool'')"
  using block_request_parsed[of ex_request ex_sodium "[]" "blank_chain [] []"]
  by (simp add: block_request_ok_def ex_request_def blank_chain_def)


section \<open>Transaction identifiers\<close>

text \<open>C28. Among transactions with the same number of inputs, the identifier commits to the whole
  content: two well-formed transactions with the same identifier agree in inputs, outputs and
  timestamp, unless their two hashed strings collide under BLAKE2b.\<close>

theorem txid_commits:
  assumes "txid_ok so tx" "txid_ok so tx'" "tx_ok tx" "tx_ok tx'"
    and "length (inputs tx) = length (inputs tx')"
    and "inj_on (blake2b so) {hash_preimage (inputs tx) (outputs tx) (tx_timestamp tx),
                              hash_preimage (inputs tx') (outputs tx') (tx_timestamp tx')}"
    and "txid tx = txid tx'"
  shows "tx = tx'"
proof -
  have "hash_preimage (inputs tx) (outputs tx) (tx_timestamp tx) =
      hash_preimage (inputs tx') (outputs tx') (tx_timestamp tx')"
    by (rule inj_onD[OF assms(6)]) (use assms(1,2,7) in \<open>simp_all add: txid_ok_def\<close>)
  with assms(3-5) have "inputs tx = inputs tx' \<and> outputs tx = outputs tx' \<and> tx_timestamp tx = tx_timestamp tx'"
    by (intro hash_preimage_inj) (auto simp: tx_ok_def)
  with assms(7) show ?thesis by simp
qed

theorem txid_commits_witness:
  "ex_coinbase = mk_transaction ex_sodium [] (outputs ex_coinbase) (tx_timestamp ex_coinbase)"
  by (rule txid_commits[of ex_sodium]) (simp_all add: ex_coinbase_def ex_sodium_ok tx_ok_def txoutput_ok_def)

text \<open>C27. The identifier does not commit to the number of inputs: 7 inputs take as many bytes as 9
  outputs, and the counts are not hashed. For every hash function there are different well-formed
  transactions with one identifier, the one with inputs and the other a coinbase.\<close>

theorem txid_ambiguous:
  "\<exists>tx tx'. txid_ok so tx \<and> txid_ok so tx' \<and> txid tx = txid tx' \<and>
     length (inputs tx) = 7 \<and> length (outputs tx) = 1 \<and> inputs tx' = [] \<and> length (outputs tx') = 10 \<and>
     list_all outpoint_ok (inputs tx) \<and> list_all txoutput_ok (outputs tx @ outputs tx')"
proof (intro exI conjI)
  let ?tx = "mk_transaction so (replicate 7 ambiguous_input) (replicate 1 ambiguous_output) ts"
  let ?tx' = "mk_transaction so [] (replicate 10 ambiguous_output) ts"
  show "txid ?tx = txid ?tx'"
    using hash_preimage_ambiguous[of 0 1 ts] by simp
qed (simp_all add: list_all_iff outpoint_ok_def txoutput_ok_def ambiguous_input_def ambiguous_output_def)


section \<open>Merkle roots\<close>

text \<open>C36. The loop of \<^verbatim>\<open>compute_merkle_root\<close> computes the root of the complete binary tree over the
  leaves, in which a missing right subtree repeats the left one.\<close>

theorem merkle_root_is_tree_root:
  assumes "leaves \<noteq> []" "length leaves \<le> 2 ^ d" "2 ^ d < 2 * length leaves"
  shows "compute_merkle_root so leaves = tree_root so d leaves"
  by (rule merkle_loop_tree[OF assms])

theorem merkle_root_is_tree_root_witness:
  "compute_merkle_root ex_sodium [[1], [2], [3]] = tree_root ex_sodium 2 [[1], [2], [3]]"
  by (rule merkle_root_is_tree_root) simp_all

text \<open>C37. The Merkle root of a block commits to the identifiers of its transactions, in order, among
  lists of the same length, unless two of the strings hashed for it collide.\<close>

theorem merkle_root_commits:
  assumes "sodium_ok so" "length txs = length txs'"
    and "\<forall>tx \<in> set txs \<union> set txs'. length (txid tx) = 32"
    and "inj_on (blake2b so) (set (merkle_inputs so (map txid txs)) \<union> set (merkle_inputs so (map txid txs')))"
    and "compute_block_merkle_root so txs = compute_block_merkle_root so txs'"
  shows "map txid txs = map txid txs'"
  using assms unfolding compute_block_merkle_root_def
  by (intro merkle_root_binding[of so]) auto

theorem merkle_root_commits_witness:
  "map txid [ex_coinbase] = map txid [mk_transaction ex_sodium [] (outputs ex_coinbase) 9]"
  by (rule merkle_root_commits[OF ex_sodium_ok])
    (simp_all add: ex_coinbase_def merkle_inputs.simps ex_sodium_ok)

text \<open>C38. The number of transactions is not committed to: repeating the last transaction of a block
  with an odd number of them, more than one, leaves the Merkle root, and so the block hash, unchanged.\<close>

theorem merkle_root_repeated_last:
  assumes "odd (length txs)" "length txs > 1"
  shows "mk_block so prev (txs @ [last txs]) ts n =
    (mk_block so prev txs ts n)\<lparr>transactions := txs @ [last txs]\<rparr>"
  using merkle_root_duplicate_last[of "map txid txs" so] assms
  by (simp add: mk_block_def Let_def compute_block_merkle_root_def last_map flip: length_greater_0_conv)

theorem merkle_root_repeated_last_witness:
  "block_hash (mk_block ex_sodium zero_hash [ex_coinbase, ex_coinbase, ex_coinbase, ex_coinbase] 1 2) =
   block_hash (mk_block ex_sodium zero_hash [ex_coinbase, ex_coinbase, ex_coinbase] 1 2)"
  using merkle_root_repeated_last[of "[ex_coinbase, ex_coinbase, ex_coinbase]" ex_sodium zero_hash 1 2]
  by (simp add: block_hash_def)

end
