(* ===== verification/Ledger_Properties.thy ===== *)
theory Ledger_Properties
  imports Instances
begin

text \<open>
  Properties of the unspent outputs: what a confirmed transaction does to them, the address index,
  the queries on it, and value.
\<close>

definition ex_chain :: "ex_db chain" where
  "ex_chain = (blank_chain [] [])\<lparr>utxo := [ex_op \<mapsto> \<lparr>recipient = ex_addr, amount = 15000000\<rparr>],
     address_utxo := [ex_addr \<mapsto> [ex_op]]\<rparr>"

definition ex_spend :: transaction where
  "ex_spend = st_tx (submitted_tx ex_sodium (ex_payment [ex_op] 15000000))"

lemma ex_chain_inv: "ledger_inv ex_chain" "finite (dom (utxo ex_chain))"
  by (auto simp: ex_chain_def ledger_inv_def index_complete_def index_sound_def index_pruned_def
      index_distinct_def index_of_def blank_chain_def split: if_splits)

lemma ex_spend_fields:
  "inputs ex_spend = [ex_op]" "outputs ex_spend = [\<lparr>recipient = replicate 20 9, amount = 15000000\<rparr>]"
  by (simp_all add: ex_spend_def submitted_tx_def ex_payment_def)

lemma ex_spend_id: "txid ex_spend \<noteq> op_txid ex_op"
  by code_simp

text \<open>Confirming a transaction removes exactly its inputs from the unspent outputs and adds exactly
  its outputs, output number \<open>i\<close> under the transaction's identifier and index \<open>i\<close>.\<close>

theorem confirmed_tx_effect:
  assumes "length (outputs tx) \<le> 2 ^ 32"
  shows "utxo (apply_tx tx l) op =
     (if op_txid op = txid tx \<and> unat (op_index op) < length (outputs tx)
      then Some (outputs tx ! unat (op_index op))
      else if op \<in> set (inputs tx) then None else utxo l op)"
  by (rule utxo_apply_tx[OF assms])

theorem confirmed_tx_effect_witness:
  "utxo (apply_tx ex_spend ex_chain) ex_op = None \<and>
   utxo (apply_tx ex_spend ex_chain) \<lparr>op_txid = txid ex_spend, op_index = 0\<rparr> =
     Some \<lparr>recipient = replicate 20 9, amount = 15000000\<rparr>"
  using confirmed_tx_effect[of ex_spend ex_chain ex_op]
    confirmed_tx_effect[of ex_spend ex_chain "\<lparr>op_txid = txid ex_spend, op_index = 0\<rparr>"] ex_spend_id
  by (simp add: ex_spend_fields)

text \<open>The address index stays exact: if it lists every unspent output once, under its recipient, and
  nothing else, it does so after confirming a transaction with a new identifier.\<close>

theorem address_index_exact:
  assumes "ledger_inv l" "fresh_tx tx l" "length (outputs tx) \<le> 2 ^ 32"
  shows "ledger_inv (apply_tx tx l)"
  by (rule ledger_inv_apply_tx[OF assms])

lemma ex_spend_fresh: "fresh_tx ex_spend ex_chain"
  using ex_spend_id by (auto simp: fresh_tx_def ex_chain_def)

theorem address_index_exact_witness: "ledger_inv (apply_tx ex_spend ex_chain)"
  by (rule address_index_exact[OF ex_chain_inv(1) ex_spend_fresh]) (simp add: ex_spend_fields)

text \<open>Asking for the outputs of an address returns, each once, the unspent outputs of that recipient
  with their amounts, except those a pending transaction spends.\<close>

theorem address_query_exact:
  assumes "ledger_inv c"
  shows "\<exists>res. get_utxos addr [] c = Inr res \<and> distinct res \<and>
    set res = {(op, v). \<exists>out. utxo c op = Some out \<and> recipient out = addr \<and> amount out = v \<and>
                        pool_spent c op = None}"
  by (rule get_utxos_exact[OF assms])

theorem address_query_exact_witness:
  "get_utxos ex_addr [] ex_chain = Inr [(ex_op, 15000000)] \<and>
   (\<exists>res. get_utxos ex_addr [] ex_chain = Inr res \<and> distinct res \<and>
    set res = {(op, v). \<exists>out. utxo ex_chain op = Some out \<and> recipient out = ex_addr \<and> amount out = v \<and>
                        pool_spent ex_chain op = None})"
proof
  show "get_utxos ex_addr [] ex_chain = Inr [(ex_op, 15000000)]"
    by (simp add: get_utxos_def ex_chain_def blank_chain_def)
qed (rule address_query_exact[OF ex_chain_inv(1)])

text \<open>A coinbase.\<close>

definition ex_reward :: transaction where
  "ex_reward = mk_transaction ex_sodium [] [\<lparr>recipient = replicate 20 3, amount = 3000000\<rparr>] 9"


section \<open>Value\<close>

lemma acceptable_value:
  assumes "tx_acceptable so st c"
  shows "outputs_value (outputs (st_tx st)) \<le> inputs_value (inputs (st_tx st)) c"
    and "set (inputs (st_tx st)) \<subseteq> dom (utxo c)"
  using assms by (auto simp: tx_acceptable_def Let_def)

text \<open>C17. When \<^verbatim>\<open>add_tx\<close> accepts a transaction, its outputs are worth no more than the unspent outputs it
  spends, over unbounded integers, and if its inputs are all different, confirming it does not increase the total
  value of the unspent outputs.\<close>

theorem accepted_tx_conserves_value:
  assumes "add_tx so L st c = (Inr TxError_None, c')" "finite (dom (utxo c))"
  shows "outputs_value (outputs (st_tx st)) \<le>
      (\<Sum>op \<leftarrow> inputs (st_tx st). case utxo c op of None \<Rightarrow> 0 | Some out \<Rightarrow> unat (amount out)) \<and>
    (distinct (inputs (st_tx st)) \<longrightarrow> total_value (apply_tx (st_tx st) c') \<le> total_value c')"
proof -
  have "check_tx so st c = TxError_None"
    using assms(1) by (cases "check_tx so st c = TxError_None") (simp_all add: add_tx_def)
  then have acc: "tx_acceptable so st c" by (simp add: check_tx_None_iff)
  have u: "utxo c' = utxo c" using assms(1) acc by (auto simp: add_tx_cases accept_tx_def Let_def split: prod.splits)
  have v: "outputs_value (outputs (st_tx st)) \<le> inputs_value (inputs (st_tx st)) c'"
    "set (inputs (st_tx st)) \<subseteq> dom (utxo c')" "finite (dom (utxo c'))"
    using acceptable_value[OF acc] assms(2) by (simp_all add: u inputs_value_def)
  have "total_value (apply_tx (st_tx st) c') \<le> total_value c'" if "distinct (inputs (st_tx st))"
    using total_value_apply_tx[OF v(3) that v(2)] v(1) by linarith
  with v(1) show ?thesis by (simp add: inputs_value_def u)
qed

definition ex_signed :: "outpoint list \<Rightarrow> u64 \<Rightarrow> signed_transaction" where
  "ex_signed ins v = submitted_tx ex_sodium (ex_payment ins v)"

lemma ex_signed_acceptable: "tx_acceptable ex_sodium (ex_signed [ex_op] 15000000) ex_chain"
proof -
  have "check_tx ex_sodium (ex_signed [ex_op] 15000000) ex_chain = TxError_None" by code_simp
  then show ?thesis by (simp add: check_tx_None_iff)
qed

theorem accepted_tx_conserves_value_witness:
  "\<exists>c'. add_tx ex_sodium ex_leveldb (ex_signed [ex_op] 15000000) ex_chain = (Inr TxError_None, c') \<and>
     total_value (apply_tx (st_tx (ex_signed [ex_op] 15000000)) c') \<le> total_value c'"
proof -
  obtain c' where a: "add_tx ex_sodium ex_leveldb (ex_signed [ex_op] 15000000) ex_chain = (Inr TxError_None, c')"
    using ex_signed_acceptable by (simp add: add_tx_cases Let_def ex_leveldb_def)
  from accepted_tx_conserves_value[OF a ex_chain_inv(2)] a show ?thesis
    by (simp add: ex_signed_def submitted_tx_def ex_payment_def)
qed

text \<open>C12. A transaction that lists one unspent output twice counts its value twice: the checks of
  \<^verbatim>\<open>add_tx\<close> pass for an output of twice the value, and confirming it creates that value from nothing.\<close>

theorem duplicate_input_creates_value:
  assumes "utxo c op = Some out" "recipient out = derive_address so pk"
    and "0 < unat (amount out)" "2 * unat (amount out) < 2 ^ 64"
    and "pool c (txid tx) = None" "pool_spent c op = None" "verify_sig so pk (txid tx) sig"
    and "inputs tx = [op, op]" "outputs tx = [\<lparr>recipient = a, amount = amount out + amount out\<rparr>]"
    and "\<forall>op'. op_txid op' = txid tx \<longrightarrow> utxo c op' = None" "finite (dom (utxo c))"
  shows "check_tx so \<lparr>st_tx = tx, st_pubkey = pk, st_sig = sig\<rparr> c = TxError_None \<and>
    total_value (apply_tx tx c) = total_value c + unat (amount out)"
proof
  have v: "unat (amount out + amount out) = 2 * unat (amount out)"
    using assms(4) by (simp add: unat_word_ariths)
  then have "amount out + amount out \<noteq> 0" using assms(3) by (metis mult_is_0 neq0_conv unat_0 zero_neq_numeral)
  with v show "check_tx so \<lparr>st_tx = tx, st_pubkey = pk, st_sig = sig\<rparr> c = TxError_None"
    using assms(1-9) by (simp add: check_tx_None_iff tx_acceptable_def Let_def inputs_value_def outputs_value_def)
  let ?op' = "\<lparr>op_txid = txid tx, op_index = 0\<rparr>"
  have "utxo (spend op c) op = None" by (simp add: utxo_spend)
  then have "apply_tx tx c = create_output ?op' \<lparr>recipient = a, amount = amount out + amount out\<rparr> (spend op c)"
    using assms(8,9) by (simp add: apply_tx_def) (simp add: spend_def[of op "spend op c"])
  moreover have "utxo (spend op c) ?op' = None" using assms(10) by (simp add: utxo_spend)
  ultimately have "total_value (apply_tx tx c) = total_value (spend op c) + 2 * unat (amount out)"
    using total_value_create_fresh[OF finite_utxo_spend[OF assms(11)]] v by simp
  with total_value_spend[OF assms(11,1)]
  show "total_value (apply_tx tx c) = total_value c + unat (amount out)" by simp
qed

lemma ex_twice_id: "txid (st_tx (ex_signed [ex_op, ex_op] 30000000)) \<noteq> op_txid ex_op"
  by code_simp

lemma ex_derive: "derive_address ex_sodium (st_pubkey (ex_signed [ex_op, ex_op] 30000000)) = ex_addr"
  by code_simp

theorem duplicate_input_creates_value_witness:
  "check_tx ex_sodium (ex_signed [ex_op, ex_op] 30000000) ex_chain = TxError_None \<and>
   total_value (apply_tx (st_tx (ex_signed [ex_op, ex_op] 30000000)) ex_chain) = total_value ex_chain + 15000000"
proof -
  let ?st = "ex_signed [ex_op, ex_op] 30000000"
  have st: "?st = \<lparr>st_tx = st_tx ?st, st_pubkey = st_pubkey ?st, st_sig = st_sig ?st\<rparr>" by simp
  have "check_tx ex_sodium \<lparr>st_tx = st_tx ?st, st_pubkey = st_pubkey ?st, st_sig = st_sig ?st\<rparr> ex_chain = TxError_None \<and>
    total_value (apply_tx (st_tx ?st) ex_chain) =
      total_value ex_chain + unat (amount \<lparr>recipient = ex_addr, amount = 15000000\<rparr>)"
    by (rule duplicate_input_creates_value[where op = ex_op and a = "replicate 20 9"])
      (use ex_twice_id ex_derive ex_chain_inv(2) in
        \<open>auto simp: ex_chain_def blank_chain_def verify_sig_def ex_signed_def submitted_tx_def ex_payment_def\<close>)
  then show ?thesis using st by simp
qed


section \<open>Reachable states\<close>

text \<open>C20. In every reachable state in which no two transactions of the chain share an identifier, asking
  for the outputs of an address does not throw, and returns just the unspent outputs of that
  recipient with their amounts that no pending transaction spends.\<close>

theorem address_query_reachable:
  assumes "leveldb_ok L contents" "db_reliable L" "sodium_ok so" "reachable so L s"
    and "inj_on txid (block_txs (blocks (sys_chain s)))"
  shows "\<exists>res. get_utxos addr [] (sys_chain s) = Inr res \<and>
    set res = {(op, v). \<exists>out. utxo (replay (blocks (sys_chain s))) op = Some out \<and> recipient out = addr \<and>
                        amount out = v \<and> pool_spent (sys_chain s) op = None}"
proof -
  let ?c = "sys_chain s"
  note idx = reachable_index[OF assms]
  let ?res = "map (\<lambda>op. (op, amount (the (utxo ?c op)))) (filter (\<lambda>op. pool_spent ?c op = None) (index_of addr ?c))"
  have "utxo ?c = utxo (replay (blocks ?c))"
    using reachable_system_inv[OF assms(1-4)] node_inv_replay by (auto simp: system_inv_def)
  moreover have "set ?res = {(op, v). \<exists>out. utxo ?c op = Some out \<and> recipient out = addr \<and>
                        amount out = v \<and> pool_spent ?c op = None}"
    using idx by (force simp: index_sound_def index_complete_def)
  ultimately show ?thesis using get_utxos_Inr[OF idx(1), of addr "[]"] by simp
qed

lemma ex_system_one_tx: "block_txs (blocks (sys_chain ex_system)) = {hd (transactions ex_genesis)}"
  by (simp add: ex_system_def ex_node_blocks block_txs_def ex_genesis_def genesis_block_def Let_def)

theorem address_query_reachable_witness:
  "\<exists>res. get_utxos ex_addr [] (sys_chain ex_system) = Inr res \<and>
    set res = {(op, v). \<exists>out. utxo (replay (blocks (sys_chain ex_system))) op = Some out \<and> recipient out = ex_addr \<and>
                        amount out = v \<and> pool_spent (sys_chain ex_system) op = None}"
  by (rule address_query_reachable[OF ex_leveldb_ok ex_leveldb_reliable ex_sodium_ok ex_reachable])
    (simp add: ex_system_one_tx)

end
