(* ===== verification/Chain_Properties.thy ===== *)
theory Chain_Properties
  imports Ledger_Properties
begin

text \<open>
  Properties of the chain: what \<open>add_tx\<close> accepts, proof of work, the stored blocks, the queries for
  blocks, a failing block store.
\<close>

section \<open>Transactions\<close>

text \<open>C4. \<open>add_tx\<close> returns no error, on a database that accepts the write, exactly for the transactions
  that satisfy the documented rules, with sums over the natural numbers; it then adds the transaction to
  the pool under its identifier, marks its inputs spent and stores it, and changes nothing else.\<close>

theorem add_tx_accepts:
  assumes "db_put L (hex_key so (txid (st_tx st))) (tx_serialize_str (st_tx st)) (pool_db c) = (None, db)"
  shows "add_tx so L st c = (Inr TxError_None, c') \<longleftrightarrow>
    tx_acceptable so st c \<and>
    c' = c\<lparr>pool_spent := (\<lambda>op. if op \<in> set (inputs (st_tx st)) then Some op else pool_spent c op),
           pool := (pool c)(txid (st_tx st) \<mapsto> st_tx st), pool_db := db\<rparr>"
proof -
  have "mark_spent (inputs (st_tx st)) (pool_spent c) =
      (\<lambda>op. if op \<in> set (inputs (st_tx st)) then Some op else pool_spent c op)"
    by (rule ext) (rule mark_spent_apply)
  then show ?thesis
    using assms by (auto simp: add_tx_cases Let_def accept_tx_def check_tx_None_iff)
qed

theorem add_tx_accepts_witness:
  "\<exists>c'. add_tx ex_sodium ex_leveldb (ex_signed [ex_op] 15000000) ex_chain = (Inr TxError_None, c') \<and>
    pool c' (txid ex_spend) = Some ex_spend"
proof -
  let ?st = "ex_signed [ex_op] 15000000"
  have st: "st_tx ?st = ex_spend" by (simp add: ex_spend_def ex_signed_def)
  obtain db where "db_put ex_leveldb (hex_key ex_sodium (txid (st_tx ?st))) (tx_serialize_str (st_tx ?st))
      (pool_db ex_chain) = (None, db)"
    by (simp add: ex_leveldb_def)
  from add_tx_accepts[OF this, THEN iffD2, OF conjI[OF ex_signed_acceptable refl]]
  show ?thesis by (intro exI conjI, assumption) (simp add: st)
qed

text \<open>A transaction that \<open>add_tx\<close> rejects leaves the chain as it was, memory and databases.\<close>

theorem add_tx_rejects:
  assumes "add_tx so L st c = (Inr e, c')" "e \<noteq> TxError_None"
  shows "c' = c \<and> e = check_tx so st c"
  using assms by (auto simp: add_tx_cases Let_def split: if_splits prod.splits option.splits)

theorem add_tx_rejects_witness:
  "snd (add_tx ex_sodium ex_leveldb (ex_signed [] 1) ex_chain) = ex_chain \<and>
   check_tx ex_sodium (ex_signed [] 1) ex_chain = TxError_InvalidPayload"
proof -
  have e: "check_tx ex_sodium (ex_signed [] 1) ex_chain = TxError_InvalidPayload" by code_simp
  then have "add_tx ex_sodium ex_leveldb (ex_signed [] 1) ex_chain =
      (Inr TxError_InvalidPayload, snd (add_tx ex_sodium ex_leveldb (ex_signed [] 1) ex_chain))"
    by (simp add: add_tx_def Let_def)
  from add_tx_rejects[OF this] e show ?thesis by simp
qed


section \<open>Proof of work\<close>

text \<open>The comparison with the target that the server makes and the loop over the leading bytes in
  \<^verbatim>\<open>verify_block_header\<close> are the same test, at every difficulty the target can express.\<close>

theorem target_is_leading_zeros:
  assumes "length h = 32" "unat d \<le> 32"
  shows "h \<le> build_target d \<longleftrightarrow> leading_zero_bytes (unat d) h"
  using target_leading_zeros[OF assms] by (metis linorder_not_less)

theorem target_is_leading_zeros_witness:
  "(replicate 3 0 @ replicate 29 7 \<le> build_target 3 \<longleftrightarrow> leading_zero_bytes 3 (replicate 3 0 @ replicate 29 7)) \<and>
   leading_zero_bytes 3 (replicate 3 0 @ replicate 29 7) \<and>
   \<not> leading_zero_bytes 3 (replicate 2 0 @ replicate 30 7)"
proof -
  have "leading_zero_bytes 3 (replicate 3 0 @ replicate 29 7)"
    "\<not> leading_zero_bytes 3 (replicate 2 0 @ replicate 30 7)" by code_simp+
  moreover have "unat (3 :: u8) = 3" by simp
  ultimately show ?thesis
    using target_is_leading_zeros[of "replicate 3 0 @ replicate 29 7" 3] by (simp only: length_append length_replicate) simp
qed


section \<open>Stored blocks\<close>

text \<open>The keys of the blocks sort as their heights, up to the largest 32-bit height: a scan of a
  blocks database in key order meets the blocks in the order of the chain.\<close>

theorem stored_blocks_in_order:
  assumes "leveldb_ok L contents" "disk_inv so contents c" "db_scan L (blocks_db c) = (entries, None)"
  shows "entries = map (\<lambda>i. (block_key (word_of_nat i), block_serialize_str (blocks c ! i))) [0..<length (blocks c)]"
proof -
  have "sorted_wrt (<) (map fst (stored_blocks (blocks c)))"
    using assms(2) by (intro stored_blocks_sorted) (simp add: disk_inv_def)
  moreover have "map_of entries = map_of (stored_blocks (blocks c))"
    using leveldb_okD(4)[OF assms(1,3)] assms(2) by (simp add: disk_inv_def)
  ultimately show ?thesis
    using sorted_entries_unique[OF leveldb_okD(3)[OF assms(1,3)]] by (simp add: stored_blocks_def)
qed

lemma ex_node_inv: "node_inv ex_sodium map_of ex_node"
  using reachable_system_inv[OF ex_leveldb_ok ex_leveldb_reliable ex_sodium_ok ex_reachable]
  by (simp add: system_inv_def ex_system_def)

lemma ex_scan: "db_scan ex_leveldb db = (fst (db_scan ex_leveldb db), None)"
  by (simp add: ex_leveldb_def)

theorem stored_blocks_in_order_witness:
  "fst (db_scan ex_leveldb (blocks_db ex_node)) = [(''0000000000'', block_serialize_str ex_genesis)]"
proof -
  have "disk_inv ex_sodium map_of ex_node" using ex_node_inv by (simp add: node_inv_def)
  from stored_blocks_in_order[OF ex_leveldb_ok this ex_scan]
  have "fst (db_scan ex_leveldb (blocks_db ex_node)) = [(block_key 0, block_serialize_str ex_genesis)]"
    by (simp add: ex_node_blocks)
  moreover have "block_key 0 = ''0000000000''" by code_simp
  ultimately show ?thesis by simp
qed


section \<open>Queries for blocks\<close>

text \<open>\<open>get_blocks\<close> returns the slice of the chain it is asked for, cut at the tip; its 32-bit
  arithmetic does not wrap.\<close>

theorem get_blocks_slice:
  assumes "length (blocks c) < 2 ^ 32"
  shows "get_blocks start count c = take (unat count) (drop (unat start) (blocks c))"
  by (rule get_blocks_eq[OF assms])

theorem get_blocks_slice_witness: "get_blocks 0 0xFFFFFFFF ex_node = [ex_genesis]"
  using get_blocks_slice[of ex_node 0 "0xFFFFFFFF"] by (simp add: ex_node_blocks)

text \<open>A lookup by hash returns the first block with that hash, with its height, and nothing exactly
  when no block has it.\<close>

theorem block_by_hash_first:
  assumes "length (blocks c) < 2 ^ 32"
  shows "(get_block_by_hash h c = None \<longleftrightarrow> h \<notin> block_hash ` set (blocks c)) \<and>
    (get_block_by_hash h c = Some (i, blk) \<longrightarrow>
       get_block i c = Some blk \<and> block_hash blk = h \<and>
       (\<forall>j < i. \<forall>b. get_block j c = Some b \<longrightarrow> block_hash b \<noteq> h))"
proof (intro conjI impI)
  show "get_block_by_hash h c = None \<longleftrightarrow> h \<notin> block_hash ` set (blocks c)"
    by (auto simp: get_block_by_hash_def find_block_None)
next
  assume "get_block_by_hash h c = Some (i, blk)"
  then have "find_block h 0 (blocks c) = Some (i, blk)" by (simp add: get_block_by_hash_def)
  moreover have "unat (0 :: u32) + length (blocks c) < 2 ^ 32" using assms by simp
  ultimately have "0 \<le> unat i \<and> unat i < unat (0 :: u32) + length (blocks c) \<and>
      blk = blocks c ! (unat i - unat (0 :: u32)) \<and> block_hash blk = h \<and>
      (\<forall>k < unat i - unat (0 :: u32). block_hash (blocks c ! k) \<noteq> h)"
    using find_block_Some[of 0 "blocks c" h i blk] by blast
  then have f: "unat i < length (blocks c) \<and> blk = blocks c ! unat i \<and> block_hash blk = h \<and>
    (\<forall>k < unat i. block_hash (blocks c ! k) \<noteq> h)"
    unfolding unsigned_0 by auto
  then show "get_block i c = Some blk" "block_hash blk = h" by (auto simp: get_block_def)
  show "\<forall>j < i. \<forall>b. get_block j c = Some b \<longrightarrow> block_hash b \<noteq> h"
    using f by (auto simp: get_block_def word_less_nat_alt split: if_splits)
qed

theorem block_by_hash_first_witness:
  "get_block_by_hash [] ex_node = None \<and>
   get_block_by_hash (block_hash ex_genesis) ex_node = Some (0, ex_genesis) \<and>
   get_block 0 ex_node = Some ex_genesis"
proof -
  have "block_hash ex_genesis \<noteq> []" by code_simp
  moreover have "get_block_by_hash (block_hash ex_genesis) ex_node = Some (0, ex_genesis)"
    by (simp add: get_block_by_hash_def ex_node_blocks)
  ultimately show ?thesis
    using block_by_hash_first[of ex_node "[]"] block_by_hash_first[of ex_node "block_hash ex_genesis" 0 ex_genesis]
    by (simp add: ex_node_blocks)
qed


section \<open>A failing store\<close>

text \<open>A database that refuses every write.\<close>

definition ex_broken :: "ex_db leveldb" where
  "ex_broken = ex_leveldb\<lparr>db_put := (\<lambda>k v db. (Some ''IO error'', db))\<rparr>"

end
