(* ===== verification/Node_Properties.thy ===== *)
theory Node_Properties
  imports Chain_Properties
begin

text \<open>
  Properties of the two servers: block submissions, client sessions, the HTTP number parser, sizes and
  charts.
\<close>

section \<open>Block submissions\<close>

text \<open>The decision of the server on a request in the documented format.\<close>

definition request_accepted :: "sodium \<Rightarrow> 'db chain \<Rightarrow> block_request \<Rightarrow> bool" where
  "request_accepted so c q \<longleftrightarrow>
     (\<forall>id \<in> set (br_txids q). pool c id \<noteq> None) \<and>
     br_merkle q = compute_block_merkle_root so (request_coinbase so q # map (\<lambda>id. the (pool c id)) (br_txids q)) \<and>
     block_hash (submitted_block so (requested so c q)) \<le> target c \<and> br_prev_hash q = tip_hash c"

lemma requested_fields:
  "mk_block so (pcb_prev_hash (requested so c q)) (pcb_transactions (requested so c q))
     (pcb_timestamp (requested so c q)) (pcb_nonce (requested so c q)) = submitted_block so (requested so c q)"
  "pcb_wire_merkle (requested so c q) = br_merkle q"
  "merkle_root (header (submitted_block so (requested so c q))) =
     compute_block_merkle_root so (request_coinbase so q # map (\<lambda>id. the (pool c id)) (br_txids q))"
  "prev_hash (header (submitted_block so (requested so c q))) = br_prev_hash q"
  by (simp_all add: submitted_block_def requested_def)

lemma on_create_block_request:
  assumes ok: "block_request_ok q" and add: "add_block so L (submitted_block so (requested so c q)) c = (Inr (), c2)"
    and r: "on_create_block so L (put_create_block q [] @ rest) c = (r, c')"
  shows "if request_accepted so c q
    then events r = [On_block_accepted (submitted_block so (requested so c q))] \<and> c' = c2
    else events r = [] \<and> c' = c"
proof (cases "\<forall>id \<in> set (br_txids q). pool c id \<noteq> None")
  case False
  then have p: "parse_create_block_payload so (put_create_block q [] @ rest) c = Inr (Inl ''tx not in pool'')"
    by (simp only: parse_create_block_put[OF ok] False if_False)
  from False have "\<not> request_accepted so c q" by (auto simp: request_accepted_def)
  with r show ?thesis by (auto simp: on_create_block_def p replies_def)
next
  case True
  then have p: "parse_create_block_payload so (put_create_block q [] @ rest) c = Inr (Inr (requested so c q))"
    using parse_create_block_put[OF ok, of so rest c] by simp
  let ?b = "submitted_block so (requested so c q)"
  have acc: "request_accepted so c q \<longleftrightarrow> merkle_root (header ?b) = br_merkle q \<and>
      \<not> block_hash ?b > target c \<and> br_prev_hash q = tip_hash c"
    using True unfolding request_accepted_def requested_fields by (metis linorder_not_less)
  have "(r, c') = on_create_block so L (put_create_block q [] @ rest) c" using r by simp
  then show ?thesis
    unfolding on_create_block_def p acc
    by (cases "merkle_root (header ?b) = br_merkle q"; cases "block_hash ?b > target c";
        cases "br_prev_hash q = tip_hash c")
      (simp_all add: requested_fields(1,2,4) replies_def Let_def add)
qed

text \<open>C8. On a database that does not fail, the node accepts a block request exactly when every listed
  transaction is pending, the Merkle root is the one of the coinbase and these transactions, the hash
  meets the target, and the request builds on the tip; the chain then ends with the block. Nothing
  else is looked at: not the timestamp, and not the amount of the coinbase.\<close>

theorem block_submission_accepted:
  assumes "block_request_ok q" "db_reliable L"
    and "on_create_block so L (put_create_block q [] @ rest) c = (r, c')"
    and "blk = submitted_block so (requested so c q)"
  shows "(events r = [On_block_accepted blk] \<longleftrightarrow>
      (\<forall>id \<in> set (br_txids q). pool c id \<noteq> None) \<and>
      br_merkle q = compute_block_merkle_root so (request_coinbase so q # map (\<lambda>id. the (pool c id)) (br_txids q)) \<and>
      block_hash blk \<le> target c \<and> br_prev_hash q = tip_hash c) \<and>
    (events r = [On_block_accepted blk] \<longrightarrow> blocks c' = blocks c @ [blk]) \<and>
    (events r \<noteq> [On_block_accepted blk] \<longrightarrow> c' = c)"
proof -
  obtain c2 where add: "add_block so L blk c = (Inr (), c2)"
    using db_reliable_add_block[OF assms(2)] by (metis surj_pair)
  have "blocks c2 = blocks c @ [blk]" using add_block_blocks[OF add] by simp
  with on_create_block_request[OF assms(1) add[unfolded assms(4)] assms(3)] show ?thesis
    unfolding assms(4) request_accepted_def by (auto split: if_splits)
qed

definition ex_block :: "u64 \<Rightarrow> u64 \<Rightarrow> block_request" where
  "ex_block ts reward =
     \<lparr>br_prev_hash = block_hash ex_genesis,
      br_merkle = txid (mk_transaction ex_sodium [] [\<lparr>recipient = replicate 20 3, amount = reward\<rparr>] 9),
      br_timestamp = ts, br_nonce = 5, br_address = replicate 20 3, br_reward = reward, br_cb_timestamp = 9,
      br_txids = []\<rparr>"

lemma ex_block_ok: "block_request_ok (ex_block ts reward)"
  using ex_genesis_ok ex_sodium_ok
  by (simp add: ex_block_def block_request_ok_def block_hash_def block_ok_def length_header_hash)

lemma ex_target: "target ex_node = build_target 3"
  using node_inv_target[OF ex_node_inv] by (simp add: target_def)

lemma ex_block_checks:
  "br_merkle (ex_block ts reward) = compute_block_merkle_root ex_sodium [request_coinbase ex_sodium (ex_block ts reward)]"
  "br_prev_hash (ex_block ts reward) = tip_hash ex_node"
  by (simp_all add: ex_block_def request_coinbase_def compute_block_merkle_root_def compute_merkle_root_single
      tip_hash_def ex_node_blocks)

lemma ex_block_hash:
  "block_hash (submitted_block ex_sodium (requested ex_sodium ex_node (ex_block 0 0xFFFFFFFFFFFFFFFF))) \<le> build_target 3"
proof -
  have "submitted_block ex_sodium (requested ex_sodium ex_node (ex_block 0 0xFFFFFFFFFFFFFFFF)) =
    submitted_block ex_sodium (requested ex_sodium (blank_chain [] ([] :: ex_db)) (ex_block 0 0xFFFFFFFFFFFFFFFF))"
    by (simp add: submitted_block_def requested_def ex_block_def)
  moreover have "block_hash (submitted_block ex_sodium (requested ex_sodium (blank_chain [] ([] :: ex_db))
      (ex_block 0 0xFFFFFFFFFFFFFFFF))) \<le> build_target 3" by code_simp
  ultimately show ?thesis by simp
qed

theorem block_submission_accepted_witness:
  "\<exists>r c'. on_create_block ex_sodium ex_leveldb (put_create_block (ex_block 0 0xFFFFFFFFFFFFFFFF) []) ex_node = (r, c') \<and>
     length (blocks c') = 2"
proof -
  let ?q = "ex_block 0 0xFFFFFFFFFFFFFFFF"
  obtain r c' where r: "on_create_block ex_sodium ex_leveldb (put_create_block ?q [] @ []) ex_node = (r, c')"
    by fastforce
  from block_submission_accepted[OF ex_block_ok ex_leveldb_reliable r refl] ex_block_hash ex_block_checks
  have "blocks c' = blocks ex_node @ [submitted_block ex_sodium (requested ex_sodium ex_node ?q)]"
    by (simp add: ex_target ex_block_def)
  with r show ?thesis by (simp add: ex_node_blocks)
qed


text \<open>C32. \<^verbatim>\<open>verify_block_header\<close> is not called: the server accepts a block that it would refuse, one
  whose timestamp is not after the tip's, and one whose coinbase creates any amount.\<close>

theorem unverified_header_accepted:
  assumes "block_request_ok q" "db_reliable L" "br_txids q = []"
    and "br_merkle q = txid (request_coinbase so q)" "br_prev_hash q = tip_hash c"
    and "block_hash (submitted_block so (requested so c q)) \<le> target c"
    and "br_timestamp q \<le> hd_timestamp (header (tip c))"
    and "on_create_block so L (put_create_block q []) c = (r, c')"
  shows "blocks c' = blocks c @ [submitted_block so (requested so c q)] \<and>
    \<not> verify_block_header c (submitted_block so (requested so c q)) \<and>
    outputs (hd (transactions (submitted_block so (requested so c q)))) =
      [\<lparr>recipient = br_address q, amount = br_reward q\<rparr>]"
proof -
  let ?b = "submitted_block so (requested so c q)"
  obtain c2 where add: "add_block so L ?b c = (Inr (), c2)"
    using db_reliable_add_block[OF assms(2)] by (metis surj_pair)
  have "request_accepted so c q"
    using assms(3-6) by (simp add: request_accepted_def compute_block_merkle_root_def compute_merkle_root_single)
  with on_create_block_request[OF assms(1) add, of "[]" r c'] assms(8) have "c' = c2" by simp
  moreover have "blocks c2 = blocks c @ [?b]" using add_block_blocks[OF add] by simp
  moreover have "hd_timestamp (header ?b) = br_timestamp q"
    by (simp add: submitted_block_def requested_def)
  moreover have "outputs (hd (transactions ?b)) = [\<lparr>recipient = br_address q, amount = br_reward q\<rparr>]"
    by (simp add: submitted_block_def requested_def request_coinbase_def)
  ultimately show ?thesis using assms(7) by (simp add: verify_block_header_def)
qed

theorem unverified_header_accepted_witness:
  "\<exists>r c'. on_create_block ex_sodium ex_leveldb (put_create_block (ex_block 0 0xFFFFFFFFFFFFFFFF) []) ex_node = (r, c') \<and>
     outputs (hd (transactions (last (blocks c')))) = [\<lparr>recipient = replicate 20 3, amount = 0xFFFFFFFFFFFFFFFF\<rparr>]"
proof -
  let ?q = "ex_block 0 0xFFFFFFFFFFFFFFFF"
  obtain r c' where r: "on_create_block ex_sodium ex_leveldb (put_create_block ?q []) ex_node = (r, c')"
    by fastforce
  have "blocks c' = blocks ex_node @ [submitted_block ex_sodium (requested ex_sodium ex_node ?q)] \<and>
    \<not> verify_block_header ex_node (submitted_block ex_sodium (requested ex_sodium ex_node ?q)) \<and>
    outputs (hd (transactions (submitted_block ex_sodium (requested ex_sodium ex_node ?q)))) =
      [\<lparr>recipient = br_address ?q, amount = br_reward ?q\<rparr>]"
    by (rule unverified_header_accepted[OF ex_block_ok ex_leveldb_reliable _ _ ex_block_checks(2) _ _ r])
      (simp_all add: ex_target ex_block_hash, simp_all add: ex_block_def request_coinbase_def)
  then have "outputs (hd (transactions (last (blocks c')))) = [\<lparr>recipient = br_address ?q, amount = br_reward ?q\<rparr>]"
    by simp
  with r show ?thesis by (simp add: ex_block_def)
qed


section \<open>Sessions\<close>

text \<open>A client session handles the messages of its input one after the other on the chain the
  previous one left, whatever way the bytes are split, until a handler throws; bytes at the end that are
  not a whole frame end it.\<close>

theorem session_handles_messages:
  assumes "\<forall>m \<in> set ms. length (snd m) + 2 < 2 ^ 32" and "read_frame tail = Inl e"
  shows "handle_client so L iter (concat (map (\<lambda>m. encode_frame (fst m) (snd m)) ms) @ tail) c =
    run_messages so L iter ms e c"
  by (rule handle_client_frames[OF assms])

theorem session_handles_messages_witness:
  "handle_client ex_sodium ex_leveldb (\<lambda>_. []) (encode_frame 5 [] @ encode_frame 1 [9] @ [1]) ex_chain =
    ([on_get_difficulty ex_chain, \<lparr>reply = None, events = []\<rparr>], End_of_file, ex_chain)"
  using session_handles_messages[of "[(5, []), (1, [9])]" "[1]" End_of_file ex_sodium ex_leveldb "\<lambda>_. []" ex_chain]
  by (simp add: read_frame_def handle_msg_def)


section \<open>The HTTP server\<close>

text \<open>The route for the tip reads the height and the block one after the other. When a block is accepted in
  between, the reply shows the new block under the height of its predecessor.\<close>

theorem tip_reply_torn:
  assumes "height c = word_of_nat (length (blocks c))" "blocks c \<noteq> []" "length (blocks c) < 2 ^ 32"
    and "blocks c' = blocks c @ [blk]"
  shows "\<exists>h. api_tip so c c' = json_response 200 (block_json so blk h) \<and>
    get_block h c' = Some (last (blocks c)) \<and> get_block (h + 1) c' = Some blk"
proof -
  let ?n = "length (blocks c)"
  have n: "unat (word_of_nat ?n :: u32) = ?n" using assms(3) by (rule unat_u32_of_nat)
  then have "(word_of_nat ?n :: u32) \<noteq> 0" using assms(2) by (metis length_0_conv unat_0)
  then have "unat (word_of_nat ?n - 1 :: u32) = ?n - 1" using n by (simp add: unat_minus_one)
  moreover have "?n - 1 < ?n" using assms(2) by simp
  ultimately have "get_block (word_of_nat ?n - 1) c' = Some (last (blocks c))"
    using assms(2,4) by (simp add: get_block_def nth_append last_conv_nth)
  moreover have "get_block (word_of_nat ?n - 1 + 1) c' = Some blk"
    using n assms(4) by (simp add: get_block_def)
  moreover have "api_tip so c c' = json_response 200 (block_json so blk (word_of_nat ?n - 1))"
    using \<open>(word_of_nat ?n :: u32) \<noteq> 0\<close> assms(1,4) by (simp add: api_tip_def tip_def)
  ultimately show ?thesis by blast
qed

theorem tip_reply_torn_witness:
  "api_tip ex_sodium ex_node (ex_node\<lparr>blocks := [ex_genesis, mk_block ex_sodium (block_hash ex_genesis) [] 0 0]\<rparr>) =
     json_response 200 (block_json ex_sodium (mk_block ex_sodium (block_hash ex_genesis) [] 0 0) 0) \<and>
   (\<exists>h. get_block h (ex_node\<lparr>blocks := [ex_genesis, mk_block ex_sodium (block_hash ex_genesis) [] 0 0]\<rparr>) = Some ex_genesis)"
proof -
  have h: "height ex_node = word_of_nat (length (blocks ex_node))"
    using ex_node_inv by (simp add: node_inv_def history_inv_def height_def)
  have "\<exists>h. api_tip ex_sodium ex_node (ex_node\<lparr>blocks := [ex_genesis, mk_block ex_sodium (block_hash ex_genesis) [] 0 0]\<rparr>) =
      json_response 200 (block_json ex_sodium (mk_block ex_sodium (block_hash ex_genesis) [] 0 0) h) \<and>
    get_block h (ex_node\<lparr>blocks := [ex_genesis, mk_block ex_sodium (block_hash ex_genesis) [] 0 0]\<rparr>) = Some (last (blocks ex_node)) \<and>
    get_block (h + 1) (ex_node\<lparr>blocks := [ex_genesis, mk_block ex_sodium (block_hash ex_genesis) [] 0 0]\<rparr>) =
      Some (mk_block ex_sodium (block_hash ex_genesis) [] 0 0)"
    by (rule tip_reply_torn[OF h]) (simp_all add: ex_node_blocks)
  moreover have "api_tip ex_sodium ex_node (ex_node\<lparr>blocks := [ex_genesis, mk_block ex_sodium (block_hash ex_genesis) [] 0 0]\<rparr>) =
     json_response 200 (block_json ex_sodium (mk_block ex_sodium (block_hash ex_genesis) [] 0 0) 0)"
    using h by (simp add: api_tip_def tip_def ex_node_blocks)
  ultimately show ?thesis by (auto simp: ex_node_blocks)
qed

text \<open>The size the HTTP server reports for a block, computed from the numbers of inputs and outputs,
  is the number of bytes of its serialization.\<close>

theorem reported_size_exact:
  assumes "block_ok so blk"
  shows "block_serialized_size blk = length (block_serialize_str blk)"
  by (rule block_serialized_size_exact[OF assms])

theorem reported_size_exact_witness:
  "block_serialized_size ex_genesis = 164 \<and> length (block_serialize_str ex_genesis) = 164"
proof -
  have "block_serialized_size ex_genesis = 164"
    by (simp add: ex_genesis_def genesis_block_def Let_def block_serialized_size_def tx_size_def size_constants)
  with reported_size_exact[OF ex_genesis_ok] show ?thesis by simp
qed

text \<open>The number parser of the HTTP server accepts exactly the nonempty strings of decimal digits whose
  value fits 32 bits, whatever leading zeros, and returns that value.\<close>

theorem parse_u32_decimal:
  "parse_u32 s = Some n \<longleftrightarrow> s \<noteq> [] \<and> list_all is_digit s \<and> digits_value s = unat n"
  by (rule parse_u32_Some_iff)

text \<open>C40. The charts cover 24 hours ending with the current one. Each shows the number of blocks of that
  hour, except the first: its blocks are left out by a strict comparison, so it always shows none.\<close>

theorem charts_hours:
  assumes "23 * 3600 \<le> unat (hour_of now)" "unat (hour_of now) + 3600 < 2 ^ 64"
    and "height c = word_of_nat (length (blocks c))" "length (blocks c) < 2 ^ 32"
  shows "chart_slots now = Some (map (\<lambda>i. hour_of now - 23 * kHour + word_of_nat i * kHour) [0..<24]) \<and>
    hour_counts now (height c) (\<lambda>i. get_block i c) (hour_of now - 23 * kHour) = 0 \<and>
    (\<forall>h > hour_of now - 23 * kHour.
       hour_counts now (height c) (\<lambda>i. get_block i c) h = word_of_nat (length (filter (\<lambda>blk. block_hour blk = h) (blocks c))))"
  using chart_slots_24[OF assms(1,2)] chart_blocks_all[OF assms(3,4), of 0]
  by (simp add: hour_counts_eq)

theorem charts_hours_witness:
  "hour_counts 1781548000 (height ex_node) (\<lambda>i. get_block i ex_node) 1781542800 = 1 \<and> hour_counts 1781628199 (height ex_node) (\<lambda>i. get_block i ex_node) 1781542800 = 0"
proof -
  have h: "height ex_node = word_of_nat (length (blocks ex_node))"
    using ex_node_inv by (simp add: node_inv_def history_inv_def height_def)
  have b: "block_hour ex_genesis = 1781542800"
    by (simp add: ex_genesis_def genesis_block_def Let_def block_hour_def hour_of_def kHour_def)
  have "hour_of 1781548000 = 1781546400" "hour_of 1781628199 = 1781625600" by (simp_all add: hour_of_def kHour_def)
  with charts_hours[of 1781548000 ex_node] charts_hours[of 1781628199 ex_node] h
  show ?thesis by (simp add: ex_node_blocks b kHour_def)
qed

end
