(* ===== verification/Pending_Instance.thy ===== *)
theory Pending_Instance
  imports Node_Properties
begin

text \<open>
  A second reachable state for the witnesses: the node of theory Instances after a wallet has sent it a
  transaction, and the request of a miner that lists this transaction.
\<close>

section \<open>The node\<close>

lemma ex_node_fields:
  "utxo ex_node = [ex_op \<mapsto> \<lparr>recipient = ex_addr, amount = 15000000\<rparr>]"
  "pool ex_node = Map.empty" "pool_spent ex_node = Map.empty" "address_utxo ex_node = [ex_addr \<mapsto> [ex_op]]"
proof -
  obtain bdb' where put: "db_put ex_leveldb (block_key 0) (block_serialize_str (genesis_block ex_sodium ex_addr)) [] =
      (None, bdb')"
    by (simp add: ex_leveldb_def)
  note i = Chain_init_empty[OF _ _ ex_scan_empty ex_scan_empty ex_genesis_addr put, of ex_opened]
  have n: "ex_node = (fold apply_tx (transactions (genesis_block ex_sodium ex_addr)) (blank_chain bdb' []))
      \<lparr>blocks := [genesis_block ex_sodium ex_addr], chain_height := 1, chain_target := build_target 3\<rparr>"
    using i ex_init by (simp add: ex_opened_def)
  show "utxo ex_node = [ex_op \<mapsto> \<lparr>recipient = ex_addr, amount = 15000000\<rparr>]"
    "pool ex_node = Map.empty" "pool_spent ex_node = Map.empty" "address_utxo ex_node = [ex_addr \<mapsto> [ex_op]]"
    unfolding n
    by (simp_all add: genesis_apply apply_tx_def create_output_def blank_chain_def ex_op_def ex_genesis_def index_of_def
        genesis_block_def Let_def UNITS_def)
qed

lemma tx_acceptable_cong:
  "utxo c = utxo d \<Longrightarrow> pool c = pool d \<Longrightarrow> pool_spent c = pool_spent d \<Longrightarrow>
   tx_acceptable so st c \<longleftrightarrow> tx_acceptable so st d"
  by (simp add: tx_acceptable_def inputs_value_def)

definition ex_paid :: "ex_db chain" where
  "ex_paid = snd (add_tx ex_sodium ex_leveldb (ex_signed [ex_op] 15000000) ex_node)"

lemma ex_signed_tx: "st_tx (ex_signed [ex_op] 15000000) = ex_spend"
  by (simp add: ex_signed_def ex_spend_def)

lemma ex_node_acceptable: "tx_acceptable ex_sodium (ex_signed [ex_op] 15000000) ex_node"
  using ex_signed_acceptable
  by (subst tx_acceptable_cong[of ex_node ex_chain]) (simp_all add: ex_node_fields ex_chain_def blank_chain_def)

lemma ex_paid_add:
  "add_tx ex_sodium ex_leveldb (ex_signed [ex_op] 15000000) ex_node = (Inr TxError_None, ex_paid)"
  using ex_node_acceptable by (simp add: ex_paid_def add_tx_cases Let_def ex_leveldb_def)

lemma ex_paid_fields:
  "utxo ex_paid = utxo ex_node" "blocks ex_paid = [ex_genesis]" "pool ex_paid = [txid ex_spend \<mapsto> ex_spend]"
  "chain_target ex_paid = build_target 3"
  using ex_node_acceptable node_inv_target[OF ex_node_inv]
  by (simp_all add: ex_paid_def add_tx_cases Let_def ex_leveldb_def accept_tx_def ex_node_fields
      ex_signed_tx ex_node_blocks)

definition ex_paid_system :: "(ex_db, nat) system" where
  "ex_paid_system = \<lparr>sys_chain = ex_paid, sys_conns = {}\<rparr>"

lemma ex_payment_request:
  "parse_create_tx_payload (put_create_tx (ex_payment [ex_op] v) []) = Inr (ex_payment [ex_op] v)"
  "length (put_create_tx (ex_payment [ex_op] v) []) = 176"
proof -
  have ok: "create_tx_ok (ex_payment [ex_op] v)" by (rule ex_payment_ok) (simp_all add: ex_op_ok)
  then show "parse_create_tx_payload (put_create_tx (ex_payment [ex_op] v) []) = Inr (ex_payment [ex_op] v)"
    by (auto simp: parse_create_tx_iff)
  show "length (put_create_tx (ex_payment [ex_op] v) []) = 176"
    using length_put_create_tx[OF ok] by (simp add: ex_payment_def)
qed

lemma ex_paid_reachable: "reachable ex_sodium ex_leveldb ex_paid_system"
proof -
  let ?payload = "put_create_tx (ex_payment [ex_op] 15000000) []"
  obtain r where "on_create_tx ex_sodium ex_leveldb ?payload ex_node = (r, ex_paid)"
    using on_create_tx_parsed[OF ex_payment_request(1), of ex_sodium ex_leveldb 15000000 ex_node] ex_paid_add
    by (simp add: ex_signed_def)
  then have h: "handle_msg ex_sodium ex_leveldb (\<lambda>_. []) (msg_code CreateTransaction) ?payload (sys_chain ex_system) =
      (Inr r, ex_paid)"
    by (simp add: handle_msg_def ex_system_def)
  have len: "length ?payload + 2 < 2 ^ 32" by (simp add: ex_payment_request(2))
  have "length (blocks (sys_chain ex_system)) < 2 ^ 32" by (simp add: ex_system_def ex_node_blocks)
  from tcp_message[OF len this h] show ?thesis
    by (rule reachable.step[OF ex_reachable, THEN back_subst[of "reachable ex_sodium ex_leveldb"]])
      (simp add: ex_system_def ex_paid_system_def)
qed

lemmas ex_paid_inv = reachable_system_inv[OF ex_leveldb_ok ex_leveldb_reliable ex_sodium_ok ex_paid_reachable]

section \<open>The request\<close>

text \<open>A miner's request that lists the pending transaction.\<close>

definition ex_listing :: block_request where
  "ex_listing =
     \<lparr>br_prev_hash = block_hash ex_genesis,
      br_merkle = compute_block_merkle_root ex_sodium
        [mk_transaction ex_sodium [] [\<lparr>recipient = replicate 20 3, amount = 3000000\<rparr>] 9, ex_spend],
      br_timestamp = 1781545400, br_nonce = 5, br_address = replicate 20 3, br_reward = 3000000,
      br_cb_timestamp = 9, br_txids = [txid ex_spend]\<rparr>"

definition ex_listed_block :: block where
  "ex_listed_block = mk_block ex_sodium (block_hash ex_genesis)
     [mk_transaction ex_sodium [] [\<lparr>recipient = replicate 20 3, amount = 3000000\<rparr>] 9, ex_spend] 1781545400 5"

lemma ex_listed: "submitted_block ex_sodium (requested ex_sodium ex_paid ex_listing) = ex_listed_block"
  by (simp add: submitted_block_def requested_def ex_listing_def ex_listed_block_def request_coinbase_def
      ex_paid_fields)

lemma ex_listed_hash: "block_hash ex_listed_block \<le> build_target 3"
  by code_simp

lemma ex_listing_ok: "block_request_ok ex_listing"
  using ex_block_ok[of 0 0] ex_sodium_ok
  by (simp add: block_request_ok_def ex_listing_def ex_block_def ex_spend_def submitted_tx_def
      compute_block_merkle_root_def length_compute_merkle_root)

lemma ex_listing_accepted: "request_accepted ex_sodium ex_paid ex_listing"
  unfolding request_accepted_def ex_listed
  using ex_listed_hash
  by (simp add: ex_paid_fields target_def tip_hash_def)
    (simp add: ex_listing_def request_coinbase_def)


lemma ex_listing_confirmed:
  obtains re c' where "on_create_block ex_sodium ex_leveldb (put_create_block ex_listing []) ex_paid = (re, c')"
    and "events re = [On_block_accepted ex_listed_block]"
proof -
  obtain c2 where add: "add_block ex_sodium ex_leveldb ex_listed_block ex_paid = (Inr (), c2)"
    using db_reliable_add_block[OF ex_leveldb_reliable] by (metis surj_pair)
  obtain re c' where r: "on_create_block ex_sodium ex_leveldb (put_create_block ex_listing [] @ []) ex_paid = (re, c')"
    by fastforce
  from on_create_block_request[OF ex_listing_ok add[folded ex_listed] r] ex_listing_accepted
  have "events re = [On_block_accepted ex_listed_block]" by (simp add: ex_listed)
  with r that show ?thesis by simp
qed

text \<open>The payment as an HTTP request.\<close>

definition ex_request :: "crow_body option" where
  "ex_request = Some (Crow_object [''rawTx'' \<mapsto> Crow_String (hex_encode (put_create_tx (ex_payment [ex_op] 15000000) []))])"

lemma ex_http_pays:
  obtains response where "api_transaction ex_sodium ex_leveldb ex_request ex_node = (Inr (response, Some ex_spend), ex_paid)"
proof -
  let ?p = "ex_payment [ex_op] 15000000"
  have "parse_signed_transaction_payload ex_sodium (put_create_tx ?p []) = Inr (ex_signed [ex_op] 15000000)"
    using ex_payment_ok[of "[ex_op]" 15000000] ex_op_ok unfolding parse_signed_iff ex_signed_def by auto
  moreover have "length (hex_encode (put_create_tx ?p [])) \<le> kMaxRawTxHexChars"
    by (simp add: length_hex_encode ex_payment_request(2) kMaxRawTxHexChars_def)
  ultimately show ?thesis
    using that by (simp add: api_transaction_def submit_raw_tx_def ex_request_def ex_hex_to_bytes ex_paid_add ex_signed_tx)
qed

end
