(* ===== verification/Crash.thy ===== *)
theory Crash
  imports System
begin

text \<open>
  A crash of the process while it handles a block. \<^verbatim>\<open>add_block\<close> deletes the confirmed transactions from the
  pool database one by one and stores the block last, so the databases left by a crash are those of
  the loop stopped after any number of transactions. Modelled as one more step of the program, which ends
  in a restart on these databases. Shown: the restarted node is consistent, and it is the node before
  the block without the transactions already deleted. Every other write of the program is a single
  operation of a database, so a crash next to it leaves the databases of a step that is complete or has not
  begun, followed by a restart.
\<close>

section \<open>The state after a crash\<close>

text \<open>The chain \<open>c\<close> without the pending transactions of the identifiers \<open>ids\<close>.\<close>

definition forget :: "hash set \<Rightarrow> 'db \<Rightarrow> 'db chain \<Rightarrow> 'db chain" where
  "forget ids db c =
     c\<lparr>pool := pool c |` (- ids),
       pool_spent := (\<lambda>op. if \<exists>h tx. h \<notin> ids \<and> pool c h = Some tx \<and> op \<in> set (inputs tx)
                           then Some op else None),
       pool_db := db\<rparr>"

lemma forget_simps [simp]:
  "utxo (forget ids db c) = utxo c" "address_utxo (forget ids db c) = address_utxo c"
  "blocks (forget ids db c) = blocks c" "chain_height (forget ids db c) = chain_height c"
  "chain_difficulty (forget ids db c) = chain_difficulty c" "chain_target (forget ids db c) = chain_target c"
  "blocks_db (forget ids db c) = blocks_db c" "pool_db (forget ids db c) = db"
  "pool (forget ids db c) = pool c |` (- ids)"
  "ledger.truncate (forget ids db c) = ledger.truncate c"
  by (simp_all add: forget_def ledger.truncate_def)

lemma pool_inv_forget:
  assumes inv: "pool_inv c"
  shows "pool_inv (forget ids db c)"
proof -
  have "pool_spent_exact (forget ids db c)" "pool_spent_self (forget ids db c)"
    by (auto simp: pool_spent_exact_def pool_spent_self_def forget_def restrict_map_def split: if_splits)
  moreover have "pool_entries_ok (forget ids db c)"
    using pool_invD(1-3)[OF inv] by (auto simp: pool_entries_ok_def restrict_map_def split: if_splits)
  moreover have "pool_disjoint (forget ids db c)"
    using inv by (auto simp: pool_inv_def pool_disjoint_def restrict_map_def split: if_splits)
  ultimately show ?thesis by (simp add: pool_inv_def)
qed

lemma node_inv_forget:
  assumes inv: "node_inv so contents c" and db: "pool_stored so (contents db) (pool c |` (- ids))"
  shows "node_inv so contents (forget ids db c)"
  using inv pool_inv_forget[of c ids db] db
  by (auto simp: node_inv_def history_inv_def disk_inv_def restrict_map_def split: if_splits)

text \<open>The identifiers deleted by the loop, and what it leaves of the pool.\<close>

definition cleared_ids :: "transaction list \<Rightarrow> hash set" where
  "cleared_ids txs = txid ` {tx \<in> set txs. inputs tx \<noteq> []}"

lemma confirm_tx_pool:
  "confirm_tx so L tx c = (r, c') \<Longrightarrow> pool c' = pool c |` (- cleared_ids [tx])"
  by (drule confirm_tx_state)
    (auto simp: clear_tx_def cleared_ids_def frame_simps restrict_map_def fun_eq_iff)

lemma confirm_txs_pool:
  "confirm_txs so L txs c = (Inr u, c') \<Longrightarrow> pool c' = pool c |` (- cleared_ids txs)"
proof (induction txs arbitrary: c)
  case Nil
  then show ?case by (simp add: cleared_ids_def)
next
  case (Cons tx txs)
  then obtain u1 c1 where c1: "confirm_tx so L tx c = (Inr u1, c1)"
    and c': "confirm_txs so L txs c1 = (Inr u, c')"
    by (auto simp: sbind_Inr_iff)
  have "cleared_ids (tx # txs) = cleared_ids [tx] \<union> cleared_ids txs"
    by (auto simp: cleared_ids_def)
  with Cons.IH[OF c'] confirm_tx_pool[OF c1] show ?case by (simp add: Int_commute)
qed

text \<open>A restart on the databases of the interrupted loop.\<close>

lemma crash_restart:
  assumes L: "leveldb_ok L contents" "db_reliable L" and so: "sodium_ok so"
    and inv: "node_inv so contents c" and d: "confirm_txs so L txs c = (Inr (), d)"
    and o: "opened ''blocks'' = Inr (blocks_db d)" "opened ''pool'' = Inr (pool_db d)"
    and r: "Chain_init so L opened = Inr c'"
  shows "c' = forget (cleared_ids txs) (pool_db d) c" and "node_inv so contents c'"
proof -
  have "pool_stored so (contents (pool_db c)) (pool c)"
    using inv by (simp add: node_inv_def disk_inv_def)
  from pool_disk_confirm_txs[OF L(1) so this d]
  have "pool_stored so (contents (pool_db d)) (pool c |` (- cleared_ids txs))"
    by (simp add: confirm_txs_pool[OF d])
  from node_inv_forget[OF inv this] have n: "node_inv so contents (forget (cleared_ids txs) (pool_db d) c)" .
  have "blocks_db d = blocks_db c" using confirm_txs_frame[OF d] by simp
  with o have o': "opened ''blocks'' = Inr (blocks_db (forget (cleared_ids txs) (pool_db d) c))"
    "opened ''pool'' = Inr (pool_db (forget (cleared_ids txs) (pool_db d) c))" by simp_all
  show "c' = forget (cleared_ids txs) (pool_db d) c" by (rule restart_identity[OF L so n o' r])
  with n show "node_inv so contents c'" by simp
qed


section \<open>Crashes as steps\<close>

inductive crash_step ::
    "sodium \<Rightarrow> 'db leveldb \<Rightarrow> ('db, 'conn) system \<Rightarrow> ('db, 'conn) system \<Rightarrow> bool"
  for so :: sodium and L :: "'db leveldb"
where
  crash_in_add_block:
    "parse_create_block_payload so payload (sys_chain s) = Inr (Inr p) \<Longrightarrow>
     block_checks so p (sys_chain s) \<Longrightarrow>
     confirm_txs so L (take n (transactions (submitted_block so p))) (sys_chain s) = (Inr (), d) \<Longrightarrow>
     opened ''blocks'' = Inr (blocks_db d) \<Longrightarrow> opened ''pool'' = Inr (pool_db d) \<Longrightarrow>
     Chain_init so L opened = Inr c' \<Longrightarrow>
     crash_step so L s \<lparr>sys_chain = c', sys_conns = {}\<rparr>"

inductive_cases crash_stepE: "crash_step so L s s'"

inductive reachable_crash :: "sodium \<Rightarrow> 'db leveldb \<Rightarrow> ('db, 'conn) system \<Rightarrow> bool"
  for so :: sodium and L :: "'db leveldb"
where
  without_crash: "reachable so L s \<Longrightarrow> reachable_crash so L s"
| step_crash: "reachable_crash so L s \<Longrightarrow> system_step so L s sent s' \<Longrightarrow> reachable_crash so L s'"
| crash: "reachable_crash so L s \<Longrightarrow> crash_step so L s s' \<Longrightarrow> reachable_crash so L s'"

lemma crash_step_forget:
  assumes L: "leveldb_ok L contents" "db_reliable L" and so: "sodium_ok so"
    and inv: "system_inv so contents s" and st: "crash_step so L s s'"
  shows "\<exists>ids db. sys_chain s' = forget ids db (sys_chain s) \<and> sys_conns s' = {} \<and>
    node_inv so contents (sys_chain s')"
  using st
proof (rule crash_stepE)
  fix n p d opened c'
  assume s': "s' = \<lparr>sys_chain = c', sys_conns = {}\<rparr>"
    and d: "confirm_txs so L (take n (transactions (submitted_block so p))) (sys_chain s) = (Inr (), d)"
    and o: "opened ''blocks'' = Inr (blocks_db d)" "opened ''pool'' = Inr (pool_db d)"
    and c': "Chain_init so L opened = Inr c'"
  have n: "node_inv so contents (sys_chain s)" using inv by (simp add: system_inv_def)
  from crash_restart[OF L so n d o c'] show ?thesis unfolding s' by fastforce
qed

lemma system_inv_crash:
  assumes L: "leveldb_ok L contents" "db_reliable L" and so: "sodium_ok so"
    and inv: "system_inv so contents s" and st: "crash_step so L s s'"
  shows "system_inv so contents s'"
proof -
  obtain ids db where f: "sys_chain s' = forget ids db (sys_chain s)" and n: "node_inv so contents (sys_chain s')"
    using crash_step_forget[OF assms] by blast
  have "blocks (sys_chain s') = blocks (sys_chain s)" by (simp add: f)
  from consensus_inv_cong[OF this] n inv show ?thesis by (simp add: system_inv_def)
qed

lemma reachable_crash_inv:
  assumes L: "leveldb_ok L contents" "db_reliable L" and so: "sodium_ok so"
  shows "reachable_crash so L s \<Longrightarrow> system_inv so contents s"
proof (induction rule: reachable_crash.induct)
  case (without_crash s)
  then show ?case by (rule reachable_system_inv[OF L so])
next
  case (step_crash s sent s')
  then show ?case using system_inv_step[OF L so] by blast
next
  case (crash s s')
  then show ?case using system_inv_crash[OF L so] by blast
qed

end
