(* ===== verification/Progress.thy ===== *)
theory Progress
  imports Crash History
begin

text \<open>
  What becomes of a pending transaction: a step keeps it or confirms it, and a block that lists it and passes
  the checks confirms it. Also here: the lengths of the byte arrays in every reachable state.
\<close>

section \<open>Pending transactions\<close>

lemma add_block_pool:
  assumes "add_block so L blk c = (Inr u, c')"
  shows "pool c' = pool c |` (- cleared_ids (transactions blk))"
  using assms by (rule add_block_Inr) (auto dest: confirm_txs_pool)

lemma submitted_pending:
  assumes inv: "pool_inv c" and q: "parse_create_block_payload so payload c = Inr (Inr q)"
    and t: "t \<in> set (transactions (submitted_block so q))" "inputs t \<noteq> []"
  shows "pool c (txid t) = Some t"
  using q
proof (rule parse_create_block_Inr)
  fix addr reward ts txs
  assume "pcb_transactions q = mk_transaction so [] [\<lparr>recipient = addr, amount = reward\<rparr>] ts # txs"
    and pending: "\<forall>tx \<in> set txs. \<exists>h. pool c h = Some tx"
  with t have "t \<in> set txs" by (auto simp: submitted_block_def)
  with pending obtain h where "pool c h = Some t" by blast
  with pool_invD(1)[OF inv this] show ?thesis by simp
qed

lemma handle_msg_pending:
  assumes L: "db_reliable L" and inv: "pool_inv c" and h: "handle_msg so L iter ty payload c = (r, c')"
    and p: "pool c k = Some tx"
  shows "pool c' k = Some tx \<or> (\<exists>blk. blocks c' = blocks c @ [blk] \<and> tx \<in> set (transactions blk))"
  using handle_msg_state[OF h]
proof (elim disjE exE)
  fix re assume "on_create_tx so L payload c = (re, c')"
  from on_create_tx_cases[OF this] p show ?thesis
    by (auto dest!: add_tx_pool_grows simp: map_le_def dom_def)
next
  fix re assume "on_create_block so L payload c = (re, c')"
  from on_create_block_cases[OF this] show ?thesis
  proof (elim disjE exE conjE)
    fix q assume q: "parse_create_block_payload so payload c = Inr (Inr q)"
      and a: "add_block so L (submitted_block so q) c = (Inr (), c')"
    let ?blk = "submitted_block so q"
    have "tx \<in> set (transactions ?blk)" if "k \<in> cleared_ids (transactions ?blk)"
    proof -
      from that obtain t where t: "t \<in> set (transactions ?blk)" "inputs t \<noteq> []" "txid t = k"
        by (auto simp: cleared_ids_def)
      have "pool c (txid t) = Some t"
        using t(1,2) by (rule submitted_pending[OF inv q])
      with t p show ?thesis by simp
    qed
    then show ?thesis
      using add_block_pool[OF a] add_block_blocks[OF a] p by (auto simp: restrict_map_def)
  qed (use p db_reliable_add_block[OF L] in blast)+
qed (use p in simp)

lemma step_pending:
  assumes L: "leveldb_ok L contents" "db_reliable L" and so: "sodium_ok so"
    and inv: "system_inv so contents s" and st: "system_step so L s sent s'"
    and p: "pool (sys_chain s) k = Some tx"
  shows "pool (sys_chain s') k = Some tx \<or>
    (\<exists>blk. blocks (sys_chain s') = blocks (sys_chain s) @ [blk] \<and> tx \<in> set (transactions blk))"
  using st
proof (rule system_stepE)
  fix payload iter ty r c'
  assume "s' = s\<lparr>sys_chain := c'\<rparr>" "handle_msg so L iter ty payload (sys_chain s) = (r, c')"
  with handle_msg_pending[OF L(2) _ this(2) p] inv show ?thesis
    by (simp add: system_inv_def node_inv_def)
next
  fix request response tx' c'
  assume "s' = s\<lparr>sys_chain := c'\<rparr>" "api_transaction so L request (sys_chain s) = (Inr (response, tx'), c')"
  with http_pool_grows[OF this(2)] p show ?thesis by (auto simp: map_le_def dom_def)
next
  fix opened c'
  assume o: "opened ''blocks'' = Inr (blocks_db (sys_chain s))" "opened ''pool'' = Inr (pool_db (sys_chain s))"
    and c': "Chain_init so L opened = Inr c'" and s': "s' = \<lparr>sys_chain = c', sys_conns = {}\<rparr>"
  have "c' = sys_chain s"
    using inv by (intro restart_identity[OF L so _ o c']) (simp add: system_inv_def)
  with s' p show ?thesis by simp
qed (use p in simp_all)


section \<open>Byte lengths\<close>

text \<open>The sizes the types \<^verbatim>\<open>Hash\<close> and \<^verbatim>\<open>Address\<close> of the code promise, which are lists here.\<close>

definition well_sized :: "'db chain \<Rightarrow> bool" where
  "well_sized c \<longleftrightarrow>
     (\<forall>op out. utxo c op = Some out \<longrightarrow> length (op_txid op) = 32 \<and> length (recipient out) = 20) \<and>
     (\<forall>h tx. pool c h = Some tx \<longrightarrow> length h = 32 \<and> tx_ok tx) \<and>
     (\<forall>op. pool_spent c op \<noteq> None \<longrightarrow> length (op_txid op) = 32) \<and>
     (\<forall>blk \<in> set (blocks c). header_ok (header blk) \<and> length (block_hash blk) = 32 \<and>
        (\<forall>tx \<in> set (transactions blk). tx_ok tx)) \<and>
     length (chain_target c) = 32"

lemma origin_ok_replay:
  assumes "\<forall>tx \<in> block_txs blks. length (outputs tx) \<le> 2 ^ 32"
  shows "origin_ok (block_txs blks) (replay blks)"
  unfolding replay_def
proof (rule fold_invariant_list[where P = "origin_ok (block_txs blks)"])
  fix blk and l :: ledger assume blk: "blk \<in> set blks" and o: "origin_ok (block_txs blks) l"
  show "origin_ok (block_txs blks) (apply_block blk l)"
    unfolding apply_block_def
  proof (rule fold_invariant_list[where P = "origin_ok (block_txs blks)", OF _ o])
    fix tx and l' :: ledger assume "tx \<in> set (transactions blk)" "origin_ok (block_txs blks) l'"
    with blk assms show "origin_ok (block_txs blks) (apply_tx tx l')"
      by (intro origin_ok_apply_tx) (auto simp: block_txs_def)
  qed
qed (simp add: origin_ok_def empty_ledger_def)

lemma node_inv_txs_ok:
  assumes "node_inv so contents c" "tx \<in> block_txs (blocks c)"
  shows "tx_ok tx"
  using assms by (auto simp: node_inv_def disk_inv_def list_all_iff block_txs_def block_ok_def framed_ok_def)

lemma node_inv_origin:
  assumes inv: "node_inv so contents c"
  shows "origin_ok (block_txs (blocks c)) c"
proof -
  have "length (outputs tx) \<le> 2 ^ 32" if "tx \<in> block_txs (blocks c)" for tx
    using node_inv_txs_ok[OF inv that] by (simp add: tx_ok_def)
  then have "origin_ok (block_txs (blocks c)) (replay (blocks c))" by (blast intro: origin_ok_replay)
  then show ?thesis using node_inv_replay[OF inv] by (simp add: origin_ok_def)
qed

lemma well_sized_node:
  assumes so: "sodium_ok so" and inv: "node_inv so contents c"
  shows "well_sized c"
proof -
  have utxo: "length (op_txid op) = 32 \<and> length (recipient out) = 20" if u: "utxo c op = Some out" for op out
  proof -
    from node_inv_origin[OF inv] u obtain tx where tx: "tx \<in> block_txs (blocks c)" "txid tx = op_txid op"
      "unat (op_index op) < length (outputs tx)" "outputs tx ! unat (op_index op) = out"
      by (auto simp: origin_ok_def created_by_def)
    then have "out \<in> set (outputs tx)" by (metis nth_mem)
    with tx node_inv_txs_ok[OF inv tx(1)] show ?thesis by (auto simp: tx_ok_def list_all_iff txoutput_ok_def)
  qed
  have pool: "length h = 32 \<and> tx_ok tx" if "pool c h = Some tx" for h tx
    using inv that pool_invD(1)[of c h tx] by (auto simp: node_inv_def disk_inv_def framed_ok_def tx_ok_def)
  have "length (op_txid op) = 32" if "pool_spent c op \<noteq> None" for op
  proof -
    have "pool_inv c" using inv by (simp add: node_inv_def)
    from pool_invD(5)[OF this that] pool_invD(3)[OF this] utxo show ?thesis by blast
  qed
  moreover have "header_ok (header blk) \<and> length (block_hash blk) = 32 \<and> (\<forall>tx \<in> set (transactions blk). tx_ok tx)"
    if "blk \<in> set (blocks c)" for blk
    using inv that so by (auto simp: node_inv_def disk_inv_def list_all_iff block_ok_def block_hash_def
        length_header_hash framed_ok_def)
  moreover have "length (chain_target c) = 32"
    unfolding node_inv_target[OF inv] by code_simp
  ultimately show ?thesis using utxo pool by (auto simp: well_sized_def)
qed

end
