(* ===== verification/Fault_Properties.thy ===== *)
theory Fault_Properties
  imports Pending_Instance Progress
begin

text \<open>
  Properties of what goes wrong in a block submission: a coinbase that is confirmed twice, and a database that
  refuses the block.
\<close>

section \<open>A repeated coinbase\<close>

text \<open>A block with nothing but a coinbase that pays one output.\<close>

lemma coinbase_block_accepted:
  assumes "on_create_block so L payload c = (r, c')" "events r = [On_block_accepted blk]"
    and "transactions blk = [cb]" "inputs cb = []" "outputs cb = [out]"
  shows "\<exists>db. c' = (create_output \<lparr>op_txid = txid cb, op_index = 0\<rparr> out c)
    \<lparr>blocks_db := db, blocks := blocks c @ [blk], chain_height := chain_height c + 1\<rparr>"
proof -
  have "add_block so L blk c = (Inr (), c')"
    using on_create_block_cases[OF assms(1)] assms(2) by auto
  then obtain c1 db where "confirm_txs so L (transactions blk) c = (Inr (), c1)"
    "c' = c1\<lparr>blocks_db := db, blocks := blocks c @ [blk], chain_height := chain_height c + 1\<rparr>"
    by (rule add_block_Inr)
  moreover from this assms(3-5) have "c1 = create_output \<lparr>op_txid = txid cb, op_index = 0\<rparr> out c"
    by (simp add: sbind_def confirm_tx_def is_coinbase_def apply_tx_def)
  ultimately show ?thesis by blast
qed

text \<open>C31. The node does not prevent a coinbase from being confirmed again. When two accepted blocks have the same
  coinbase, to an address without other outputs, there is one unspent output for the two, but the query of the
  address lists it twice, and the balance it reports is twice the amount that can be spent.\<close>

theorem repeated_coinbase_doubles_balance:
  assumes "on_create_block so L payload1 c = (r1, c1)" "events r1 = [On_block_accepted blk1]"
    and "on_create_block so L payload2 c1 = (r2, c2)" "events r2 = [On_block_accepted blk2]"
    and "transactions blk1 = [cb]" "transactions blk2 = [cb]" "inputs cb = []" "outputs cb = [out]"
    and "address_utxo c (recipient out) = None" "\<forall>op. pool_spent c op = None"
    and "from_hex so 20 address_hex = Inr (recipient out)" "op = \<lparr>op_txid = txid cb, op_index = 0\<rparr>"
  shows "utxo c2 = (utxo c)(op \<mapsto> out) \<and>
    utxos_handler so address_hex c2 = Inr (json_response 200 (JObject
      [(''address'', JString (to_hex so (recipient out))),
       (''utxos'', JArray [utxo_json so (op, amount out), utxo_json so (op, amount out)]),
       (''balance'', JNum (unat (2 * amount out)))]))"
proof -
  obtain db1 where c1: "c1 = (create_output op out c)
      \<lparr>blocks_db := db1, blocks := blocks c @ [blk1], chain_height := chain_height c + 1\<rparr>"
    using coinbase_block_accepted[OF assms(1,2,5,7,8)] assms(12) by blast
  have f1: "utxo c1 = (utxo c)(op \<mapsto> out)" "address_utxo c1 (recipient out) = Some [op]" "pool_spent c1 = pool_spent c"
    using assms(9) by (simp_all add: c1 create_output_def index_of_def)
  obtain db2 where c2: "c2 = (create_output op out c1)
      \<lparr>blocks_db := db2, blocks := blocks c1 @ [blk2], chain_height := chain_height c1 + 1\<rparr>"
    using coinbase_block_accepted[OF assms(3,4,6,7,8)] assms(12) by blast
  have "utxo c2 = (utxo c)(op \<mapsto> out)" "address_utxo c2 (recipient out) = Some [op, op]" "pool_spent c2 op = None"
    using assms(10) by (simp_all add: c2 f1 create_output_def index_of_def)
  then show ?thesis using assms(11) by (simp add: utxos_handler_def get_utxos_def)
qed

text \<open>The same coinbase in two blocks of the example node.\<close>

definition ex_coinbase_block :: "hash \<Rightarrow> block" where
  "ex_coinbase_block prev = mk_block ex_sodium prev [ex_reward] 0 5"

definition ex_coinbase_request :: "hash \<Rightarrow> block_request" where
  "ex_coinbase_request prev = (ex_block 0 3000000)\<lparr>br_prev_hash := prev\<rparr>"

lemma ex_coinbase_accepted:
  assumes c: "tip_hash c = prev" "target c = build_target 3" and hash: "length prev = 32" "block_hash (ex_coinbase_block prev) \<le> build_target 3"
  obtains r c' where "on_create_block ex_sodium ex_leveldb (put_create_block (ex_coinbase_request prev) []) c = (r, c')"
    "events r = [On_block_accepted (ex_coinbase_block prev)]" "blocks c' = blocks c @ [ex_coinbase_block prev]"
    "chain_target c' = chain_target c"
proof -
  let ?q = "ex_coinbase_request prev"
  have ok: "block_request_ok ?q"
    using ex_block_ok[of 0 3000000] hash(1) by (simp add: block_request_ok_def ex_coinbase_request_def)
  have blk: "submitted_block ex_sodium (requested ex_sodium c ?q) = ex_coinbase_block prev"
    by (simp add: submitted_block_def requested_def ex_coinbase_request_def ex_coinbase_block_def ex_block_def
        request_coinbase_def ex_reward_def)
  have acc: "request_accepted ex_sodium c ?q"
    using c hash(2) unfolding request_accepted_def blk
    by (simp add: ex_coinbase_request_def ex_block_def request_coinbase_def compute_block_merkle_root_def
        compute_merkle_root_single)
  obtain c2 where add: "add_block ex_sodium ex_leveldb (ex_coinbase_block prev) c = (Inr (), c2)"
    using db_reliable_add_block[OF ex_leveldb_reliable] by (metis surj_pair)
  obtain r c' where r: "on_create_block ex_sodium ex_leveldb (put_create_block ?q [] @ []) c = (r, c')" by fastforce
  from on_create_block_request[OF ok add[folded blk] r] acc have e: "events r = [On_block_accepted (ex_coinbase_block prev)]" "c' = c2"
    by (simp_all add: blk)
  have "blocks c2 = blocks c @ [ex_coinbase_block prev]" using add_block_blocks[OF add] by simp
  moreover have "chain_target c2 = chain_target c" using add by (rule add_block_Inr) (auto dest: confirm_txs_frame)
  ultimately show ?thesis using that r e by simp
qed

lemma ex_coinbase_hashes:
  "block_hash (ex_coinbase_block (block_hash ex_genesis)) \<le> build_target 3"
  "block_hash (ex_coinbase_block (block_hash (ex_coinbase_block (block_hash ex_genesis)))) \<le> build_target 3"
  by code_simp+

lemma ex_other_addr: "replicate 20 3 \<noteq> ex_addr"
  by code_simp

theorem repeated_coinbase_doubles_balance_witness:
  "\<exists>r1 c1 r2 c2. on_create_block ex_sodium ex_leveldb (put_create_block
       (ex_coinbase_request (block_hash ex_genesis)) []) ex_node = (r1, c1) \<and>
     on_create_block ex_sodium ex_leveldb (put_create_block
       (ex_coinbase_request (block_hash (ex_coinbase_block (block_hash ex_genesis)))) []) c1 = (r2, c2) \<and>
     utxo c2 \<lparr>op_txid = txid ex_reward, op_index = 0\<rparr> = Some \<lparr>recipient = replicate 20 3, amount = 3000000\<rparr> \<and>
     (\<exists>us. utxos_handler ex_sodium (to_hex ex_sodium (replicate 20 3)) c2 = Inr (json_response 200 (JObject
       [(''address'', JString (to_hex ex_sodium (replicate 20 3))), (''utxos'', us), (''balance'', JNum 6000000)])))"
proof -
  let ?b1 = "ex_coinbase_block (block_hash ex_genesis)"
  let ?b2 = "ex_coinbase_block (block_hash ?b1)"
  let ?out = "\<lparr>recipient = replicate 20 3, amount = 3000000 :: u64\<rparr> :: txoutput"
  have tip: "tip_hash ex_node = block_hash ex_genesis" by (simp add: tip_hash_def ex_node_blocks)
  have len: "length (block_hash ex_genesis) = 32" "length (block_hash ?b1) = 32"
    using ex_sodium_ok ex_genesis_ok by (simp_all add: block_hash_def length_header_hash block_ok_def ex_coinbase_block_def)
  obtain r1 c1 where 1: "on_create_block ex_sodium ex_leveldb (put_create_block
      (ex_coinbase_request (block_hash ex_genesis)) []) ex_node = (r1, c1)" "events r1 = [On_block_accepted ?b1]"
    "blocks c1 = blocks ex_node @ [?b1]" "chain_target c1 = chain_target ex_node"
    using ex_coinbase_accepted[OF tip ex_target len(1) ex_coinbase_hashes(1)] by metis
  have tip1: "tip_hash c1 = block_hash ?b1" "target c1 = build_target 3"
    using 1(3,4) ex_target by (simp_all add: tip_hash_def target_def)
  obtain r2 c2 where 2: "on_create_block ex_sodium ex_leveldb (put_create_block
      (ex_coinbase_request (block_hash ?b1)) []) c1 = (r2, c2)" "events r2 = [On_block_accepted ?b2]"
    using ex_coinbase_accepted[OF tip1 len(2) ex_coinbase_hashes(2)] by metis
  have cb: "transactions ?b1 = [ex_reward]" "transactions ?b2 = [ex_reward]" "inputs ex_reward = []"
    "outputs ex_reward = [?out]"
    by (simp_all add: ex_coinbase_block_def ex_reward_def)
  have addr: "address_utxo ex_node (recipient ?out) = None" "\<forall>op. pool_spent ex_node op = None"
    using ex_other_addr by (simp_all add: ex_node_fields)
  have hex: "from_hex ex_sodium 20 (to_hex ex_sodium (replicate 20 3)) = Inr (recipient ?out)"
    using hex_roundtrip[OF ex_sodium_ok, of "replicate 20 3"] by simp
  from repeated_coinbase_doubles_balance[OF 1(1,2) 2 cb addr hex refl] 1(1) 2(1)
  show ?thesis by (intro exI conjI) (assumption, assumption, simp_all)
qed

section \<open>A failing store\<close>

text \<open>C39. \<^verbatim>\<open>add_block\<close> changes the ledger before it stores the block. When the database refuses an otherwise acceptable
  block, the miner is told that it is invalid, nothing is announced, and the blocks, the height and the tip are
  those before; but the transactions of the block are confirmed in the ledger and gone from the pool.\<close>

theorem failed_store_confirms_transactions:
  assumes "block_request_ok q" "\<forall>id \<in> set (br_txids q). pool c id \<noteq> None"
    and "br_merkle q = compute_block_merkle_root so (request_coinbase so q # map (\<lambda>id. the (pool c id)) (br_txids q))"
    and "br_prev_hash q = tip_hash c" "blk = submitted_block so (requested so c q)" "block_hash blk \<le> target c"
    and "confirm_txs so L (transactions blk) c = (Inr (), c1)" "key = block_key (word_of_nat (length (blocks c)))"
    and "db_put L key (block_serialize_str blk) (blocks_db c) = (Some msg, db)"
    and "on_create_block so L (put_create_block q []) c = (r, c')"
  shows "events r = [] \<and> reply r = Some (send CreateBlockResponse (serialize_block_response BlockError_InvalidPayload
      (''failed to store block at key '' @ quoted key @ '': '' @ msg))) \<and>
    blocks c' = blocks c \<and> height c' = height c \<and> tip_hash c' = tip_hash c \<and>
    ledger.truncate c' = fold apply_tx (transactions blk) (ledger.truncate c) \<and>
    pool c' = pool c |` (- cleared_ids (transactions blk))"
proof -
  note f = confirm_txs_frame[OF assms(7)]
  have add: "add_block so L blk c = (Inl (Runtime_error (''failed to store block at key '' @ quoted key @ '': '' @ msg)),
      c1\<lparr>blocks_db := db\<rparr>)"
    using f assms(7-9) by (simp add: add_block_def sbind_def store_block_def)
  have p: "parse_create_block_payload so (put_create_block q []) c = Inr (Inr (requested so c q))"
    using parse_create_block_put[OF assms(1), of so "[]" c] assms(2) by simp
  have ok: "merkle_root (header blk) = br_merkle q" "\<not> block_hash blk > target c" "prev_hash (header blk) = tip_hash c"
    using assms(3-6) by (simp_all add: requested_fields not_less)
  have "(r, c') = on_create_block so L (put_create_block q []) c" using assms(10) by simp
  then have r: "r = (replies CreateBlockResponse (serialize_block_response BlockError_InvalidPayload
      (''failed to store block at key '' @ quoted key @ '': '' @ msg)))\<lparr>events := []\<rparr>" "c' = c1\<lparr>blocks_db := db\<rparr>"
    unfolding on_create_block_def p using ok add
    by (simp_all add: requested_fields(1,2) Let_def assms(5)[symmetric])
  have "ledger.truncate c' = ledger.truncate c1" by (simp add: r(2) ledger.truncate_def)
  then show ?thesis using f confirm_txs_pool[OF assms(7)]
    by (simp add: r replies_def height_def tip_hash_def)
qed

theorem failed_store_confirms_transactions_witness:
  "\<exists>r c'. on_create_block ex_sodium ex_broken
       (put_create_block ex_listing []) ex_paid = (r, c') \<and> events r = [] \<and> blocks c' = [ex_genesis] \<and>
     pool ex_paid (txid ex_spend) = Some ex_spend \<and> pool c' (txid ex_spend) = None"
proof -
  have acc: "request_accepted ex_sodium ex_paid ex_listing" by (rule ex_listing_accepted)
  note acc = acc[unfolded request_accepted_def ex_listed]
  obtain c1 where c1: "confirm_txs ex_sodium ex_broken (transactions ex_listed_block) ex_paid = (Inr (), c1)"
    by (simp add: ex_listed_block_def sbind_def confirm_tx_def ex_broken_def ex_leveldb_def Let_def is_coinbase_def
        ex_spend_def submitted_tx_def ex_payment_def)
  have put: "db_put ex_broken k v db = (Some ''IO error'', db)" for k v db by (simp add: ex_broken_def)
  obtain r c' where r: "on_create_block ex_sodium ex_broken (put_create_block ex_listing []) ex_paid = (r, c')" by fastforce
  have "events r = [] \<and> blocks c' = blocks ex_paid \<and>
      ledger.truncate c' = fold apply_tx (transactions ex_listed_block) (ledger.truncate ex_paid) \<and>
      pool c' = pool ex_paid |` (- cleared_ids (transactions ex_listed_block))"
    using failed_store_confirms_transactions[OF ex_listing_ok acc[THEN conjunct1] acc[THEN conjunct2, THEN conjunct1]
        acc[THEN conjunct2, THEN conjunct2, THEN conjunct2] ex_listed[symmetric]
        acc[THEN conjunct2, THEN conjunct2, THEN conjunct1] c1 refl put r] by blast
  moreover have "txid ex_spend \<in> cleared_ids (transactions ex_listed_block)"
    unfolding cleared_ids_def
    by (rule imageI) (simp add: ex_listed_block_def ex_spend_def submitted_tx_def ex_payment_def)
  ultimately show ?thesis using r by (simp add: ex_paid_fields)
qed

end
