(* ===== verification/Supply.thy ===== *)
theory Supply
  imports Progress
begin

text \<open>
  The money supply. The value of the unspent outputs is bounded by what the coinbases of the chain created,
  as long as the chain has no two transactions with one identifier and no transaction lists an input
  twice (the program prevents neither, see \<open>duplicate_input_creates_value\<close>). The invariant behind it: no
  pending transaction pays out more than its inputs hold.
\<close>

section \<open>What a chain has minted\<close>

definition all_txs :: "block list \<Rightarrow> transaction list" where
  "all_txs blks = concat (map transactions blks)"

definition minted_by :: "transaction list \<Rightarrow> nat" where
  "minted_by txs = (\<Sum>tx \<leftarrow> txs. if inputs tx = [] then outputs_value (outputs tx) else 0)"

definition distinct_ids :: "block list \<Rightarrow> bool" where
  "distinct_ids blks \<longleftrightarrow> distinct (map txid (all_txs blks))"

definition distinct_inputs :: "block list \<Rightarrow> bool" where
  "distinct_inputs blks \<longleftrightarrow> (\<forall>tx \<in> set (all_txs blks). distinct (inputs tx))"

lemma set_all_txs: "set (all_txs blks) = block_txs blks"
  by (simp add: all_txs_def block_txs_def)

lemma all_txs_snoc: "all_txs (blks @ [blk]) = all_txs blks @ transactions blk"
  by (simp add: all_txs_def)

lemma minted_by_simps [simp]:
  "minted_by [] = 0" "minted_by (xs @ ys) = minted_by xs + minted_by ys"
  "minted_by (tx # xs) = (if inputs tx = [] then outputs_value (outputs tx) else 0) + minted_by xs"
  by (simp_all add: minted_by_def)


section \<open>The transactions of one block\<close>

text \<open>
  Transactions that can be confirmed one after the other: new identifiers, inputs that are unspent before the
  first and belong to one of them only, outputs covered by the inputs unless it is a coinbase.
\<close>

definition covered :: "transaction \<Rightarrow> 'a ledger_scheme \<Rightarrow> bool" where
  "covered tx l \<longleftrightarrow> set (inputs tx) \<subseteq> dom (utxo l) \<and>
     (inputs tx \<noteq> [] \<longrightarrow> outputs_value (outputs tx) \<le> inputs_value (inputs tx) l)"

definition new_id :: "transaction \<Rightarrow> 'a ledger_scheme \<Rightarrow> bool" where
  "new_id tx l \<longleftrightarrow> (\<forall>op. op_txid op = txid tx \<longrightarrow> utxo l op = None)"

primrec confirmable :: "transaction list \<Rightarrow> 'a ledger_scheme \<Rightarrow> bool" where
  "confirmable [] l \<longleftrightarrow> True"
| "confirmable (tx # txs) l \<longleftrightarrow>
     covered tx l \<and> new_id tx l \<and> length (outputs tx) \<le> 2 ^ 32 \<and>
     (\<forall>t \<in> set txs. txid t \<noteq> txid tx \<and> set (inputs t) \<inter> set (inputs tx) = {}) \<and>
     confirmable txs l"

text \<open>An unspent output that a transaction does not spend stays as it is.\<close>

lemma utxo_apply_tx_other:
  assumes "new_id tx l" "length (outputs tx) \<le> 2 ^ 32" "op \<in> dom (utxo l)" "op \<notin> set (inputs tx)"
  shows "utxo (apply_tx tx l) op = utxo l op"
  using assms by (auto simp: utxo_apply_tx new_id_def)

lemma inputs_value_cong:
  "(\<And>op. op \<in> set ins \<Longrightarrow> utxo l op = utxo l' op) \<Longrightarrow> inputs_value ins l = inputs_value ins l'"
  by (auto simp: inputs_value_def intro!: arg_cong[where f = sum_list] map_cong split: option.splits)

lemma total_value_cong: "utxo l = utxo l' \<Longrightarrow> total_value l = total_value l'"
  by (simp add: total_value_def)

lemma covered_cong:
  assumes "covered t l" "\<And>op. op \<in> set (inputs t) \<Longrightarrow> utxo l op = utxo l' op"
  shows "covered t l'"
  using assms inputs_value_cong[of "inputs t" l l'] by (auto simp: covered_def subset_iff)

lemma covered_apply_tx:
  assumes tx: "new_id tx l" "length (outputs tx) \<le> 2 ^ 32" and t: "covered t l"
    and d: "set (inputs t) \<inter> set (inputs tx) = {}"
  shows "covered t (apply_tx tx l)"
  using t
proof (rule covered_cong)
  fix op assume "op \<in> set (inputs t)"
  with t d have "op \<in> dom (utxo l)" "op \<notin> set (inputs tx)" by (auto simp: covered_def)
  from utxo_apply_tx_other[OF tx this] show "utxo l op = utxo (apply_tx tx l) op" by simp
qed

lemma confirmable_apply_tx:
  assumes tx: "new_id tx l" "length (outputs tx) \<le> 2 ^ 32"
    and d: "\<forall>t \<in> set txs. txid t \<noteq> txid tx \<and> set (inputs t) \<inter> set (inputs tx) = {}"
    and c: "confirmable txs l"
  shows "confirmable txs (apply_tx tx l)"
  using c d
  by (induction txs)
    (auto intro: covered_apply_tx[OF tx] simp: new_id_def utxo_apply_tx[OF tx(2)])

lemma fold_apply_covered:
  "confirmable txs l \<Longrightarrow> covered t l \<Longrightarrow> \<forall>tx \<in> set txs. set (inputs t) \<inter> set (inputs tx) = {} \<Longrightarrow>
   covered t (fold apply_tx txs l)"
proof (induction txs arbitrary: l)
  case (Cons tx txs)
  then have tx: "new_id tx l" "length (outputs tx) \<le> 2 ^ 32" by simp_all
  from Cons.IH[OF confirmable_apply_tx[OF tx] covered_apply_tx[OF tx Cons.prems(2)]] Cons.prems
  show ?case by simp
qed simp

lemma confirm_value:
  assumes "covered tx l" "distinct (inputs tx)" "finite (dom (utxo l))"
  shows "total_value (apply_tx tx l) \<le> total_value l + minted_by [tx]"
proof -
  have "total_value (apply_tx tx l) + inputs_value (inputs tx) l \<le> total_value l + outputs_value (outputs tx)"
    using assms by (intro total_value_apply_tx) (simp_all add: covered_def)
  with assms(1) show ?thesis by (cases "inputs tx = []") (simp_all add: covered_def)
qed

lemma confirm_all_value:
  "confirmable txs l \<Longrightarrow> \<forall>tx \<in> set txs. distinct (inputs tx) \<Longrightarrow> finite (dom (utxo l)) \<Longrightarrow>
   total_value (fold apply_tx txs l) \<le> total_value l + minted_by txs"
proof (induction txs arbitrary: l)
  case (Cons tx txs)
  have "confirmable txs (apply_tx tx l)" using Cons.prems(1) by (intro confirmable_apply_tx) simp_all
  then have "total_value (fold apply_tx txs (apply_tx tx l)) \<le> total_value (apply_tx tx l) + minted_by txs"
    using Cons.prems by (intro Cons.IH finite_utxo_apply_tx) simp_all
  moreover have "total_value (apply_tx tx l) \<le> total_value l + minted_by [tx]"
    using Cons.prems by (intro confirm_value) simp_all
  ultimately show ?case by simp
qed simp


section \<open>The invariant\<close>

definition supply_inv :: "'db chain \<Rightarrow> bool" where
  "supply_inv c \<longleftrightarrow> finite (dom (utxo c)) \<and>
     (distinct_ids (blocks c) \<longrightarrow>
        (\<forall>h tx. pool c h = Some tx \<longrightarrow> covered tx c) \<and>
        (distinct_inputs (blocks c) \<longrightarrow> total_value c \<le> minted_by (all_txs (blocks c))))"

lemma supply_inv_add_tx:
  assumes inv: "supply_inv c" and r: "add_tx so L st c = (r, c')"
  shows "supply_inv c'"
  using add_tx_state[OF r]
proof (elim disjE conjE exE)
  fix db assume acc: "tx_acceptable so st c" and c': "c' = accept_tx (st_tx st) db c"
  have u: "utxo c' = utxo c" "blocks c' = blocks c" "pool c' = (pool c)(txid (st_tx st) \<mapsto> st_tx st)"
    by (simp_all add: c' accept_tx_def)
  have "covered (st_tx st) c" using acc by (auto simp: covered_def tx_acceptable_def Let_def)
  moreover have "covered t c' = covered t c" for t
    using covered_cong[of t c c'] covered_cong[of t c' c] u(1) by auto
  ultimately show ?thesis
    using inv total_value_cong[OF u(1)] by (auto simp: supply_inv_def u)
qed (use inv in simp)

lemma supply_inv_forget: "supply_inv c \<Longrightarrow> supply_inv (forget ids db c)"
proof -
  assume inv: "supply_inv c"
  have u: "utxo (forget ids db c) = utxo c" by simp
  have "covered t c \<Longrightarrow> covered t (forget ids db c)" for t
    by (rule covered_cong) simp_all
  with inv total_value_cong[OF u] show ?thesis
    by (auto simp: supply_inv_def restrict_map_def split: if_splits)
qed


section \<open>Blocks keep the invariant\<close>

lemma confirmableI:
  assumes "distinct (map txid txs)"
    and "\<And>tx. tx \<in> set txs \<Longrightarrow> covered tx l \<and> new_id tx l \<and> length (outputs tx) \<le> 2 ^ 32"
    and "\<And>t tx. t \<in> set txs \<Longrightarrow> tx \<in> set txs \<Longrightarrow> txid t \<noteq> txid tx \<Longrightarrow> set (inputs t) \<inter> set (inputs tx) = {}"
  shows "confirmable txs l"
  using assms
proof (induction txs)
  case (Cons tx txs)
  have "txid t \<noteq> txid tx" if "t \<in> set txs" for t
    using Cons.prems(1) that by (auto simp: image_iff)
  with Cons show ?case by simp
qed simp

lemma new_id_snoc:
  assumes inv: "node_inv so contents c" and d: "distinct_ids (blocks c @ [blk])" and t: "t \<in> set (transactions blk)"
  shows "new_id t c"
proof -
  have "txid t \<notin> txid ` block_txs (blocks c)"
    using d t by (auto simp: distinct_ids_def all_txs_snoc set_all_txs)
  then show ?thesis
    using node_inv_origin[OF inv] by (auto simp: new_id_def origin_ok_def created_by_def) (metis image_eqI not_None_eq)
qed

lemma submitted_confirmable:
  assumes inv: "node_inv so contents c" and sup: "supply_inv c"
    and p: "parse_create_block_payload so payload c = Inr (Inr p)"
    and d: "distinct_ids (blocks c @ [submitted_block so p])"
  shows "confirmable (transactions (submitted_block so p)) c"
proof (rule confirmableI)
  let ?txs = "transactions (submitted_block so p)"
  have pool: "pool_inv c" using inv by (simp add: node_inv_def)
  have ids: "distinct_ids (blocks c)" using d by (simp add: distinct_ids_def all_txs_snoc)
  show "distinct (map txid ?txs)" using d by (simp add: distinct_ids_def all_txs_snoc)
  show "covered t c \<and> new_id t c \<and> length (outputs t) \<le> 2 ^ 32" if t: "t \<in> set ?txs" for t
  proof (cases "inputs t = []")
    case True
    have "length (outputs t) \<le> 2 ^ 32"
      using p t True pool_invD(2)[OF pool]
      by (rule_tac parse_create_block_Inr[OF p]) (auto simp: submitted_block_def)
    with True new_id_snoc[OF inv d t] show ?thesis by (simp add: covered_def)
  next
    case False
    from submitted_pending[OF pool p t False] have h: "pool c (txid t) = Some t" .
    with inv have "framed_ok t" by (auto simp: node_inv_def disk_inv_def)
    then have "length (outputs t) \<le> 2 ^ 32" by (simp add: framed_ok_def tx_ok_def)
    with h sup ids new_id_snoc[OF inv d t] show ?thesis by (auto simp: supply_inv_def)
  qed
  show "set (inputs t) \<inter> set (inputs tx) = {}" if t: "t \<in> set ?txs" "tx \<in> set ?txs" "txid t \<noteq> txid tx" for t tx
  proof (cases "inputs t = [] \<or> inputs tx = []")
    case False
    with submitted_pending[OF pool p t(1)] submitted_pending[OF pool p t(2)] t(3) pool_invD(6)[OF pool]
    show ?thesis by blast
  qed auto
qed

lemma add_block_utxo:
  assumes "add_block so L blk c = (Inr u, c')"
  shows "utxo c' = utxo (fold apply_tx (transactions blk) c)"
proof (rule add_block_Inr[OF assms])
  fix c1 db assume "confirm_txs so L (transactions blk) c = (Inr (), c1)"
    and c': "c' = c1\<lparr>blocks_db := db, blocks := blocks c @ [blk], chain_height := chain_height c + 1\<rparr>"
  then have "ledger.truncate c1 = ledger.truncate (fold apply_tx (transactions blk) c)"
    by (simp add: confirm_txs_frame truncate_apply_txs)
  then have "utxo c1 = utxo (fold apply_tx (transactions blk) c)" by (metis utxo_truncate)
  with c' show ?thesis by simp
qed

lemma finite_utxo_apply_txs: "finite (dom (utxo l)) \<Longrightarrow> finite (dom (utxo (fold apply_tx txs l)))"
  by (rule fold_invariant_list[where P = "\<lambda>l. finite (dom (utxo l))"]) (rule finite_utxo_apply_tx)

lemma supply_inv_add_block:
  assumes inv: "node_inv so contents c" and sup: "supply_inv c"
    and p: "parse_create_block_payload so payload c = Inr (Inr p)"
    and a: "add_block so L (submitted_block so p) c = (Inr (), c')"
  shows "supply_inv c'"
proof -
  let ?blk = "submitted_block so p"
  let ?l = "fold apply_tx (transactions ?blk) c"
  have pool: "pool_inv c" using inv by (simp add: node_inv_def)
  note u = add_block_utxo[OF a]
  have bs: "blocks c' = blocks c @ [?blk]" using add_block_blocks[OF a] by simp
  have fin: "finite (dom (utxo c))" using sup by (simp add: supply_inv_def)
  then have "finite (dom (utxo c'))" unfolding u by (rule finite_utxo_apply_txs)
  moreover have "(\<forall>h tx. pool c' h = Some tx \<longrightarrow> covered tx c') \<and>
      (distinct_inputs (blocks c') \<longrightarrow> total_value c' \<le> minted_by (all_txs (blocks c')))"
    if d': "distinct_ids (blocks c')"
  proof -
    have d: "distinct_ids (blocks c @ [?blk])" using d' by (simp add: bs)
    then have ids: "distinct_ids (blocks c)" by (simp add: distinct_ids_def all_txs_snoc)
    note conf = submitted_confirmable[OF inv sup p d]
    have "covered tx c'" if tx: "pool c' h = Some tx" for h tx
    proof -
      have h: "pool c h = Some tx" "h \<notin> cleared_ids (transactions ?blk)"
        using tx by (auto simp: add_block_pool[OF a] restrict_map_def split: if_splits)
      have "set (inputs tx) \<inter> set (inputs t) = {}" if t: "t \<in> set (transactions ?blk)" for t
      proof (cases "inputs t = []")
        case False
        with h(2) t have "txid t \<noteq> h" by (auto simp: cleared_ids_def)
        with submitted_pending[OF pool p t False] h(1) pool_invD(6)[OF pool] show ?thesis by blast
      qed simp
      moreover have "covered tx c" using sup ids h(1) by (auto simp: supply_inv_def)
      ultimately have "covered tx ?l" by (intro fold_apply_covered[OF conf]) auto
      then show ?thesis by (rule covered_cong) (simp add: u)
    qed
    moreover have "total_value c' \<le> minted_by (all_txs (blocks c'))" if i: "distinct_inputs (blocks c')"
    proof -
      have "total_value ?l \<le> total_value c + minted_by (transactions ?blk)"
        using i by (intro confirm_all_value[OF conf _ fin]) (auto simp: distinct_inputs_def bs all_txs_snoc)
      moreover have "distinct_inputs (blocks c)" using i by (auto simp: distinct_inputs_def bs all_txs_snoc)
      ultimately show ?thesis
        using sup ids total_value_cong[OF u] by (simp add: supply_inv_def bs all_txs_snoc)
    qed
    ultimately show ?thesis by blast
  qed
  ultimately show ?thesis unfolding supply_inv_def by blast
qed


section \<open>Reachable states\<close>

lemma supply_inv_handle_msg:
  assumes L: "db_reliable L" and inv: "node_inv so contents c" and sup: "supply_inv c"
    and h: "handle_msg so L iter ty payload c = (r, c')"
  shows "supply_inv c'"
  using handle_msg_state[OF h]
proof (elim disjE exE)
  fix re assume "on_create_tx so L payload c = (re, c')"
  from on_create_tx_cases[OF this] sup show ?thesis by (auto dest: supply_inv_add_tx)
next
  fix re assume "on_create_block so L payload c = (re, c')"
  from on_create_block_cases[OF this] sup db_reliable_add_block[OF L] supply_inv_add_block[OF inv sup]
  show ?thesis by blast
qed (use sup in simp)

lemma supply_inv_step:
  assumes L: "leveldb_ok L contents" "db_reliable L" and so: "sodium_ok so"
    and inv: "system_inv so contents s" and sup: "supply_inv (sys_chain s)"
    and st: "system_step so L s sent s'"
  shows "supply_inv (sys_chain s')"
  using st
proof (rule system_stepE)
  fix payload iter ty r c'
  assume s': "s' = s\<lparr>sys_chain := c'\<rparr>" and h: "handle_msg so L iter ty payload (sys_chain s) = (r, c')"
  have "node_inv so contents (sys_chain s)" using inv by (simp add: system_inv_def)
  from supply_inv_handle_msg[OF L(2) this sup h] s' show ?thesis by simp
next
  fix request response tx c'
  assume s': "s' = s\<lparr>sys_chain := c'\<rparr>"
    and a: "api_transaction so L request (sys_chain s) = (Inr (response, tx), c')"
  from api_transaction_state[OF a] supply_inv_add_tx[OF sup] sup s' show ?thesis
    by (auto simp: http_submitted_def)
next
  fix opened c'
  assume o: "opened ''blocks'' = Inr (blocks_db (sys_chain s))" "opened ''pool'' = Inr (pool_db (sys_chain s))"
    and c': "Chain_init so L opened = Inr c'" and s': "s' = \<lparr>sys_chain = c', sys_conns = {}\<rparr>"
  have "c' = sys_chain s"
    using inv by (intro restart_identity[OF L so _ o c']) (simp add: system_inv_def)
  with s' sup show ?thesis by simp
qed (use sup in simp_all)

lemma supply_inv_first_start:
  assumes L: "db_reliable L"
    and o: "opened ''blocks'' = Inr bdb" "opened ''pool'' = Inr pdb"
    and scans: "db_scan L bdb = ([], None)" "db_scan L pdb = ([], None)"
    and c: "Chain_init so L opened = Inr c"
  shows "supply_inv c"
proof -
  obtain addr where addr: "GENESIS_ADDR so = Inr addr"
    using c by (auto simp: Chain_init_def ebind_Inr_iff)
  let ?g = "genesis_block so addr"
  obtain bdb' where put: "db_put L (block_key 0) (block_serialize_str ?g) bdb = (None, bdb')"
    using L by (metis db_reliable_def prod.collapse)
  let ?b = "blank_chain bdb' pdb"
  let ?l = "fold apply_tx (transactions ?g) ?b"
  have c': "c = ?l\<lparr>blocks := [?g], chain_height := 1, chain_target := build_target 3\<rparr>"
    using Chain_init_empty[OF o scans addr put] c by simp
  have u: "utxo ?b = Map.empty" "total_value ?b = 0" "finite (dom (utxo ?b))"
    by (simp_all add: blank_chain_def total_value_def)
  have g: "confirmable (transactions ?g) ?b" "\<forall>tx \<in> set (transactions ?g). distinct (inputs tx)"
    by (simp_all add: genesis_block_def Let_def covered_def new_id_def u(1))
  have "total_value ?l \<le> minted_by (transactions ?g)"
    using confirm_all_value[OF g u(3)] u(2) by simp
  moreover have "utxo c = utxo ?l" "blocks c = [?g]" "pool c = Map.empty"
    by (simp_all add: c' frame_simps blank_chain_def)
  ultimately show ?thesis
    using finite_utxo_apply_txs[OF u(3)] total_value_cong[of c ?l]
    by (simp add: supply_inv_def all_txs_def)
qed

lemma reachable_supply:
  assumes L: "leveldb_ok L contents" "db_reliable L" and so: "sodium_ok so"
  shows "reachable so L s \<Longrightarrow> supply_inv (sys_chain s)"
proof (induction rule: reachable.induct)
  case (first_start opened bdb pdb c)
  then show ?case using supply_inv_first_start[OF L(2)] by fastforce
next
  case (step s sent s')
  then show ?case using supply_inv_step[OF L so reachable_system_inv[OF L so]] by blast
qed

lemma reachable_crash_supply:
  assumes L: "leveldb_ok L contents" "db_reliable L" and so: "sodium_ok so"
  shows "reachable_crash so L s \<Longrightarrow> supply_inv (sys_chain s)"
proof (induction rule: reachable_crash.induct)
  case (without_crash s)
  then show ?case by (rule reachable_supply[OF L so])
next
  case (step_crash s sent s')
  then show ?case using supply_inv_step[OF L so reachable_crash_inv[OF L so]] by blast
next
  case (crash s s')
  then obtain ids db where "sys_chain s' = forget ids db (sys_chain s)"
    using crash_step_forget[OF L so reachable_crash_inv[OF L so]] by blast
  with crash show ?case by (simp add: supply_inv_forget)
qed

end
