(* ===== verification/Program_Properties.thy ===== *)
theory Program_Properties
  imports Pending_Instance Supply
begin

text \<open>
  Properties of the program as a whole beside those of the root theory: crashes, pending transactions, the
  supply, the sizes of byte arrays, and start-up on any database.
\<close>

section \<open>Crashes\<close>

text \<open>C5. Also when the process may be killed at any point of a block submission, any number of times, every
  state after the restart is consistent: the unspent outputs are the replay of the blocks, the pending
  transactions spend unspent outputs and no two the same one, the blocks are linked, and another restart
  succeeds and restores the chain.\<close>

theorem crash_consistent:
  assumes "leveldb_ok L contents" "db_reliable L" "sodium_ok so" "reachable_crash so L s"
    and "c = sys_chain s"
  shows "utxo c = utxo (replay (blocks c)) \<and>
    (\<forall>h tx. pool c h = Some tx \<longrightarrow> txid tx = h \<and> (\<forall>op \<in> set (inputs tx). utxo c op \<noteq> None)) \<and>
    (\<forall>h h' tx tx'. pool c h = Some tx \<longrightarrow> pool c h' = Some tx' \<longrightarrow> h \<noteq> h' \<longrightarrow>
        set (inputs tx) \<inter> set (inputs tx') = {}) \<and>
    (\<forall>i. Suc i < length (blocks c) \<longrightarrow> prev_hash (header (blocks c ! Suc i)) = block_hash (blocks c ! i)) \<and>
    (\<forall>opened. opened ''blocks'' = Inr (blocks_db c) \<longrightarrow> opened ''pool'' = Inr (pool_db c) \<longrightarrow>
        Chain_init so L opened = Inr c)"
proof -
  have inv: "node_inv so contents c" and cons: "consensus_inv so c"
    using reachable_crash_inv[OF assms(1-4)] assms(5) by (simp_all add: system_inv_def)
  from cons obtain addr where addr: "GENESIS_ADDR so = Inr addr" by (auto simp: consensus_inv_def)
  have scan: "db_scan L db = (fst (db_scan L db), None)" for db
    using assms(2) by (metis db_reliable_def prod.collapse)
  have "Chain_init so L opened = Inr c"
    if "opened ''blocks'' = Inr (blocks_db c)" "opened ''pool'' = Inr (pool_db c)" for opened
    using Chain_init_restart[OF assms(1,3) _ _ _ scan scan that addr] inv by (simp add: node_inv_def)
  moreover have "pool_inv c" using inv by (simp add: node_inv_def)
  ultimately show ?thesis
    using node_inv_replay[OF inv] cons
    by (auto simp: pool_inv_def pool_entries_ok_def pool_disjoint_def consensus_inv_def linked_def)
qed

text \<open>The databases after the loop over the first two transactions of the block.\<close>

lemma ex_crash:
  obtains d :: "ex_db chain" and c'
  where "confirm_txs ex_sodium ex_leveldb (take 2 (transactions ex_listed_block)) ex_paid = (Inr (), d)"
    and "Chain_init ex_sodium ex_leveldb
       (\<lambda>name. if name = ''blocks'' then Inr (blocks_db d) else Inr (pool_db d)) = Inr c'"
    and "crash_step ex_sodium ex_leveldb ex_paid_system (\<lparr>sys_chain = c', sys_conns = {}\<rparr> :: (ex_db, nat) system)"
proof -
  let ?txs = "take 2 (transactions ex_listed_block)"
  obtain d where d: "confirm_txs ex_sodium ex_leveldb ?txs ex_paid = (Inr (), d)"
    using db_reliable_confirm_txs[OF ex_leveldb_reliable] by (metis surj_pair)
  let ?o = "\<lambda>name. if name = ''blocks'' then Inr (blocks_db d) else Inr (pool_db d)"
  have inv: "node_inv ex_sodium map_of ex_paid"
    using ex_paid_inv by (simp add: system_inv_def ex_paid_system_def)
  let ?f = "forget (cleared_ids ?txs) (pool_db d) ex_paid"
  have "pool_stored ex_sodium (map_of (pool_db d)) (pool d)"
    using pool_disk_confirm_txs[OF ex_leveldb_ok ex_sodium_ok _ d] inv by (simp add: node_inv_def disk_inv_def)
  then have n: "node_inv ex_sodium map_of ?f"
    by (intro node_inv_forget[OF inv]) (simp add: confirm_txs_pool[OF d])
  have "blocks_db d = blocks_db ex_paid" using confirm_txs_frame[OF d] by simp
  then have i: "Chain_init ex_sodium ex_leveldb ?o = Inr ?f"
    using n ex_genesis_addr ex_scan
    by (intro Chain_init_restart[OF ex_leveldb_ok ex_sodium_ok _ _ _ ex_scan ex_scan])
      (simp_all add: node_inv_def)
  have p: "parse_create_block_payload ex_sodium (put_create_block ex_listing []) ex_paid =
      Inr (Inr (requested ex_sodium ex_paid ex_listing))"
    using parse_create_block_put[OF ex_listing_ok, of ex_sodium "[]" ex_paid] ex_listing_accepted
    by (simp add: request_accepted_def)
  have k: "block_checks ex_sodium (requested ex_sodium ex_paid ex_listing) ex_paid"
    using ex_listing_accepted
    by (simp add: block_checks_def request_accepted_def requested_fields linorder_not_less)
  have c: "sys_chain ex_paid_system = ex_paid" by (simp add: ex_paid_system_def)
  have d': "confirm_txs ex_sodium ex_leveldb
      (take 2 (transactions (submitted_block ex_sodium (requested ex_sodium ex_paid ex_listing)))) ex_paid = (Inr (), d)"
    unfolding ex_listed by (rule d)
  have "crash_step ex_sodium ex_leveldb ex_paid_system \<lparr>sys_chain = ?f, sys_conns = {}\<rparr>"
    by (rule crash_in_add_block[OF p[folded c] k[folded c] d'[folded c] _ _ i]) simp_all
  with d i show thesis by (rule that)
qed

theorem crash_consistent_witness:
  "\<exists>s. crash_step ex_sodium ex_leveldb ex_paid_system s \<and>
    utxo (sys_chain s) = utxo (replay (blocks (sys_chain s)))"
proof (rule ex_crash)
  fix d :: "ex_db chain" and c'
  assume st: "crash_step ex_sodium ex_leveldb ex_paid_system \<lparr>sys_chain = c', sys_conns = {}\<rparr>"
  from crash_consistent[OF ex_leveldb_ok ex_leveldb_reliable ex_sodium_ok
      reachable_crash.crash[OF without_crash[OF ex_paid_reachable] st] refl] st
  show ?thesis by blast
qed

text \<open>C19. \<open>add_block\<close> deletes the transactions of the block from the pool database before it stores the block.
  A crash in between loses them: after the restart the blocks, the height and the unspent outputs are those
  before the block, and the transactions the loop had reached are not pending any more.\<close>

theorem crash_loses_pending:
  assumes "leveldb_ok L contents" "db_reliable L" "sodium_ok so" "reachable_crash so L s"
    and "confirm_txs so L (take n (transactions blk)) (sys_chain s) = (Inr (), d)"
    and "opened ''blocks'' = Inr (blocks_db d)" "opened ''pool'' = Inr (pool_db d)"
    and "Chain_init so L opened = Inr c'"
  shows "blocks c' = blocks (sys_chain s) \<and> height c' = height (sys_chain s) \<and> utxo c' = utxo (sys_chain s) \<and>
    pool c' = (\<lambda>h. if \<exists>tx \<in> set (take n (transactions blk)). inputs tx \<noteq> [] \<and> txid tx = h then None
                   else pool (sys_chain s) h)"
proof -
  have inv: "node_inv so contents (sys_chain s)"
    using reachable_crash_inv[OF assms(1-4)] by (simp add: system_inv_def)
  from crash_restart(1)[OF assms(1-3) inv assms(5-8)] show ?thesis
    by (auto simp: height_def cleared_ids_def restrict_map_def fun_eq_iff)
qed

theorem crash_loses_pending_witness:
  "\<exists>s. crash_step ex_sodium ex_leveldb ex_paid_system s \<and> blocks (sys_chain s) = [ex_genesis] \<and>
    pool (sys_chain ex_paid_system) (txid ex_spend) = Some ex_spend \<and> pool (sys_chain s) (txid ex_spend) = None"
proof (rule ex_crash)
  fix d :: "ex_db chain" and c'
  assume d: "confirm_txs ex_sodium ex_leveldb (take 2 (transactions ex_listed_block)) ex_paid = (Inr (), d)"
    and i: "Chain_init ex_sodium ex_leveldb
       (\<lambda>name. if name = ''blocks'' then Inr (blocks_db d) else Inr (pool_db d)) = Inr c'"
    and st: "crash_step ex_sodium ex_leveldb ex_paid_system \<lparr>sys_chain = c', sys_conns = {}\<rparr>"
  have "ex_spend \<in> set (take 2 (transactions ex_listed_block))" "inputs ex_spend \<noteq> []"
    by (simp_all add: ex_listed_block_def ex_spend_fields)
  with crash_loses_pending[OF ex_leveldb_ok ex_leveldb_reliable ex_sodium_ok
      without_crash[OF ex_paid_reachable] _ _ _ i, of 2 ex_listed_block d] d
  have "blocks c' = [ex_genesis]" "pool c' (txid ex_spend) = None"
    by (auto simp: ex_paid_system_def ex_paid_fields)
  with st show ?thesis by (intro exI[of _ "\<lparr>sys_chain = c', sys_conns = {}\<rparr>"]) (simp add: ex_paid_system_def ex_paid_fields)
qed


section \<open>Pending transactions\<close>

text \<open>C14. A pending transaction is not lost: a step of the program keeps it pending, or appends a block that
  contains it.\<close>

theorem pending_not_lost:
  assumes "leveldb_ok L contents" "db_reliable L" "sodium_ok so" "reachable so L s"
    and "system_step so L s sent s'" and "pool (sys_chain s) h = Some tx"
  shows "pool (sys_chain s') h = Some tx \<or>
    (\<exists>blk. blocks (sys_chain s') = blocks (sys_chain s) @ [blk] \<and> tx \<in> set (transactions blk))"
  by (rule step_pending[OF assms(1-3) reachable_system_inv[OF assms(1-4)] assms(5,6)])

text \<open>C13. A pending transaction can be confirmed: whatever coinbase a miner chooses, once a nonce is found with
  which the block of coinbase and transaction meets the target, there is a message that makes the node append
  this block, take the transaction out of the pool, and announce the block to the open connections.\<close>

theorem pending_can_be_confirmed:
  fixes s :: "('db, 'conn) system"
  assumes "leveldb_ok L contents" "db_reliable L" "sodium_ok so" "reachable so L s"
    and "pool (sys_chain s) h = Some tx" "length (blocks (sys_chain s)) < 2 ^ 32" "length addr = 20"
    and "blk = mk_block so (tip_hash (sys_chain s))
           [mk_transaction so [] [\<lparr>recipient = addr, amount = reward\<rparr>] t, tx] ts n"
    and "block_hash blk \<le> target (sys_chain s)"
  shows "\<exists>sent s'. system_step so L s sent s' \<and>
    blocks (sys_chain s') = blocks (sys_chain s) @ [blk] \<and>
    pool (sys_chain s') = (pool (sys_chain s))(h := None) \<and>
    sent = (\<lambda>conn. (conn, Ws_json (event_new_block_json so blk))) ` sys_conns s"
proof -
  let ?c = "sys_chain s" and ?cb = "mk_transaction so [] [\<lparr>recipient = addr, amount = reward\<rparr>] t"
  let ?q = "\<lparr>br_prev_hash = tip_hash ?c, br_merkle = compute_block_merkle_root so [?cb, tx], br_timestamp = ts,
    br_nonce = n, br_address = addr, br_reward = reward, br_cb_timestamp = t, br_txids = [h]\<rparr>"
  have inv: "system_inv so contents s" by (rule reachable_system_inv[OF assms(1-4)])
  then have pool: "pool_inv ?c" and ne: "blocks ?c \<noteq> []"
    by (auto simp: system_inv_def node_inv_def consensus_inv_def)
  have sized: "well_sized ?c" using inv well_sized_node[OF assms(3)] by (auto simp: system_inv_def)
  then have h: "length h = 32" and tip: "length (tip_hash ?c) = 32"
    using assms(5) ne by (auto simp: well_sized_def tip_hash_def)
  have "length (compute_block_merkle_root so [?cb, tx]) = 32"
    using assms(3) sized assms(5)
    by (auto simp: compute_block_merkle_root_def well_sized_def tx_ok_def intro!: length_compute_merkle_root)
  with h tip assms(7) have q: "block_request_ok ?q" by (simp add: block_request_ok_def)
  have b: "submitted_block so (requested so ?c ?q) = blk"
    using assms(5,8) by (simp add: submitted_block_def requested_def request_coinbase_def)
  have acc: "request_accepted so ?c ?q"
    unfolding request_accepted_def b using assms(5,9) by (simp add: request_coinbase_def)
  obtain c2 where add: "add_block so L blk ?c = (Inr (), c2)"
    using db_reliable_add_block[OF assms(2)] by (metis surj_pair)
  obtain r c' where r: "on_create_block so L (put_create_block ?q [] @ []) ?c = (r, c')" by fastforce
  with on_create_block_request[OF q add[folded b] r] acc b
  have ev: "events r = [On_block_accepted blk]" and c': "c' = c2" by simp_all
  have m: "handle_msg so L (\<lambda>_. []) (msg_code CreateBlock) (put_create_block ?q []) ?c = (Inr r, c')"
    using r by (simp add: handle_msg_def)
  have len: "length (put_create_block ?q []) + 2 < 2 ^ 32"
    by (simp add: length_put_create_block[OF q])
  have st: "system_step so L s (tcp_messages so (sys_conns s) (Inr r)) (s\<lparr>sys_chain := c'\<rparr>)"
    by (rule tcp_message[OF len assms(6) m])
  have "cleared_ids (transactions blk) = {h}"
    using pool_invD(1,2)[OF pool assms(5)] by (auto simp: assms(8) cleared_ids_def)
  then have "pool c' = (pool ?c)(h := None)"
    using add_block_pool[OF add] c' by (auto simp: restrict_map_def fun_eq_iff)
  moreover have "blocks c' = blocks ?c @ [blk]" using add_block_blocks[OF add] c' by simp
  ultimately show ?thesis
    using st ev
    by (intro exI[of _ "tcp_messages so (sys_conns s) (Inr r)"] exI[of _ "s\<lparr>sys_chain := c'\<rparr>"])
      (simp add: tcp_messages_def broadcast_new_block_def broadcast_text_def)
qed

theorem pending_can_be_confirmed_witness:
  "\<exists>sent s'. system_step ex_sodium ex_leveldb ex_paid_system sent s' \<and>
    blocks (sys_chain s') = [ex_genesis, ex_listed_block] \<and> pool (sys_chain s') (txid ex_spend) = None"
proof -
  have c: "sys_chain ex_paid_system = ex_paid" by (simp add: ex_paid_system_def)
  have "target ex_paid = build_target 3" by (simp add: target_def ex_paid_fields)
  moreover have "tip_hash ex_paid = block_hash ex_genesis" by (simp add: tip_hash_def ex_paid_fields)
  ultimately obtain sent s' where "system_step ex_sodium ex_leveldb ex_paid_system sent s'"
    "blocks (sys_chain s') = [ex_genesis] @ [ex_listed_block]" "pool (sys_chain s') = (pool ex_paid)(txid ex_spend := None)"
    using pending_can_be_confirmed[OF ex_leveldb_ok ex_leveldb_reliable ex_sodium_ok ex_paid_reachable,
        unfolded c, where h = "txid ex_spend" and addr = "replicate 20 3" and blk = ex_listed_block and
        reward = 3000000 and t = 9 and ts = 1781545400 and n = 5 and tx = ex_spend]
      ex_listed_hash ex_listed_block_def
    by (auto simp: ex_paid_fields(2,3))
  then show ?thesis by (intro exI[of _ sent] exI[of _ s']) simp
qed

theorem pending_not_lost_witness:
  "\<exists>sent s'. system_step ex_sodium ex_leveldb ex_paid_system sent s' \<and>
    (pool (sys_chain s') (txid ex_spend) = Some ex_spend \<or>
     (\<exists>blk. blocks (sys_chain s') = [ex_genesis, blk] \<and> ex_spend \<in> set (transactions blk)))"
proof -
  have "pool (sys_chain ex_paid_system) (txid ex_spend) = Some ex_spend"
    by (simp add: ex_paid_system_def ex_paid_fields)
  with pending_not_lost[OF ex_leveldb_ok ex_leveldb_reliable ex_sodium_ok ex_paid_reachable websocket_close]
    websocket_close
  have "pool (sys_chain (ex_paid_system\<lparr>sys_conns := ws_close 0 (sys_conns ex_paid_system)\<rparr>)) (txid ex_spend) = Some ex_spend \<or>
     (\<exists>blk. blocks (sys_chain (ex_paid_system\<lparr>sys_conns := ws_close 0 (sys_conns ex_paid_system)\<rparr>)) =
        blocks (sys_chain ex_paid_system) @ [blk] \<and> ex_spend \<in> set (transactions blk))"
    by blast
  moreover have "blocks (sys_chain ex_paid_system) = [ex_genesis]" by (simp add: ex_paid_system_def ex_paid_fields)
  ultimately show ?thesis using websocket_close by fastforce
qed


section \<open>The supply\<close>

text \<open>C6. Whatever clients send and whenever the process is killed: as long as the chain has no two transactions
  with one identifier and none that lists an input twice, the unspent outputs are worth no more than the
  coinbases of the chain created.\<close>

theorem supply_bounded:
  assumes "leveldb_ok L contents" "db_reliable L" "sodium_ok so" "reachable_crash so L s"
    and "txs = concat (map transactions (blocks (sys_chain s)))"
    and "distinct (map txid txs)" "\<forall>tx \<in> set txs. distinct (inputs tx)"
  shows "total_value (sys_chain s) \<le> (\<Sum>tx \<leftarrow> txs. if is_coinbase tx then outputs_value (outputs tx) else 0)"
  using reachable_crash_supply[OF assms(1-4)] assms(5-7)
  by (simp add: supply_inv_def distinct_ids_def distinct_inputs_def all_txs_def minted_by_def is_coinbase_def)

theorem supply_bounded_witness: "total_value ex_paid \<le> 15000000"
proof -
  have "concat (map transactions (blocks (sys_chain ex_paid_system))) = transactions ex_genesis"
    by (simp add: ex_paid_system_def ex_paid_fields)
  from supply_bounded[OF ex_leveldb_ok ex_leveldb_reliable ex_sodium_ok without_crash[OF ex_paid_reachable] this[symmetric]]
  have "total_value (sys_chain ex_paid_system) \<le> 15000000"
    by (simp add: ex_genesis_def genesis_block_def Let_def is_coinbase_def outputs_value_def UNITS_def)
  then show ?thesis by (simp add: ex_paid_system_def)
qed


section \<open>Byte arrays\<close>

text \<open>The arrays keep the sizes their types have in the code: in every reachable state, crashes included,
  the hashes of unspent out-points, spent marks, pending transactions, blocks, and of the target have 32 bytes,
  the recipients 20, and pending and confirmed transactions have fewer than \<open>2 ^ 32\<close> inputs and outputs,
  all of these sizes too.\<close>

theorem reachable_sizes:
  assumes "leveldb_ok L contents" "db_reliable L" "sodium_ok so" "reachable_crash so L s"
    and "c = sys_chain s"
  shows "(\<forall>op out. utxo c op = Some out \<longrightarrow> length (op_txid op) = 32 \<and> length (recipient out) = 20) \<and>
    (\<forall>op. pool_spent c op \<noteq> None \<longrightarrow> length (op_txid op) = 32) \<and>
    (\<forall>h tx. pool c h = Some tx \<longrightarrow> length h = 32 \<and> tx_ok tx) \<and>
    (\<forall>blk \<in> set (blocks c). length (prev_hash (header blk)) = 32 \<and> length (merkle_root (header blk)) = 32 \<and>
       length (block_hash blk) = 32 \<and> (\<forall>tx \<in> set (transactions blk). tx_ok tx)) \<and>
    length (target c) = 32"
proof -
  have "node_inv so contents c"
    using reachable_crash_inv[OF assms(1-4)] assms(5) by (simp add: system_inv_def)
  from well_sized_node[OF assms(3) this] show ?thesis
    by (simp add: well_sized_def header_ok_def target_def)
qed

theorem reachable_sizes_witness:
  "length (op_txid ex_op) = 32 \<and> length (txid ex_spend) = 32 \<and> tx_ok ex_spend \<and> length (block_hash ex_genesis) = 32"
  using reachable_sizes[OF ex_leveldb_ok ex_leveldb_reliable ex_sodium_ok without_crash[OF ex_paid_reachable] refl]
  by (simp add: ex_paid_system_def ex_paid_fields ex_node_fields)


section \<open>Start-up on any databases\<close>

text \<open>\<open>decodes so e blk\<close>: the bytes of the entry are read to the end and give the block.\<close>

definition decodes :: "sodium \<Rightarrow> string \<times> bytes \<Rightarrow> block \<Rightarrow> bool" where
  "decodes so e blk \<longleftrightarrow>
     (\<exists>r. block_deserialize so (mk_reader (snd e)) = Inr (blk, r) \<and> roffset r = length (snd e))"

lemma load_block_entry_Inr:
  assumes "load_block_entry so e c = Inr c'"
  shows "\<exists>blk. decodes so e blk \<and> c' = load_all [blk] c"
  using assms
  by (auto simp: load_block_entry_def Let_def decodes_def load_all_def split: sum.splits prod.splits if_splits)

lemma load_block_entries_Inr:
  "load_block_entries so es c = Inr c' \<Longrightarrow> \<exists>bs. list_all2 (decodes so) es bs \<and> c' = load_all bs c"
proof (induction es arbitrary: c)
  case Nil
  then show ?case by (intro exI[of _ "[]"]) (simp add: load_all_def)
next
  case (Cons e es)
  then obtain c1 where c1: "load_block_entry so e c = Inr c1" "load_block_entries so es c1 = Inr c'"
    by (auto simp: ebind_Inr_iff)
  obtain blk where "decodes so e blk" "c1 = load_all [blk] c" using load_block_entry_Inr[OF c1(1)] by blast
  moreover obtain bs where "list_all2 (decodes so) es bs" "c' = load_all bs c1" using Cons.IH[OF c1(2)] by blast
  ultimately show ?case by (intro exI[of _ "blk # bs"]) (simp add: load_all_def)
qed

lemma load_pool_entries_frame:
  "load_pool_entries es c = Inr c' \<Longrightarrow>
   blocks c' = blocks c \<and> ledger.truncate c' = ledger.truncate c \<and> chain_height c' = chain_height c"
proof (induction es arbitrary: c)
  case (Cons e es)
  then obtain c1 where c1: "load_pool_entry e c = Inr c1" "load_pool_entries es c1 = Inr c'"
    by (auto simp: ebind_Inr_iff)
  then have "blocks c1 = blocks c \<and> ledger.truncate c1 = ledger.truncate c \<and> chain_height c1 = chain_height c"
    by (auto simp: load_pool_entry_def ebind_Inr_iff ledger.truncate_def)
  with Cons.IH[OF c1(2)] show ?case by simp
qed simp

text \<open>C30. Whatever the blocks database holds: when the constructor returns, the scan ended without an error, every
  entry was read to its last byte as a block, the blocks in memory are these in the order of the scan, and
  ledger and height are theirs. An entry that does not decode, or has bytes left over, makes it throw. That the
  blocks form a chain, or carry proof of work, is not looked at.\<close>

theorem start_up_decodes_all:
  assumes "opened ''blocks'' = Inr bdb" "db_scan L bdb = (entries, final)" "entries \<noteq> []"
    and "Chain_init so L opened = Inr c"
  shows "final = None \<and> list_all2 (decodes so) entries (blocks c) \<and>
    utxo c = utxo (replay (blocks c)) \<and> address_utxo c = address_utxo (replay (blocks c)) \<and>
    height c = word_of_nat (length (blocks c))"
proof -
  obtain addr pdb c1 c2 c3 where c1: "load_blocks so L (blank_chain bdb pdb) = Inr c1"
    and c2: "load_pool L c1 = Inr c2"
    and c3: "(if blocks c2 = [] then (case create_genesis so L addr c2 of (Inl e, _) \<Rightarrow> Inl e | (Inr _, c3) \<Rightarrow> Inr c3)
              else Inr c2) = Inr c3"
    and c: "c = c3\<lparr>chain_target := build_target (chain_difficulty c3)\<rparr>"
    using assms(1,4) by (auto simp: Chain_init_def ebind_Inr_iff open_db_def)
  obtain c0 where c0: "load_block_entries so entries (blank_chain bdb pdb) = Inr c0" and fin: "final = None"
    and c1': "c1 = c0\<lparr>chain_height := word_of_nat (length (blocks c0))\<rparr>"
    using c1 assms(2) by (auto simp: load_blocks_def blank_chain_def ebind_Inr_iff split: option.splits)
  obtain bs where bs: "list_all2 (decodes so) entries bs" "c0 = load_all bs (blank_chain bdb pdb)"
    using load_block_entries_Inr[OF c0] by blast
  have b: "blocks c1 = bs" "ledger.truncate c1 = replay bs" "chain_height c1 = word_of_nat (length bs)"
    by (simp_all add: c1' bs(2) load_all_simps blank_chain_def truncate_updates replay_def)
      (simp add: empty_ledger_def ledger.truncate_def)
  from c2 have f: "blocks c2 = blocks c1 \<and> ledger.truncate c2 = ledger.truncate c1 \<and> chain_height c2 = chain_height c1"
    unfolding load_pool_def by (rule load_pool_entries_frame)
  have "bs \<noteq> []" using bs(1) assms(3) by auto
  with c3 f b have "c3 = c2" by simp
  with c f b have r: "blocks c = bs" "ledger.truncate c = replay bs" "height c = word_of_nat (length bs)"
    by (simp_all add: truncate_updates height_def)
  then have "utxo c = utxo (replay bs)" "address_utxo c = address_utxo (replay bs)"
    by (metis utxo_truncate, metis address_utxo_truncate)
  with fin bs(1) r show ?thesis by simp
qed

theorem start_up_decodes_all_witness:
  "list_all2 (decodes ex_sodium) [(''k'', block_serialize_str ex_genesis)] [ex_genesis] \<and>
   (\<exists>c. Chain_init ex_sodium ex_leveldb
      (\<lambda>name. if name = ''blocks'' then Inr [(''k'', block_serialize_str ex_genesis)] else Inr []) = Inr c \<and>
    blocks c = [ex_genesis])"
proof -
  let ?o = "\<lambda>name. if name = ''blocks'' then Inr [(''k'', block_serialize_str ex_genesis)] else Inr []"
  have scan: "db_scan ex_leveldb [(''k'', block_serialize_str ex_genesis)] = ([(''k'', block_serialize_str ex_genesis)], None)"
    by (simp add: ex_leveldb_def)
  obtain c where c: "Chain_init ex_sodium ex_leveldb ?o = Inr c" and b: "blocks c = [ex_genesis]"
    using scan ex_scan_empty
    by (simp add: Chain_init_def open_db_def load_blocks_def load_pool_def blank_chain_def Let_def frame_simps
        load_block_entry_ok[OF ex_genesis_ok] ex_genesis_addr)
  from start_up_decodes_all[OF _ scan _ c] have "list_all2 (decodes ex_sodium) [(''k'', block_serialize_str ex_genesis)] [ex_genesis]"
    by (simp add: b)
  with c b show ?thesis by blast
qed

end
