(* ===== verification/Console_Properties.thy ===== *)
theory Console_Properties
  imports Pending_Instance
begin

text \<open>
  Properties of what the program writes: printed times, the requests and the blocks that make the output
  undefined, the dump of the unspent outputs, and when the charts are answered.
\<close>

section \<open>Times\<close>

text \<open>A timestamp is printed as the date and time of the Gregorian calendar that lie that many seconds after
  the epoch, and it cannot be printed exactly when its year does not fit an \<^verbatim>\<open>int\<close>.\<close>

theorem timestamps_printed:
  "(format_timestamp ts = Some text \<longleftrightarrow> (\<exists>x. tm_ok x \<and> timegm x = sint ts \<and>
      text = int_to_string (tm_year x) @ ''-'' @ two_digits (tm_mon x) @ ''-'' @ two_digits (tm_mday x) @ '' '' @
        two_digits (tm_hour x) @ '':'' @ two_digits (tm_min x) @ '':'' @ two_digits (tm_sec x))) \<and>
   (format_timestamp ts = None \<longleftrightarrow> sint ts < - 67768040609740800 \<or> 67768036191676799 < sint ts)"
proof
  show "format_timestamp ts = Some text \<longleftrightarrow> (\<exists>x. tm_ok x \<and> timegm x = sint ts \<and>
      text = int_to_string (tm_year x) @ ''-'' @ two_digits (tm_mon x) @ ''-'' @ two_digits (tm_mday x) @ '' '' @
        two_digits (tm_hour x) @ '':'' @ two_digits (tm_min x) @ '':'' @ two_digits (tm_sec x))"
    unfolding format_timestamp_def map_option_eq_Some gmtime_iff strftime_timestamp by blast
qed (rule format_timestamp_None_iff)


section \<open>Undefined output\<close>

text \<open>C16. Every transaction that parses is printed, also a rejected one: a \<^verbatim>\<open>CreateTransaction\<close> message with a
  timestamp that cannot be printed makes the server pass a null pointer to \<^verbatim>\<open>strftime\<close>, whatever its inputs
  and its signature. Nothing else in such a message does.\<close>

theorem tx_timestamp_stops_server:
  assumes "db_reliable L"
  shows "handle_msg_output so L (msg_code CreateTransaction) payload c = None \<longleftrightarrow>
    (\<exists>p. parse_create_tx_payload payload = Inr p \<and>
       (sint (pct_timestamp p) < - 67768040609740800 \<or> 67768036191676799 < sint (pct_timestamp p)))"
proof -
  have "\<exists>err. fst (add_tx so L st c) = Inr err" for st
    using db_reliable_add_tx[OF assms] by (metis prod.collapse)
  then show ?thesis
    by (auto simp: handle_msg_output_def on_create_tx_output_None not_le)
qed

definition ex_absurd :: parsed_create_tx where
  "ex_absurd = (ex_payment [] 1)\<lparr>pct_timestamp := 0x4000000000000000\<rparr>"

lemma ex_absurd_parsed: "parse_create_tx_payload (put_create_tx ex_absurd []) = Inr ex_absurd"
proof -
  have "create_tx_ok ex_absurd"
    using ex_payment_ok[of "[]" 1] by (simp add: ex_absurd_def create_tx_ok_def)
  then show ?thesis by (auto simp: parse_create_tx_iff)
qed

theorem tx_timestamp_stops_server_witness:
  "handle_msg_output ex_sodium ex_leveldb (msg_code CreateTransaction) (put_create_tx ex_absurd []) ex_node = None \<and>
   check_tx ex_sodium (submitted_tx ex_sodium ex_absurd) ex_node = TxError_InvalidPayload"
proof
  have "sint (pct_timestamp ex_absurd) = 4611686018427387904" by (simp add: ex_absurd_def)
  with ex_absurd_parsed
  show "handle_msg_output ex_sodium ex_leveldb (msg_code CreateTransaction) (put_create_tx ex_absurd []) ex_node = None"
    unfolding tx_timestamp_stops_server[OF ex_leveldb_reliable] by auto
  show "check_tx ex_sodium (submitted_tx ex_sodium ex_absurd) ex_node = TxError_InvalidPayload"
    by (simp add: check_tx_def submitted_tx_def ex_absurd_def ex_payment_def u64_max_def)
qed

text \<open>C18. The constructor prints every block. In a reachable state with a block whose timestamp cannot be printed,
  which the server accepts like any other, the program cannot be started again: the restart restores the
  chain, but its output is undefined. Without such a block it is defined.\<close>

theorem block_timestamp_stops_restart:
  assumes "leveldb_ok L contents" "db_reliable L" "sodium_ok so" "reachable so L s"
    and "opened ''blocks'' = Inr (blocks_db (sys_chain s))" "opened ''pool'' = Inr (pool_db (sys_chain s))"
  shows "\<exists>out. Chain_start so L iter opened = Inr (sys_chain s, out) \<and>
    (out = None \<longleftrightarrow> (\<exists>blk \<in> set (blocks (sys_chain s)).
       sint (hd_timestamp (header blk)) < - 67768040609740800 \<or> 67768036191676799 < sint (hd_timestamp (header blk))))"
proof -
  have inv: "system_inv so contents s" by (rule reachable_system_inv[OF assms(1-4)])
  then obtain addr where addr: "GENESIS_ADDR so = Inr addr"
    by (auto simp: system_inv_def consensus_inv_def)
  have scan: "db_scan L db = (fst (db_scan L db), None)" for db
    using assms(2) by (metis db_reliable_def prod.collapse)
  have "Chain_init so L opened = Inr (sys_chain s)"
    using inv by (intro Chain_init_restart[OF assms(1,3) _ _ _ scan scan assms(5,6) addr])
      (simp_all add: system_inv_def node_inv_def)
  then show ?thesis
    using assms(5) chain_report_None[of so iter "sys_chain s"]
    by (simp add: Chain_start_def open_db_def not_le)
qed

definition ex_absurd_block :: block where
  "ex_absurd_block = submitted_block ex_sodium (requested ex_sodium ex_node (ex_block 0x4000000000000000 3000000))"

lemma ex_absurd_block_hash: "block_hash ex_absurd_block \<le> build_target 3"
proof -
  have "ex_absurd_block =
    submitted_block ex_sodium (requested ex_sodium (blank_chain [] ([] :: ex_db)) (ex_block 0x4000000000000000 3000000))"
    by (simp add: ex_absurd_block_def submitted_block_def requested_def ex_block_def)
  moreover have "block_hash (submitted_block ex_sodium (requested ex_sodium (blank_chain [] ([] :: ex_db))
      (ex_block 0x4000000000000000 3000000))) \<le> build_target 3" by code_simp
  ultimately show ?thesis by simp
qed

lemma ex_absurd_reachable:
  obtains s :: "(ex_db, nat) system"
  where "reachable ex_sodium ex_leveldb s" "blocks (sys_chain s) = [ex_genesis, ex_absurd_block]"
proof -
  let ?q = "ex_block 0x4000000000000000 3000000"
  obtain c2 where add: "add_block ex_sodium ex_leveldb ex_absurd_block ex_node = (Inr (), c2)"
    using db_reliable_add_block[OF ex_leveldb_reliable] by (metis surj_pair)
  obtain r c' where r: "on_create_block ex_sodium ex_leveldb (put_create_block ?q [] @ []) ex_node = (r, c')"
    by fastforce
  have "request_accepted ex_sodium ex_node ?q"
    using ex_absurd_block_hash ex_block_checks
    by (simp add: request_accepted_def ex_target ex_absurd_block_def) (simp add: ex_block_def)
  with on_create_block_request[OF ex_block_ok add[unfolded ex_absurd_block_def] r] have c': "c' = c2" by simp
  have h: "handle_msg ex_sodium ex_leveldb (\<lambda>_. []) (msg_code CreateBlock) (put_create_block ?q []) (sys_chain ex_system) =
      (Inr r, c')"
    using r by (simp add: handle_msg_def ex_system_def)
  have len: "length (put_create_block ?q []) + 2 < 2 ^ 32"
    using ex_block_ok[of "0x4000000000000000" 3000000]
    by (simp add: put_create_block_unfold block_request_ok_def) (simp add: ex_block_def)
  have room: "length (blocks (sys_chain ex_system)) < 2 ^ 32" by (simp add: ex_system_def ex_node_blocks)
  have "blocks c' = [ex_genesis, ex_absurd_block]"
    using add_block_blocks[OF add] by (simp add: c' ex_node_blocks)
  then show thesis
    using that[OF reachable.step[OF ex_reachable tcp_message[OF len room h]]] by simp
qed

theorem block_timestamp_stops_restart_witness:
  "\<exists>s :: (ex_db, nat) system. reachable ex_sodium ex_leveldb s \<and> blocks (sys_chain s) = [ex_genesis, ex_absurd_block] \<and>
    Chain_start ex_sodium ex_leveldb (\<lambda>_. [])
      (\<lambda>name. if name = ''blocks'' then Inr (blocks_db (sys_chain s)) else Inr (pool_db (sys_chain s))) =
      Inr (sys_chain s, None)"
proof (rule ex_absurd_reachable)
  fix s :: "(ex_db, nat) system"
  assume s: "reachable ex_sodium ex_leveldb s" "blocks (sys_chain s) = [ex_genesis, ex_absurd_block]"
  let ?o = "\<lambda>name. if name = ''blocks'' then Inr (blocks_db (sys_chain s)) else Inr (pool_db (sys_chain s))"
  have "sint (hd_timestamp (header ex_absurd_block)) = 4611686018427387904"
    by (simp add: ex_absurd_block_def submitted_block_def requested_def ex_block_def)
  with block_timestamp_stops_restart[OF ex_leveldb_ok ex_leveldb_reliable ex_sodium_ok s(1), of ?o "\<lambda>_. []"] s
  show ?thesis by auto
qed


section \<open>The dump of the unspent outputs\<close>

text \<open>C35. \<^verbatim>\<open>dump_utxo\<close> does not depend on the order of the hash table: it lists every unspent output once, in
  strictly ascending order of identifier and index, and its total is their value modulo \<open>2 ^ 64\<close>.\<close>

theorem utxo_dump_exact:
  assumes "sodium_ok so" "iterates iter (utxo c)" "iterates iter' (utxo c)"
  shows "dump_utxo so iter c = dump_utxo so iter' c \<and>
    sorted_wrt (<) (map (\<lambda>e. (to_hex so (op_txid (fst e)), op_index (fst e))) (dump_entries so iter c)) \<and>
    set (dump_entries so iter c) = {(op, out). utxo c op = Some out} \<and>
    sum_list (map (\<lambda>e. amount (snd e)) (dump_entries so iter c)) = word_of_nat (total_value c)"
  using dump_utxo_order[OF assms] dump_entries_sorted[OF assms(1,2)] dump_total[OF assms(1,2)]
  by (simp add: dump_key_def[abs_def])

theorem utxo_dump_exact_witness:
  "set (dump_entries ex_sodium (\<lambda>_. [(ex_op, \<lparr>recipient = ex_addr, amount = 15000000\<rparr>)]) ex_node) =
    {(op, out). utxo ex_node op = Some out}"
proof -
  have i: "iterates (\<lambda>_. [(ex_op, \<lparr>recipient = ex_addr, amount = 15000000\<rparr>)]) (utxo ex_node)"
    by (simp add: iterates_def ex_node_fields)
  from utxo_dump_exact[OF ex_sodium_ok i i] show ?thesis by blast
qed


section \<open>Charts\<close>

text \<open>The request for the charts is answered exactly when the two clock readings behind the charts with hours
  are before the last 16 seconds that 64 bits can hold: although the hour counter may wrap around, the
  loops over the hours end, except then, when they run forever.\<close>

theorem charts_answered:
  assumes "0 < height c"
  shows "(\<exists>response. api_charts now1 now2 now3 now4 c cs = Some response) \<longleftrightarrow>
    unat now1 < 2 ^ 64 - 16 \<and> unat now3 < 2 ^ 64 - 16"
proof -
  have slots: "(\<exists>slots. chart_slots now = Some slots) \<longleftrightarrow> unat now < 2 ^ 64 - 16" for now
    using chart_slots_Some[of now] chart_slots_None[of now]
    by (metis linorder_not_less option.distinct(1))
  have "(\<exists>response. api_charts now1 now2 now3 now4 c cs = Some response) \<longleftrightarrow>
      (\<exists>slots. chart_slots now1 = Some slots) \<and> (\<exists>slots. chart_slots now3 = Some slots)"
    using assms by (auto simp: api_charts_def Let_def blocks_over_time_def avg_block_size_def split: option.splits)
  then show ?thesis by (simp only: slots)
qed

theorem charts_answered_witness:
  "(\<exists>response. api_charts 1781548000 1781548000 1781548000 1781548000 ex_node (\<lambda>_ _. ex_node) = Some response) \<and>
   api_charts 0xFFFFFFFFFFFFFFF0 0 0 0 ex_node (\<lambda>_ _. ex_node) = None"
proof -
  have h: "0 < height ex_node"
    using ex_node_inv by (simp add: node_inv_def history_inv_def height_def ex_node_blocks)
  show ?thesis
    using charts_answered[OF h, of 1781548000 1781548000 1781548000 1781548000]
      charts_answered[OF h, of "0xFFFFFFFFFFFFFFF0" 0 0 0]
    by auto
qed

end
