(* ===== verification/Interleaving.thy ===== *)
theory Interleaving
  imports System
begin

text \<open>
  A block submission while the HTTP server runs. \<^verbatim>\<open>on_create_block\<close> locks the chain for each call, not for the
  whole handler: for every lookup in the pool, for the target, for the tip, and for \<^verbatim>\<open>add_block\<close>. In between,
  the HTTP threads may submit transactions; blocks come from the thread of the TCP server only. Here call
  number \<open>i\<close> sees the chain \<open>cs i\<close>. Shown: the handler acts as if it ran without interruption.
\<close>

section \<open>The handler with the chain of each call\<close>

definition take_create_block_by ::
    "sodium \<Rightarrow> (nat \<Rightarrow> (string + transaction list) parser) \<Rightarrow> (string + parsed_create_block) parser" where
  "take_create_block_by so resolve =
     pbind take_hash (\<lambda>prev.
     pbind take_hash (\<lambda>wire_merkle.
     pbind take_u64 (\<lambda>ts.
     pbind take_u64 (\<lambda>n.
     pbind take_addr (\<lambda>cb_address.
     pbind take_u64 (\<lambda>cb_reward.
     pbind take_u64 (\<lambda>cb_timestamp.
     let coinbase = mk_transaction so [] [\<lparr>recipient = cb_address, amount = cb_reward\<rparr>] cb_timestamp in
     pbind take_u32 (\<lambda>tx_count.
     pbind (resolve (unat tx_count)) (\<lambda>res.
       preturn (case res of
           Inl s \<Rightarrow> Inl s
         | Inr txs \<Rightarrow> Inr \<lparr>pcb_prev_hash = prev, pcb_wire_merkle = wire_merkle,
               pcb_timestamp = ts, pcb_nonce = n, pcb_coinbase = coinbase,
               pcb_transactions = coinbase # txs\<rparr>))))))))))"

lemma take_create_block_resolve: "take_create_block so c = take_create_block_by so (resolve_txs c)"
  by (simp add: take_create_block_def take_create_block_by_def)

text \<open>
  \<open>t\<close>, \<open>u\<close> and \<open>v\<close> are the moments at which the target and the tip are read and \<^verbatim>\<open>add_block\<close> is called; the last
  is also that of the reply.
\<close>

definition on_create_block_interleaved ::
    "sodium \<Rightarrow> 'db leveldb \<Rightarrow> bytes \<Rightarrow> (nat \<Rightarrow> 'db chain) \<Rightarrow> nat \<Rightarrow> nat \<Rightarrow> nat \<Rightarrow> reaction \<times> 'db chain" where
  "on_create_block_interleaved so L payload cs t u v =
     (let respond = (\<lambda>err reason evs.
            (replies CreateBlockResponse (serialize_block_response err reason))\<lparr>events := evs\<rparr>)
      in case ebind (take_create_block_by so (resolve_interleaved cs 0) (mk_reader payload)) (\<lambda>(p, _). Inr p) of
           Inl e \<Rightarrow> (respond BlockError_InvalidPayload (what e) [], cs v)
         | Inr (Inl s) \<Rightarrow> (respond BlockError_InvalidPayload s [], cs v)
         | Inr (Inr p) \<Rightarrow>
             let blk = mk_block so (pcb_prev_hash p) (pcb_transactions p) (pcb_timestamp p) (pcb_nonce p)
             in if merkle_root (header blk) \<noteq> pcb_wire_merkle p
                then (respond BlockError_InvalidBlockHash ''merkle root mismatch'' [], cs v)
                else if block_hash blk > target (cs t)
                then (respond BlockError_HighHash ''hash does not meet difficulty'' [], cs v)
                else if prev_hash (header blk) \<noteq> tip_hash (cs u)
                then (respond BlockError_BadPreviousHash ''prev hash does not match tip'' [], cs v)
                else case add_block so L blk (cs v) of
                       (Inl e, c') \<Rightarrow> (respond BlockError_InvalidPayload (what e) [], c')
                     | (Inr _, c') \<Rightarrow>
                         (respond BlockError_None ''accepted'' [On_block_accepted blk], c'))"


section \<open>Linearizability\<close>

lemma pbind_choice:
  assumes "\<And>x r'. \<exists>j. P j \<and> f x r' = g j x r'"
  shows "\<exists>j. P j \<and> pbind m f r = pbind m (g j) r"
proof (cases "m r")
  case (Inl e)
  with assms show ?thesis by (auto simp: pbind_def)
next
  case (Inr p)
  with assms[of "fst p" "snd p"] show ?thesis by (auto simp: pbind_def split: prod.splits)
qed

lemma parse_interleaved_atomic:
  assumes grow: "\<And>i. pool (cs i) \<subseteq>\<^sub>m pool (cs (Suc i))"
  shows "\<exists>j. j \<le> 2 ^ 33 \<and> take_create_block_by so (resolve_interleaved cs 0) r = take_create_block so (cs j) r"
  unfolding take_create_block_resolve take_create_block_by_def Let_def
proof (intro pbind_choice)
  fix prev merkle ts n addr reward ts' and tx_count :: u32 and r'
  let ?n = "unat tx_count"
  obtain j where j: "j \<le> 2 * ?n" "resolve_interleaved cs 0 ?n r' = resolve_txs (cs j) ?n r'"
    using resolve_interleaved_atomic[of cs 0 ?n r', OF grow] by auto
  have "unat tx_count < 2 ^ 32" using unsigned_less[of tx_count] by simp
  with j(1) have "j \<le> 2 ^ 33" by simp
  with j(2) show "\<exists>j. j \<le> 2 ^ 33 \<and>
      pbind (resolve_interleaved cs 0 ?n) (\<lambda>res. preturn (case res of Inl s \<Rightarrow> Inl s
         | Inr txs \<Rightarrow> Inr \<lparr>pcb_prev_hash = prev, pcb_wire_merkle = merkle, pcb_timestamp = ts, pcb_nonce = n,
             pcb_coinbase = mk_transaction so [] [\<lparr>recipient = addr, amount = reward\<rparr>] ts',
             pcb_transactions = mk_transaction so [] [\<lparr>recipient = addr, amount = reward\<rparr>] ts' # txs\<rparr>)) r' =
      pbind (resolve_txs (cs j) ?n) (\<lambda>res. preturn (case res of Inl s \<Rightarrow> Inl s
         | Inr txs \<Rightarrow> Inr \<lparr>pcb_prev_hash = prev, pcb_wire_merkle = merkle, pcb_timestamp = ts, pcb_nonce = n,
             pcb_coinbase = mk_transaction so [] [\<lparr>recipient = addr, amount = reward\<rparr>] ts',
             pcb_transactions = mk_transaction so [] [\<lparr>recipient = addr, amount = reward\<rparr>] ts' # txs\<rparr>)) r'"
    by (auto simp: pbind_def)
qed

text \<open>A submission whose transactions were all found parses to the same block later.\<close>

lemma resolve_txs_later:
  assumes "pool c \<subseteq>\<^sub>m pool d"
  shows "resolve_txs c n r = Inr (Inr txs, r') \<Longrightarrow> resolve_txs d n r = Inr (Inr txs, r')"
proof (induction n arbitrary: r txs)
  case (Suc n)
  from Suc.prems obtain h r1 tx txs' where h: "take_hash r = Inr (h, r1)" and tx: "pool c h = Some tx"
    and txs: "txs = tx # txs'" and rest: "resolve_txs c n r1 = Inr (Inr txs', r')"
    by (auto simp: pbind_Inr_iff pool_contains_def get_pool_tx_def pthrow_def case_sum_Inr_iff
        split: if_splits option.splits)
  have "pool d h = Some tx" using assms tx by (auto simp: map_le_def dom_def)
  with h Suc.IH[OF rest] txs show ?case
    by (auto simp: pbind_def pool_contains_def get_pool_tx_def preturn_def)
qed simp

lemma parse_later:
  assumes "pool c \<subseteq>\<^sub>m pool d" "parse_create_block_payload so payload c = Inr (Inr p)"
  shows "parse_create_block_payload so payload d = Inr (Inr p)"
proof -
  from assms(2) obtain r where "take_create_block so c (mk_reader payload) = Inr (Inr p, r)"
    by (auto simp: parse_create_block_payload_def ebind_Inr_iff)
  then have "take_create_block so d (mk_reader payload) = Inr (Inr p, r)"
    unfolding take_create_block_def Let_def
    by (clarsimp simp: pbind_Inr_iff case_sum_Inr_iff) (blast intro: resolve_txs_later[OF assms(1)])
  then show ?thesis by (simp add: parse_create_block_payload_def)
qed

text \<open>What the HTTP threads leave alone.\<close>

definition http_change :: "'db chain \<Rightarrow> 'db chain \<Rightarrow> bool" where
  "http_change c d \<longleftrightarrow> pool c \<subseteq>\<^sub>m pool d \<and> blocks d = blocks c \<and> chain_target d = chain_target c"

lemma http_change_refl: "http_change c c"
  by (simp add: http_change_def)

lemma http_change_api:
  assumes "api_transaction so L request c = (res, d)"
  shows "http_change c d"
proof -
  consider e where "res = Inl e" | response tx where "res = Inr (response, tx)" by (metis sum.exhaust surj_pair)
  then show ?thesis
  proof cases
    case 1
    with assms show ?thesis by (auto dest: api_transaction_throws simp: http_change_def)
  next
    case 2
    with assms api_transaction_state[of so L request c response tx d] http_pool_grows[of so L request c response tx d]
    show ?thesis by (auto simp: http_change_def http_submitted_def accept_tx_def dest!: add_tx_state)
  qed
qed

lemma http_change_trans: "http_change b c \<Longrightarrow> http_change a b \<Longrightarrow> http_change a c"
  by (auto simp: http_change_def intro: map_le_trans)

lemma http_change_upto:
  assumes "\<And>i. http_change (cs i) (cs (Suc i))" and "i \<le> j"
  shows "http_change (cs i) (cs j)"
  using assms(2)
proof (induction j rule: dec_induct)
  case base
  then show ?case by (simp add: http_change_def)
next
  case (step j)
  with assms(1)[of j] show ?case by (auto simp: http_change_def intro: map_le_trans)
qed

text \<open>
  Either the handler is the atomic one on the last chain, or it changes nothing and answers as the atomic
  one on an earlier chain, which changes nothing either.
\<close>

lemma on_create_block_linearizable:
  assumes change: "\<And>i. http_change (cs i) (cs (Suc i))" and times: "2 ^ 33 \<le> t" "t \<le> u" "u \<le> v"
    and r: "on_create_block_interleaved so L payload cs t u v = (r, c')"
  shows "on_create_block so L payload (cs v) = (r, c') \<or>
    (c' = cs v \<and> (\<exists>j \<le> v. on_create_block so L payload (cs j) = (r, cs j)))"
proof -
  have grow: "pool (cs i) \<subseteq>\<^sub>m pool (cs (Suc i))" for i using change[of i] by (simp add: http_change_def)
  obtain j where j: "j \<le> 2 ^ 33"
    "take_create_block_by so (resolve_interleaved cs 0) (mk_reader payload) = take_create_block so (cs j) (mk_reader payload)"
    using parse_interleaved_atomic[of cs so "mk_reader payload", OF grow] by blast
  then have p: "ebind (take_create_block_by so (resolve_interleaved cs 0) (mk_reader payload)) (\<lambda>(p, _). Inr p) =
      parse_create_block_payload so payload (cs j)"
    by (simp add: parse_create_block_payload_def)
  have jv: "j \<le> v" using j(1) times by linarith
  note r = r[unfolded on_create_block_interleaved_def p]
  show ?thesis
  proof (cases "\<exists>q. parse_create_block_payload so payload (cs j) = Inr (Inr q)")
    case True
    then obtain q where q: "parse_create_block_payload so payload (cs j) = Inr (Inr q)" by blast
    have qv: "parse_create_block_payload so payload (cs v) = Inr (Inr q)"
      using http_change_upto[of cs j v, OF change jv] q by (auto simp: http_change_def intro: parse_later)
    have tu: "target (cs t) = target (cs v)" "tip_hash (cs u) = tip_hash (cs v)"
      using http_change_upto[of cs t v, OF change] http_change_upto[of cs u v, OF change] times
      by (simp_all add: http_change_def target_def tip_hash_def)
    have "on_create_block so L payload (cs v) = (r, c')"
      using r unfolding on_create_block_def q qv tu by (simp add: Let_def)
    then show ?thesis ..
  next
    case False
    then have "c' = cs v \<and> on_create_block so L payload (cs j) = (r, cs j)"
      using r unfolding on_create_block_def by (auto simp: Let_def split: sum.splits)
    with jv show ?thesis by blast
  qed
qed

text \<open>On a chain that nobody changes, the calls are those of the atomic handler.\<close>

lemma on_create_block_undisturbed:
  "on_create_block_interleaved so L payload (\<lambda>_. c) t u v = on_create_block so L payload c"
proof -
  have "take_create_block_by so (resolve_interleaved (\<lambda>_. c) 0) (mk_reader payload) =
      take_create_block so c (mk_reader payload)"
    using parse_interleaved_atomic[of "\<lambda>_. c" so "mk_reader payload"] by simp
  then show ?thesis
    by (simp add: on_create_block_interleaved_def on_create_block_def parse_create_block_payload_def)
qed

end
