(* ===== verification/Server_Loop.thy ===== *)
theory Server_Loop
  imports Interleaving "HOL-Library.Multiset"
begin

text \<open>
  The running servers: \<^verbatim>\<open>Server::run\<close>, \<^verbatim>\<open>do_accept\<close> and the coroutines \<^verbatim>\<open>handle_client\<close> of \<^verbatim>\<open>src/net.cpp\<close> on the
  one thread of the TCP server, and the threads of the HTTP server, all on one chain. A coroutine
  runs until it awaits bytes or the end of a write. Of Asio the model uses what it documents: a handler
  is called once per operation, a read completes with exactly the bytes asked for, and an operation may
  fail. Shown: the server always accepts, and it refines the program of theory System.
\<close>

section \<open>State\<close>

text \<open>
  Where a session is: before the size, before the body, in a handler, before the end of a write, ended. A
  socket is the bytes that arrived with the number taken from them, and the bytes written.
\<close>

datatype point = Await_size | Await_body u32 | In_handler | Await_write bytes | Ended

record session =
  se_point :: point
  se_received :: bytes
  se_taken :: nat
  se_written :: bytes

text \<open>
  What the thread of the TCP server is doing between two suspensions: a handler, with the chains it may have
  seen so far, or the callbacks of an accepted request, with the reply that follows.
\<close>

datatype ('client, 'db) task =
    Handling 'client u16 bytes "'db chain list"
  | Publishing 'client "event list" "bytes option"

record ('db, 'conn, 'client) server =
  sv_system :: "('db, 'conn) system"
  sv_accepting :: bool
  sv_sessions :: "'client \<Rightarrow> session option"
  sv_task :: "('client, 'db) task option"
  sv_announcing :: "transaction multiset"
  sv_stopped :: bool

abbreviation sv_chain :: "('db, 'conn, 'client) server \<Rightarrow> 'db chain" where
  "sv_chain s \<equiv> sys_chain (sv_system s)"

abbreviation sv_conns :: "('db, 'conn, 'client) server \<Rightarrow> 'conn set" where
  "sv_conns s \<equiv> sys_conns (sv_system s)"

abbreviation unread_bytes :: "session \<Rightarrow> bytes" where
  "unread_bytes se \<equiv> drop (se_taken se) (se_received se)"

abbreviation set_session ::
    "'client \<Rightarrow> session \<Rightarrow> ('db, 'conn, 'client) server \<Rightarrow> ('db, 'conn, 'client) server" where
  "set_session k se s \<equiv> s\<lparr>sv_sessions := (sv_sessions s)(k \<mapsto> se)\<rparr>"

abbreviation set_chain :: "'db chain \<Rightarrow> ('db, 'conn, 'client) server \<Rightarrow> ('db, 'conn, 'client) server" where
  "set_chain c s \<equiv> s\<lparr>sv_system := (sv_system s)\<lparr>sys_chain := c\<rparr>\<rparr>"


section \<open>The TCP server\<close>

definition Server_init :: "('db, 'conn) system \<Rightarrow> ('db, 'conn, 'client) server" where
  "Server_init sys = \<lparr>sv_system = sys, sv_accepting = False, sv_sessions = Map.empty, sv_task = None,
     sv_announcing = {#}, sv_stopped = False\<rparr>"

text \<open>\<^verbatim>\<open>do_accept\<close> starts one accept operation; \<^verbatim>\<open>accept_handler\<close> is its completion handler, on an error or a client.\<close>

definition do_accept :: "('db, 'conn, 'client) server \<Rightarrow> ('db, 'conn, 'client) server" where
  "do_accept s = s\<lparr>sv_accepting := True\<rparr>"

definition new_session :: session where
  "new_session = \<lparr>se_point = Await_size, se_received = [], se_taken = 0, se_written = []\<rparr>"

definition accept_handler :: "'client option \<Rightarrow> ('db, 'conn, 'client) server \<Rightarrow> ('db, 'conn, 'client) server" where
  "accept_handler client s =
     (let s' = s\<lparr>sv_accepting := False\<rparr>
      in case client of
           None \<Rightarrow> do_accept s'
         | Some k \<Rightarrow> set_session k new_session (do_accept s'))"

definition server_stop :: "('db, 'conn, 'client) server \<Rightarrow> ('db, 'conn, 'client) server" where
  "server_stop s = s\<lparr>sv_stopped := True\<rparr>"

text \<open>\<^verbatim>\<open>ctx_.run()\<close> returns when the context is stopped or has no operation left to wait for.\<close>

definition run_returns :: "('db, 'conn, 'client) server \<Rightarrow> bool" where
  "run_returns s \<longleftrightarrow> sv_stopped s \<or>
     (\<not> sv_accepting s \<and> sv_task s = None \<and> (\<forall>k se. sv_sessions s k = Some se \<longrightarrow> se_point se = Ended))"

text \<open>The coroutine of a session, from one suspension to the next.\<close>

definition after_size :: "session \<Rightarrow> session" where
  "after_size se =
     (let payload_size = (word_of_int (le_int (take 4 (unread_bytes se))) :: u32);
          se' = se\<lparr>se_taken := se_taken se + 4\<rparr>
      in if payload_size < 2 then se'\<lparr>se_point := Ended\<rparr> else se'\<lparr>se_point := Await_body payload_size\<rparr>)"

definition after_body :: "u32 \<Rightarrow> session \<Rightarrow> session \<times> u16 \<times> bytes" where
  "after_body payload_size se =
     (let buf = take (unat payload_size) (unread_bytes se)
      in (se\<lparr>se_taken := se_taken se + unat payload_size, se_point := In_handler\<rparr>,
          word_of_int (le_int (take 2 buf)), drop 2 buf))"

definition after_handler :: "bytes option \<Rightarrow> session \<Rightarrow> session" where
  "after_handler rep se =
     se\<lparr>se_point := (case rep of None \<Rightarrow> Await_size | Some buf \<Rightarrow> Await_write buf)\<rparr>"

definition after_write :: "bytes \<Rightarrow> session \<Rightarrow> session" where
  "after_write buf se = se\<lparr>se_written := se_written se @ buf, se_point := Await_size\<rparr>"

text \<open>
  What a handler may do. It locks the chain for each call; \<open>h\<close> are the chains since it began, ending in the present one
  \<open>c\<close>, and the calls see chains of \<open>h\<close> in their order. For a block, \<open>f\<close> gives each call its chain and the last
  one, \<^verbatim>\<open>add_block\<close> if it comes so far, is on \<open>c\<close>; the handler for the pool asks twice; the others ask once.
\<close>

definition handled ::
    "sodium \<Rightarrow> 'db leveldb \<Rightarrow> u16 \<Rightarrow> bytes \<Rightarrow> 'db chain list \<Rightarrow> 'db chain \<Rightarrow> exn + reaction \<Rightarrow> 'db chain \<Rightarrow> bool" where
  "handled so L ty payload seen c r c' \<longleftrightarrow>
     (let h = seen @ [c]; now = length seen
      in if ty = msg_code CreateBlock
         then \<exists>f t u v re. mono f \<and> (\<forall>i. f i \<le> now) \<and> f v = now \<and> 2 ^ 33 \<le> t \<and> t \<le> u \<and> u \<le> v \<and>
                on_create_block_interleaved so L payload (\<lambda>i. h ! f i) t u v = (re, c') \<and> r = Inr re
         else if ty = msg_code GetPool
         then \<exists>iter i j. i \<le> j \<and> j \<le> now \<and> r = Inr (on_get_pool iter (h ! i) (h ! j)) \<and> c' = c
         else \<exists>iter. handle_msg so L iter ty payload c = (r, c'))"

text \<open>A handler that no submission interrupts is the atomic one.\<close>

lemma handle_msg_handled:
  assumes "handle_msg so L iter ty payload c = (r, c')"
  shows "handled so L ty payload seen c r c'"
proof -
  let ?f = "\<lambda>i :: nat. length seen"
  consider (block) re where "ty = msg_code CreateBlock" "on_create_block so L payload c = (re, c')" "r = Inr re"
    | (pool) "ty = msg_code GetPool" "r = Inr (on_get_pool iter c c)" "c' = c"
    | (other) "ty \<noteq> msg_code CreateBlock" "ty \<noteq> msg_code GetPool"
  proof (cases "ty = msg_code CreateBlock")
    case True
    obtain re d where b: "on_create_block so L payload c = (re, d)" by fastforce
    with True assms have "r = Inr re" "c' = d" by (simp_all add: handle_msg_def)
    with True b show ?thesis by (intro block) simp_all
  next
    case False
    show ?thesis
    proof (cases "ty = msg_code GetPool")
      case True
      with assms have "r = Inr (on_get_pool iter c c)" "c' = c" by (auto simp: handle_msg_def)
      with True show ?thesis by (rule pool)
    qed (rule other[OF False])
  qed
  then show ?thesis
  proof cases
    case block
    then have "on_create_block_interleaved so L payload (\<lambda>i. (seen @ [c]) ! ?f i) (2 ^ 33) (2 ^ 33) (2 ^ 33) = (re, c')"
      by (simp add: on_create_block_undisturbed)
    moreover have "mono ?f" by (simp add: mono_def)
    ultimately show ?thesis
      using block unfolding handled_def Let_def if_P[OF block(1)] by (intro exI[of _ ?f]) blast
  next
    case pool
    then show ?thesis by (auto simp: handled_def Let_def intro!: exI[of _ iter] exI[of _ "length seen"])
  next
    case other
    with assms show ?thesis by (auto simp: handled_def)
  qed
qed

lemma on_create_block_handled:
  "on_create_block so L payload c = (r, c') \<Longrightarrow>
   handled so L (msg_code CreateBlock) payload seen c (Inr r) c'"
  by (rule handle_msg_handled[of so L "\<lambda>_. []"]) (simp add: handle_msg_def)

text \<open>
  Interrupted by submissions, it is the atomic one on the present chain, or it changes nothing and replies as the
  atomic one on an earlier chain; only the handler for the pool may reply from two chains.
\<close>

lemma nth_sorted_le:
  assumes "sorted_wrt R xs" "\<And>x. R x x" "i \<le> j" "j < length xs"
  shows "R (xs ! i) (xs ! j)"
  using assms by (cases "i = j") (auto simp: sorted_wrt_iff_nth_less)

lemma handled_linearizable:
  assumes h: "handled so L ty payload seen c r c'" and seen: "sorted_wrt http_change (seen @ [c])"
  shows "(\<exists>iter. handle_msg so L iter ty payload c = (r, c')) \<or>
    (c' = c \<and> (\<exists>iter. \<exists>d \<in> set seen. handle_msg so L iter ty payload d = (r, d))) \<or>
    (ty = msg_code GetPool \<and> c' = c \<and> (\<exists>iter. \<exists>d \<in> set (seen @ [c]). \<exists>d' \<in> set (seen @ [c]).
       pool d \<subseteq>\<^sub>m pool d' \<and> r = Inr (on_get_pool iter d d')))"
proof -
  let ?h = "seen @ [c]"
  have change: "http_change (?h ! i) (?h ! j)" if "i \<le> j" "j \<le> length seen" for i j
    using nth_sorted_le[OF seen http_change_refl that(1)] that(2) by simp
  have mem: "?h ! i \<in> set ?h" if "i \<le> length seen" for i using that by (intro nth_mem) simp
  consider (block) "ty = msg_code CreateBlock" | (pool) "ty = msg_code GetPool"
    | (other) "ty \<noteq> msg_code CreateBlock" "ty \<noteq> msg_code GetPool" by blast
  then show ?thesis
  proof cases
    case block
    with h obtain f t u v re where f: "mono f" "\<And>i. f i \<le> length seen" "f v = length seen"
      and t: "2 ^ 33 \<le> t" "t \<le> u" "u \<le> v"
      and re: "on_create_block_interleaved so L payload (\<lambda>i. ?h ! f i) t u v = (re, c')" "r = Inr re"
      unfolding handled_def Let_def by auto
    have at: "handle_msg so L (\<lambda>_. []) ty payload d = (Inr re, d')" if "on_create_block so L payload d = (re, d')" for d d'
      using that block by (simp add: handle_msg_def)
    have "http_change (?h ! f i) (?h ! f (Suc i))" for i
      using f(2) monoD[OF f(1), of i "Suc i"] by (intro change) simp_all
    from on_create_block_linearizable[OF this t re(1)] f(3)
    consider "on_create_block so L payload c = (re, c')"
      | j where "c' = c" "on_create_block so L payload (?h ! f j) = (re, ?h ! f j)" by auto
    then show ?thesis
    proof cases
      case 1
      from at[OF this] re(2) show ?thesis by blast
    next
      case (2 j)
      then have "\<exists>d \<in> set ?h. handle_msg so L (\<lambda>_. []) ty payload d = (r, d)"
        using at[OF 2(2)] re(2) mem[OF f(2)] by blast
      with 2(1) show ?thesis by (auto simp del: append_assoc)
    qed
  next
    case pool
    then have "ty \<noteq> msg_code CreateBlock" by simp
    with pool h obtain iter i j where i: "i \<le> j" "j \<le> length seen" and
      r: "r = Inr (on_get_pool iter (?h ! i) (?h ! j))" "c' = c"
      unfolding handled_def Let_def by auto
    have "pool (?h ! i) \<subseteq>\<^sub>m pool (?h ! j)" using change[OF i] by (simp add: http_change_def)
    moreover have "?h ! i \<in> set ?h" "?h ! j \<in> set ?h" using mem i by simp_all
    ultimately show ?thesis using pool r by blast
  next
    case other
    with h show ?thesis by (auto simp: handled_def Let_def)
  qed
qed


section \<open>Steps\<close>

text \<open>
  A step shows what other parts see of it: a message that was handled, with its result and the chains
  before and after, or an announcement with the connections it went to.
\<close>

datatype ('db, 'conn, 'client) label =
    Quiet
  | Handled 'client u16 bytes "exn + reaction" "'db chain" "'db chain"
  | Announced event "'conn set"

text \<open>
  The thread of the TCP server. The handlers of Asio run while no coroutine does. Clients may send at any time,
  connections may fail at any time, in the middle of a write as well.
\<close>

inductive tcp_step ::
    "sodium \<Rightarrow> 'db leveldb \<Rightarrow> ('db, 'conn, 'client) server \<Rightarrow> ('db, 'conn, 'client) label \<Rightarrow>
     ('db, 'conn, 'client) server \<Rightarrow> bool"
  for so :: sodium and L :: "'db leveldb"
where
  accept_error:
    "sv_accepting s \<Longrightarrow> sv_task s = None \<Longrightarrow> tcp_step so L s Quiet (accept_handler None s)"
| accept_client:
    "sv_accepting s \<Longrightarrow> sv_task s = None \<Longrightarrow> sv_sessions s k = None \<Longrightarrow>
     tcp_step so L s Quiet (accept_handler (Some k) s)"
| client_sends:
    "sv_sessions s k = Some se \<Longrightarrow> se_point se \<noteq> Ended \<Longrightarrow>
     tcp_step so L s Quiet (set_session k (se\<lparr>se_received := se_received se @ bs\<rparr>) s)"
| read_fails:
    "sv_task s = None \<Longrightarrow> sv_sessions s k = Some se \<Longrightarrow> se_point se = Await_size \<or> se_point se = Await_body n \<Longrightarrow>
     tcp_step so L s Quiet (set_session k (se\<lparr>se_point := Ended\<rparr>) s)"
| write_fails:
    "sv_task s = None \<Longrightarrow> sv_sessions s k = Some se \<Longrightarrow> se_point se = Await_write buf \<Longrightarrow>
     tcp_step so L s Quiet
       (set_session k (se\<lparr>se_written := se_written se @ take n buf, se_point := Ended\<rparr>) s)"
| size_read:
    "sv_task s = None \<Longrightarrow> sv_sessions s k = Some se \<Longrightarrow> se_point se = Await_size \<Longrightarrow>
     4 \<le> length (unread_bytes se) \<Longrightarrow>
     tcp_step so L s Quiet (set_session k (after_size se) s)"
| body_read:
    "sv_task s = None \<Longrightarrow> sv_sessions s k = Some se \<Longrightarrow> se_point se = Await_body n \<Longrightarrow>
     unat n \<le> length (unread_bytes se) \<Longrightarrow> after_body n se = (se', ty, payload) \<Longrightarrow>
     tcp_step so L s Quiet (set_session k se' s\<lparr>sv_task := Some (Handling k ty payload [])\<rparr>)"
| handler_throws:
    "sv_task s = Some (Handling k ty payload seen) \<Longrightarrow> sv_sessions s k = Some se \<Longrightarrow>
     length (blocks (sv_chain s)) < 2 ^ 32 \<Longrightarrow> handled so L ty payload seen (sv_chain s) (Inl e) c' \<Longrightarrow>
     tcp_step so L s (Handled k ty payload (Inl e) (sv_chain s) c')
       (set_session k (se\<lparr>se_point := Ended\<rparr>) (set_chain c' s)\<lparr>sv_task := None\<rparr>)"
| handler_accepts:
    "sv_task s = Some (Handling k ty payload seen) \<Longrightarrow>
     length (blocks (sv_chain s)) < 2 ^ 32 \<Longrightarrow> handled so L ty payload seen (sv_chain s) (Inr re) c' \<Longrightarrow>
     tcp_step so L s (Handled k ty payload (Inr re) (sv_chain s) c')
       (set_chain c' s\<lparr>sv_task := Some (Publishing k (events re) (reply re))\<rparr>)"
| publishes:
    "sv_task s = Some (Publishing k (e # es) rep) \<Longrightarrow>
     tcp_step so L s (Announced e (sv_conns s)) (s\<lparr>sv_task := Some (Publishing k es rep)\<rparr>)"
| handler_done:
    "sv_task s = Some (Publishing k [] rep) \<Longrightarrow> sv_sessions s k = Some se \<Longrightarrow>
     tcp_step so L s Quiet (set_session k (after_handler rep se) s\<lparr>sv_task := None\<rparr>)"
| reply_written:
    "sv_task s = None \<Longrightarrow> sv_sessions s k = Some se \<Longrightarrow> se_point se = Await_write buf \<Longrightarrow>
     tcp_step so L s Quiet (set_session k (after_write buf se) s)"

text \<open>
  The threads of the HTTP server. A submission takes the lock of the chain, and the announcement follows later.
  A handler of the TCP server that is under way has then seen the chain before it.
\<close>

primrec see :: "'db chain \<Rightarrow> ('client, 'db) task \<Rightarrow> ('client, 'db) task" where
  "see c (Handling k ty payload seen) = Handling k ty payload (seen @ [c])"
| "see c (Publishing k es rep) = Publishing k es rep"

definition http_submit_effect ::
    "transaction option \<Rightarrow> 'db chain \<Rightarrow> ('db, 'conn, 'client) server \<Rightarrow> ('db, 'conn, 'client) server" where
  "http_submit_effect tx c' s =
     set_chain c' s\<lparr>sv_task := map_option (see (sv_chain s)) (sv_task s),
       sv_announcing := sv_announcing s + (case tx of None \<Rightarrow> {#} | Some t \<Rightarrow> {#t#})\<rparr>"

inductive web_step ::
    "sodium \<Rightarrow> 'db leveldb \<Rightarrow> ('db, 'conn, 'client) server \<Rightarrow> ('db, 'conn, 'client) label \<Rightarrow>
     ('db, 'conn, 'client) server \<Rightarrow> bool"
  for so :: sodium and L :: "'db leveldb"
where
  http_submits:
    "api_transaction so L request (sv_chain s) = (Inr (response, tx), c') \<Longrightarrow>
     web_step so L s Quiet (http_submit_effect tx c' s)"
| http_announces:
    "tx \<in># sv_announcing s \<Longrightarrow>
     web_step so L s (Announced (On_tx_accepted tx) (sv_conns s))
       (s\<lparr>sv_announcing := sv_announcing s - {#tx#}\<rparr>)"
| websocket_opens:
    "ws_open conn (sv_conns s) = (conns, sent) \<Longrightarrow>
     web_step so L s Quiet (s\<lparr>sv_system := (sv_system s)\<lparr>sys_conns := conns\<rparr>\<rparr>)"
| websocket_closes:
    "web_step so L s Quiet (s\<lparr>sv_system := (sv_system s)\<lparr>sys_conns := ws_close conn (sv_conns s)\<rparr>\<rparr>)"

text \<open>What both servers do, from the first \<^verbatim>\<open>do_accept\<close> on, with the visible steps in order.\<close>

inductive runs ::
    "sodium \<Rightarrow> 'db leveldb \<Rightarrow> ('db, 'conn) system \<Rightarrow> ('db, 'conn, 'client) label list \<Rightarrow>
     ('db, 'conn, 'client) server \<Rightarrow> bool"
  for so :: sodium and L :: "'db leveldb" and sys :: "('db, 'conn) system"
where
  run_starts: "runs so L sys [] (do_accept (Server_init sys))"
| run_tcp: "runs so L sys tr s \<Longrightarrow> \<not> sv_stopped s \<Longrightarrow> tcp_step so L s l s' \<Longrightarrow> runs so L sys (tr @ [l]) s'"
| run_web: "runs so L sys tr s \<Longrightarrow> web_step so L s l s' \<Longrightarrow> runs so L sys (tr @ [l]) s'"
| run_stops: "runs so L sys tr s \<Longrightarrow> sv_task s = None \<Longrightarrow> runs so L sys tr (server_stop s)"

inductive_cases tcp_stepE: "tcp_step so L s l s'"
inductive_cases web_stepE: "web_step so L s l s'"


text \<open>Steps of the thread of the TCP server alone.\<close>

inductive tcp_steps ::
    "sodium \<Rightarrow> 'db leveldb \<Rightarrow> ('db, 'conn, 'client) server \<Rightarrow> ('db, 'conn, 'client) label list \<Rightarrow>
     ('db, 'conn, 'client) server \<Rightarrow> bool"
  for so :: sodium and L :: "'db leveldb" and s :: "('db, 'conn, 'client) server"
where
  tcp_none: "tcp_steps so L s [] s"
| tcp_more: "tcp_steps so L s tr s' \<Longrightarrow> tcp_step so L s' l s'' \<Longrightarrow> tcp_steps so L s (tr @ [l]) s''"

lemma tcp_one: "tcp_step so L s l s' \<Longrightarrow> tcp_steps so L s [l] s'"
  using tcp_more[OF tcp_none] by fastforce

lemma tcp_steps_trans: "tcp_steps so L s' tr' s'' \<Longrightarrow> tcp_steps so L s tr s' \<Longrightarrow> tcp_steps so L s (tr @ tr') s''"
  by (induction rule: tcp_steps.induct) (auto intro: tcp_more simp flip: append_assoc)


section \<open>Invariants of a run\<close>

text \<open>What a property of runs has to be kept by: the steps of each thread, and the stop.\<close>

locale run_invariant =
  fixes so :: sodium and L :: "'db leveldb" and sys :: "('db, 'conn) system"
    and P :: "('db, 'conn, 'client) label list \<Rightarrow> ('db, 'conn, 'client) server \<Rightarrow> bool"
  assumes at_start: "P [] (do_accept (Server_init sys))"
    and by_tcp: "runs so L sys tr s \<Longrightarrow> tcp_step so L s l s' \<Longrightarrow> P tr s \<Longrightarrow> P (tr @ [l]) s'"
    and by_web: "runs so L sys tr s \<Longrightarrow> web_step so L s l s' \<Longrightarrow> P tr s \<Longrightarrow> P (tr @ [l]) s'"
    and by_stop: "P tr s \<Longrightarrow> P tr (server_stop s)"
begin

lemma holds: "runs so L sys tr s \<Longrightarrow> P tr s"
  by (induction rule: runs.induct) (auto intro: at_start by_tcp by_web by_stop)

end


section \<open>The chain and the accept operation\<close>

lemmas server_defs = do_accept_def accept_handler_def Server_init_def server_stop_def http_submit_effect_def
  after_size_def after_body_def after_handler_def after_write_def new_session_def Let_def

lemma tcp_step_stopped: "tcp_step so L s l s' \<Longrightarrow> sv_stopped s' = sv_stopped s"
  by (cases rule: tcp_step.cases) (auto simp: server_defs split: option.splits)

lemma web_step_stopped: "web_step so L s l s' \<Longrightarrow> sv_stopped s' = sv_stopped s"
  by (cases rule: web_step.cases) (auto simp: server_defs)

lemma tcp_steps_stopped: "tcp_steps so L s tr s' \<Longrightarrow> sv_stopped s' = sv_stopped s"
  by (induction rule: tcp_steps.induct) (auto dest: tcp_step_stopped)

lemma runs_tcp_steps:
  "tcp_steps so L s tr' s' \<Longrightarrow> runs so L sys tr s \<Longrightarrow> \<not> sv_stopped s \<Longrightarrow> runs so L sys (tr @ tr') s'"
  by (induction rule: tcp_steps.induct)
    (auto intro: run_tcp simp: tcp_steps_stopped simp flip: append_assoc)

text \<open>
  A payload comes from a frame, and between the chains a handler has seen there were only submissions.
\<close>

definition task_ok :: "('db, 'conn, 'client) server \<Rightarrow> bool" where
  "task_ok s \<longleftrightarrow> (\<forall>k ty payload seen. sv_task s = Some (Handling k ty payload seen) \<longrightarrow>
     length payload + 2 < 2 ^ 32 \<and> sorted_wrt http_change (seen @ [sv_chain s]))"

lemma tcp_step_task_ok:
  assumes "tcp_step so L s l s'" "task_ok s"
  shows "task_ok s'"
  using assms(1)
proof cases
  case (body_read k se n se' ty payload)
  have "unat n < 2 ^ 32" using unsigned_less[of n] by simp
  then have "length payload + 2 < 2 ^ 32"
    using body_read(6,7) by (auto simp: after_body_def Let_def)
  with body_read show ?thesis by (auto simp: task_ok_def)
qed (use assms(2) in \<open>auto simp: task_ok_def server_defs split: option.splits\<close>)

lemma sorted_http_change_snoc:
  "sorted_wrt http_change (cs @ [c]) \<Longrightarrow> http_change c d \<Longrightarrow> sorted_wrt http_change ((cs @ [c]) @ [d])"
  by (auto simp: sorted_wrt_append intro: http_change_trans)

lemma web_step_task_ok:
  assumes "web_step so L s l s'" "task_ok s"
  shows "task_ok s'"
  using assms(1)
proof cases
  case (http_submits request response tx c')
  show ?thesis
  proof (cases "\<exists>k ty payload seen. sv_task s = Some (Handling k ty payload seen)")
    case True
    then obtain k ty payload seen where t: "sv_task s = Some (Handling k ty payload seen)" by blast
    with assms(2) have "length payload + 2 < 2 ^ 32" "sorted_wrt http_change (seen @ [sv_chain s])"
      by (auto simp: task_ok_def)
    with sorted_http_change_snoc[OF this(2) http_change_api[OF http_submits(3)]] t http_submits(2)
    show ?thesis by (simp add: task_ok_def http_submit_effect_def)
  next
    case False
    with http_submits(2) show ?thesis
      by (cases "sv_task s"; cases "the (sv_task s)") (auto simp: task_ok_def http_submit_effect_def)
  qed
qed (use assms(2) in \<open>auto simp: task_ok_def\<close>)

interpretation task: run_invariant so L sys "\<lambda>tr. task_ok" for so L sys
proof unfold_locales
  show "task_ok (do_accept (Server_init sys))" by (simp add: task_ok_def server_defs)
  show "task_ok (server_stop s)" if "task_ok s" for s
    using that by (simp add: task_ok_def server_stop_def)
qed (blast intro: tcp_step_task_ok web_step_task_ok)+

lemma tcp_step_accepting:
  assumes "tcp_step so L s l s'" "sv_accepting s"
  shows "sv_accepting s'"
  using assms by cases (auto simp: server_defs split: option.splits)

lemma web_step_accepting:
  assumes "web_step so L s l s'" "sv_accepting s"
  shows "sv_accepting s'"
  using assms by cases (auto simp: server_defs)

interpretation accepting: run_invariant so L sys "\<lambda>tr. sv_accepting" for so L sys
proof unfold_locales
  show "sv_accepting (do_accept (Server_init sys))" by (simp add: server_defs)
  show "sv_accepting (server_stop s)" if "sv_accepting s" for s using that by (simp add: server_stop_def)
qed (blast intro: tcp_step_accepting web_step_accepting)+

section \<open>Refinement\<close>

text \<open>
  A handled message in terms of whole messages: what it replied and did is what the atomic handler does in a state
  that theory System reaches, be it the present one, or an earlier one where it changes nothing.
\<close>

definition handled_atomically ::
    "sodium \<Rightarrow> 'db leveldb \<Rightarrow> 'conn itself \<Rightarrow> u16 \<Rightarrow> bytes \<Rightarrow> exn + reaction \<Rightarrow> 'db chain \<Rightarrow> 'db chain \<Rightarrow> bool" where
  "handled_atomically so L conn ty payload r c c' \<longleftrightarrow>
     (\<exists>(s :: ('db, 'conn) system) iter d. reachable so L s \<and> handle_msg so L iter ty payload (sys_chain s) = (r, d) \<and>
        (sys_chain s = c \<and> d = c' \<or> d = sys_chain s \<and> c' = c)) \<or>
     (ty = msg_code GetPool \<and> c' = c \<and>
       (\<exists>(s :: ('db, 'conn) system) (s' :: ('db, 'conn) system) iter. reachable so L s \<and> reachable so L s' \<and>
         pool (sys_chain s) \<subseteq>\<^sub>m pool (sys_chain s') \<and> r = Inr (on_get_pool iter (sys_chain s) (sys_chain s'))))"

text \<open>What a run keeps: the present chain and those a handler has seen are reached, and all messages were handled so.\<close>

definition refines ::
    "sodium \<Rightarrow> 'db leveldb \<Rightarrow> ('db, 'conn, 'client) label list \<Rightarrow> ('db, 'conn, 'client) server \<Rightarrow> bool" where
  "refines so L tr s \<longleftrightarrow> reachable so L (sv_system s) \<and>
     (\<forall>k ty payload seen. sv_task s = Some (Handling k ty payload seen) \<longrightarrow>
        (\<forall>d \<in> set seen. \<exists>sys :: ('db, 'conn) system. reachable so L sys \<and> sys_chain sys = d)) \<and>
     (\<forall>k ty payload r c c'. Handled k ty payload r c c' \<in> set tr \<longrightarrow>
        handled_atomically so L TYPE('conn) ty payload r c c')"

lemma handled_refines:
  fixes s :: "('db, 'conn, 'client) server"
  assumes h: "handled so L ty payload seen (sv_chain s) r c'" and task: "sv_task s = Some (Handling k ty payload seen)"
    and ok: "task_ok s" and len: "length (blocks (sv_chain s)) < 2 ^ 32" and ref: "refines so L tr s"
  shows "reachable so L ((sv_system s)\<lparr>sys_chain := c'\<rparr>) \<and>
    handled_atomically so L TYPE('conn) ty payload r (sv_chain s) c'"
proof -
  have pl: "length payload + 2 < 2 ^ 32" and seen: "sorted_wrt http_change (seen @ [sv_chain s])"
    using ok task by (auto simp: task_ok_def)
  have now: "reachable so L (sv_system s)" using ref by (simp add: refines_def)
  have past: "\<exists>sys :: ('db, 'conn) system. reachable so L sys \<and> sys_chain sys = d" if "d \<in> set (seen @ [sv_chain s])" for d
    using that ref task now by (auto simp: refines_def)
  have same: "(sv_system s)\<lparr>sys_chain := sv_chain s\<rparr> = sv_system s" by simp
  from handled_linearizable[OF h seen] show ?thesis
  proof (elim disjE conjE exE bexE)
    fix iter assume m: "handle_msg so L iter ty payload (sv_chain s) = (r, c')"
    from reachable.step[OF now tcp_message[OF pl len m]] now m show ?thesis
      unfolding handled_atomically_def by blast
  next
    fix iter d assume "c' = sv_chain s" "d \<in> set seen" "handle_msg so L iter ty payload d = (r, d)"
    then obtain sys :: "('db, 'conn) system" where "reachable so L sys" "sys_chain sys = d" "c' = sv_chain s"
      "handle_msg so L iter ty payload d = (r, d)" using past[of d] by auto
    then have "reachable so L sys \<and> handle_msg so L iter ty payload (sys_chain sys) = (r, d) \<and>
        (sys_chain sys = sv_chain s \<and> d = c' \<or> d = sys_chain sys \<and> c' = sv_chain s)" by simp
    then have "handled_atomically so L TYPE('conn) ty payload r (sv_chain s) c'"
      unfolding handled_atomically_def by blast
    with now \<open>c' = sv_chain s\<close> show ?thesis by simp
  next
    fix iter d d' assume "ty = msg_code GetPool" "c' = sv_chain s" "d \<in> set (seen @ [sv_chain s])"
      "d' \<in> set (seen @ [sv_chain s])" "pool d \<subseteq>\<^sub>m pool d'" "r = Inr (on_get_pool iter d d')"
    moreover from this obtain sys1 sys2 :: "('db, 'conn) system" where "reachable so L sys1" "sys_chain sys1 = d"
      "reachable so L sys2" "sys_chain sys2 = d'" using past by meson
    ultimately have "ty = msg_code GetPool \<and> c' = sv_chain s \<and> reachable so L sys1 \<and> reachable so L sys2 \<and>
        pool (sys_chain sys1) \<subseteq>\<^sub>m pool (sys_chain sys2) \<and> r = Inr (on_get_pool iter (sys_chain sys1) (sys_chain sys2))"
      by simp
    then have "handled_atomically so L TYPE('conn) ty payload r (sv_chain s) c'"
      unfolding handled_atomically_def by blast
    with now \<open>c' = sv_chain s\<close> show ?thesis by simp
  qed
qed

lemma tcp_step_refines:
  assumes "tcp_step so L s l s'" "task_ok s" "refines so L tr s"
  shows "refines so L (tr @ [l]) s'"
  using assms(1)
proof cases
  case (handler_throws k ty payload seen se e c')
  from handled_refines[OF handler_throws(6,3) assms(2) handler_throws(5) assms(3)] assms(3)
  show ?thesis by (auto simp: refines_def handler_throws(1,2))
next
  case (handler_accepts k ty payload seen re c')
  from handled_refines[OF handler_accepts(5,3) assms(2) handler_accepts(4) assms(3)] assms(3)
  show ?thesis by (auto simp: refines_def handler_accepts(1,2))
qed (use assms(3) in \<open>auto simp: refines_def server_defs split: option.splits\<close>)

lemma web_step_refines:
  assumes "web_step so L s l s'" "refines so L tr s"
  shows "refines so L (tr @ [l]) s'"
  using assms(1)
proof cases
  case (http_submits request response tx c')
  have now: "reachable so L (sv_system s)" using assms(2) by (simp add: refines_def)
  from reachable.step[OF now http_submit[OF http_submits(3)]] assms(2) now http_submits(1,2)
  show ?thesis by (cases "sv_task s"; cases "the (sv_task s)") (auto simp: refines_def http_submit_effect_def)
next
  case (websocket_opens conn conns sent)
  have now: "reachable so L (sv_system s)" using assms(2) by (simp add: refines_def)
  from reachable.step[OF now websocket_open[OF websocket_opens(3)]] assms(2) websocket_opens(1,2) show ?thesis
    by (auto simp: refines_def)
next
  case (websocket_closes conn)
  have now: "reachable so L (sv_system s)" using assms(2) by (simp add: refines_def)
  from reachable.step[OF now websocket_close] assms(2) websocket_closes(1,2) show ?thesis
    by (auto simp: refines_def)
qed (use assms(2) in \<open>auto simp: refines_def\<close>)

text \<open>The servers refine the program of theory System, whose steps handle whole messages.\<close>

interpretation run_chain: run_invariant so L sys "\<lambda>tr s. reachable so L sys \<longrightarrow> refines so L tr s"
  for so L sys
proof unfold_locales
  show "reachable so L sys \<longrightarrow> refines so L [] (do_accept (Server_init sys))"
    by (simp add: refines_def server_defs)
  show "reachable so L sys \<longrightarrow> refines so L tr (server_stop s)"
    if "reachable so L sys \<longrightarrow> refines so L tr s" for tr s
    using that by (simp add: refines_def server_stop_def)
qed (auto intro: tcp_step_refines[OF _ task.holds] web_step_refines)

end
