(* ===== verification/Sessions.thy ===== *)
theory Sessions
  imports Server_Loop
begin

text \<open>
  The clients of the running server: however their bytes arrive and however the sessions interleave, the bytes
  taken from a client are the frames of its messages in order, and the bytes written to it are the replies to
  them in order.
\<close>

section \<open>What a session has read and written\<close>

text \<open>The messages of a client that were handled, with their results, and what they say.\<close>

definition messages_of :: "'client \<Rightarrow> ('db, 'conn, 'client) label list \<Rightarrow> (u16 \<times> bytes \<times> (exn + reaction)) list" where
  "messages_of k tr =
     concat (map (\<lambda>l. case l of Handled k' ty payload r c c' \<Rightarrow> if k' = k then [(ty, payload, r)] else [] | _ \<Rightarrow> []) tr)"

abbreviation frames :: "(u16 \<times> bytes \<times> (exn + reaction)) list \<Rightarrow> bytes" where
  "frames ms \<equiv> concat (map (\<lambda>(ty, payload, r). encode_frame ty payload) ms)"

definition reply_bytes :: "exn + reaction \<Rightarrow> bytes" where
  "reply_bytes r = (case r of Inl e \<Rightarrow> [] | Inr re \<Rightarrow> (case reply re of None \<Rightarrow> [] | Some buf \<Rightarrow> buf))"

abbreviation replies_of :: "(u16 \<times> bytes \<times> (exn + reaction)) list \<Rightarrow> bytes" where
  "replies_of ms \<equiv> concat (map (\<lambda>(ty, payload, r). reply_bytes r) ms)"

lemma messages_of_simps [simp]:
  "messages_of k [] = []"
  "messages_of k (tr @ [Quiet]) = messages_of k tr"
  "messages_of k (tr @ [Announced e conns]) = messages_of k tr"
  "messages_of k (tr @ [Handled k' ty payload r c c']) =
     messages_of k tr @ (if k' = k then [(ty, payload, r)] else [])"
  by (simp_all add: messages_of_def)

text \<open>
  What is read of the messages not yet handled, and what is still to be written, at each point of a session; the
  session at a point \<open>In_handler\<close> is the one the task is about.
\<close>

definition begun :: "('client, 'db) task option \<Rightarrow> point \<Rightarrow> bytes" where
  "begun task p = (case p of
       Await_body n \<Rightarrow> put_u32 n []
     | In_handler \<Rightarrow> (case task of Some (Handling k ty payload seen) \<Rightarrow> encode_frame ty payload | _ \<Rightarrow> [])
     | _ \<Rightarrow> [])"

definition due :: "('client, 'db) task option \<Rightarrow> point \<Rightarrow> bytes" where
  "due task p = (case p of
       Await_write buf \<Rightarrow> buf
     | In_handler \<Rightarrow> (case task of Some (Publishing k es rep) \<Rightarrow> (case rep of None \<Rightarrow> [] | Some buf \<Rightarrow> buf) | _ \<Rightarrow> [])
     | _ \<Rightarrow> [])"

fun task_client :: "('client, 'db) task \<Rightarrow> 'client" where
  "task_client (Handling k ty payload seen) = k"
| "task_client (Publishing k es rep) = k"

definition stream_ok ::
    "('client, 'db) task option \<Rightarrow> (u16 \<times> bytes \<times> (exn + reaction)) list \<Rightarrow> session \<Rightarrow> bool" where
  "stream_ok task ms se \<longleftrightarrow>
     se_taken se \<le> length (se_received se) \<and>
     (if se_point se = Ended
      then (\<exists>rest. take (se_taken se) (se_received se) = frames ms @ rest) \<and>
           (\<exists>rest. replies_of ms = se_written se @ rest)
      else take (se_taken se) (se_received se) = frames ms @ begun task (se_point se) \<and>
           replies_of ms = se_written se @ due task (se_point se) \<and>
           (\<forall>n. se_point se = Await_body n \<longrightarrow> 2 \<le> unat n))"

definition sessions_ok :: "('db, 'conn, 'client) label list \<Rightarrow> ('db, 'conn, 'client) server \<Rightarrow> bool" where
  "sessions_ok tr s \<longleftrightarrow>
     (\<forall>k. sv_sessions s k = None \<longrightarrow> messages_of k tr = []) \<and>
     (\<forall>k se. sv_sessions s k = Some se \<longrightarrow> stream_ok (sv_task s) (messages_of k tr) se \<and>
        (se_point se = In_handler \<longleftrightarrow> (\<exists>task. sv_task s = Some task \<and> task_client task = k))) \<and>
     (\<forall>task. sv_task s = Some task \<longrightarrow> sv_sessions s (task_client task) \<noteq> None)"

lemma encode_frame_buf:
  assumes "length buf = unat (n :: u32)" "2 \<le> unat n"
  shows "encode_frame (word_of_int (le_int (take 2 buf))) (drop 2 buf) = put_u32 n [] @ buf"
proof -
  have "le_bytes (length (take 2 buf)) (uint (word_of_int (le_int (take 2 buf)) :: u16)) = take 2 buf"
    using assms by (intro le_bytes_word_roundtrip) simp
  moreover have "length (take 2 buf) = 2" using assms by simp
  moreover have "(word_of_nat (2 + length (drop 2 buf)) :: u32) = n" using assms by simp
  ultimately show ?thesis
    by (simp add: encode_frame_def put_span_def put_u16_def put_u32_def put_bytes_def del: of_nat_add)
qed


lemma stream_ok_task: "se_point se \<noteq> In_handler \<Longrightarrow> stream_ok task ms se \<longleftrightarrow> stream_ok task' ms se"
  by (auto simp: stream_ok_def begun_def due_def split: point.splits)

lemma after_size_point: "se_point (after_size se) \<noteq> In_handler"
  by (simp add: after_size_def Let_def)

lemma stream_new: "stream_ok task [] new_session"
  by (simp add: stream_ok_def new_session_def begun_def due_def)

lemma stream_receive: "stream_ok task ms se \<Longrightarrow> stream_ok task ms (se\<lparr>se_received := se_received se @ bs\<rparr>)"
  by (auto simp: stream_ok_def)

lemma stream_end:
  "stream_ok task ms se \<Longrightarrow> se_point se \<noteq> Ended \<Longrightarrow> due task (se_point se) = buf \<Longrightarrow>
   stream_ok task' ms (se\<lparr>se_written := se_written se @ take n buf, se_point := Ended\<rparr>)"
  by (auto simp: stream_ok_def intro: exI[of _ "drop n buf"])

lemma stream_size:
  assumes "stream_ok task ms se" "se_point se = Await_size" "4 \<le> length (unread_bytes se)"
  shows "stream_ok task' ms (after_size se)"
proof -
  let ?b = "take 4 (unread_bytes se)" and ?n = "word_of_int (le_int (take 4 (unread_bytes se))) :: u32"
  have "le_bytes (length ?b) (uint ?n) = ?b" using assms(3) by (intro le_bytes_word_roundtrip) simp
  moreover have "length ?b = 4" using assms(3) by simp
  ultimately have "put_u32 ?n [] = ?b" by (simp add: put_u32_def put_bytes_def)
  moreover have "2 \<le> unat ?n" if "\<not> ?n < 2" using that by (simp add: word_less_nat_alt)
  ultimately show ?thesis
    using assms by (auto simp: stream_ok_def after_size_def Let_def begun_def due_def take_add)
qed

lemma stream_body:
  assumes "stream_ok task ms se" "se_point se = Await_body n" "unat n \<le> length (unread_bytes se)"
    and b: "after_body n se = (se', ty, payload)"
  shows "stream_ok (Some (Handling k ty payload seen)) ms se' \<and> se_point se' = In_handler"
proof -
  let ?buf = "take (unat n) (unread_bytes se)"
  have "encode_frame (word_of_int (le_int (take 2 ?buf))) (drop 2 ?buf) = put_u32 n [] @ ?buf"
    using assms(1-3) by (intro encode_frame_buf) (simp_all add: stream_ok_def)
  with assms show ?thesis
    by (auto simp: stream_ok_def after_body_def Let_def begun_def due_def take_add)
qed

lemma stream_throw:
  "stream_ok (Some (Handling k ty payload seen)) ms se \<Longrightarrow> se_point se = In_handler \<Longrightarrow>
   stream_ok task' (ms @ [(ty, payload, Inl e)]) (se\<lparr>se_point := Ended\<rparr>)"
  by (auto simp: stream_ok_def begun_def due_def reply_bytes_def)

lemma stream_accept:
  "stream_ok (Some (Handling k ty payload seen)) ms se \<Longrightarrow> se_point se = In_handler \<Longrightarrow>
   stream_ok (Some (Publishing k es (reply re))) (ms @ [(ty, payload, Inr re)]) se"
  by (auto simp: stream_ok_def begun_def due_def reply_bytes_def split: option.splits)

lemma stream_publish:
  "stream_ok (Some (Publishing k es rep)) ms se \<longleftrightarrow> stream_ok (Some (Publishing k es' rep)) ms se"
  by (simp add: stream_ok_def begun_def due_def cong: point.case_cong)

lemma stream_see: "stream_ok (map_option (see c) task) ms se \<longleftrightarrow> stream_ok task ms se"
  by (cases task; cases "the task") (auto simp: stream_ok_def begun_def due_def split: point.splits)

lemma stream_done:
  "stream_ok (Some (Publishing k [] rep)) ms se \<Longrightarrow> se_point se = In_handler \<Longrightarrow>
   stream_ok task' ms (after_handler rep se)"
  by (auto simp: stream_ok_def after_handler_def begun_def due_def split: option.splits)

lemma stream_written:
  "stream_ok task ms se \<Longrightarrow> se_point se = Await_write buf \<Longrightarrow> stream_ok task' ms (after_write buf se)"
  by (auto simp: stream_ok_def after_write_def begun_def due_def)

text \<open>One session changes.\<close>

lemma sessions_ok_update:
  assumes ok: "sessions_ok tr s"
    and s': "sv_sessions s' = (sv_sessions s)(k \<mapsto> se')"
    and others: "\<And>k'. k' \<noteq> k \<Longrightarrow> messages_of k' tr' = messages_of k' tr"
    and se': "stream_ok (sv_task s') (messages_of k tr') se'"
      "se_point se' = In_handler \<longleftrightarrow> (\<exists>task. sv_task s' = Some task \<and> task_client task = k)"
    and task: "sv_task s' = sv_task s \<or>
      (\<forall>task. sv_task s = Some task \<or> sv_task s' = Some task \<longrightarrow> task_client task = k)"
  shows "sessions_ok tr' s'"
  unfolding sessions_ok_def
proof (intro conjI allI impI)
  fix k' se2 assume k': "sv_sessions s' k' = Some se2"
  have "stream_ok (sv_task s') (messages_of k' tr') se2 \<and>
      (se_point se2 = In_handler \<longleftrightarrow> (\<exists>task. sv_task s' = Some task \<and> task_client task = k'))"
  proof (cases "k' = k")
    case True
    with k' s' se' show ?thesis by simp
  next
    case False
    with k' s' ok others have o: "stream_ok (sv_task s) (messages_of k' tr') se2"
      "se_point se2 = In_handler \<longleftrightarrow> (\<exists>task. sv_task s = Some task \<and> task_client task = k')"
      by (auto simp: sessions_ok_def)
    show ?thesis
    proof (cases "sv_task s' = sv_task s")
      case False
      with task o(2) \<open>k' \<noteq> k\<close> have "se_point se2 \<noteq> In_handler" by blast
      with o(1) stream_ok_task task False \<open>k' \<noteq> k\<close> show ?thesis by metis
    qed (use o in simp)
  qed
  then show "stream_ok (sv_task s') (messages_of k' tr') se2"
    and "se_point se2 = In_handler \<longleftrightarrow> (\<exists>task. sv_task s' = Some task \<and> task_client task = k')" by simp_all
next
  fix k' assume "sv_sessions s' k' = None"
  with s' have "k' \<noteq> k" "sv_sessions s k' = None" by (auto split: if_splits)
  with ok others show "messages_of k' tr' = []" by (simp add: sessions_ok_def)
next
  fix t assume "sv_task s' = Some t"
  with task ok s' show "sv_sessions s' (task_client t) \<noteq> None"
    by (auto simp: sessions_ok_def split: if_splits)
qed


lemma sessions_okD:
  assumes "sessions_ok tr s" "sv_sessions s k = Some se"
  shows "stream_ok (sv_task s) (messages_of k tr) se"
    "se_point se = In_handler \<longleftrightarrow> (\<exists>task. sv_task s = Some task \<and> task_client task = k)"
  using assms by (auto simp: sessions_ok_def)

lemma tcp_step_sessions_ok:
  assumes st: "tcp_step so L s l s'" and ok: "sessions_ok tr s"
  shows "sessions_ok (tr @ [l]) s'"
  using st
proof cases
  case accept_error
  then show ?thesis using ok by (simp add: sessions_ok_def server_defs)
next
  case (accept_client k)
  then have "messages_of k tr = []" using ok by (simp add: sessions_ok_def)
  with accept_client show ?thesis
    by (intro sessions_ok_update[OF ok, of _ k new_session])
      (simp_all add: accept_handler_def do_accept_def stream_new, simp add: new_session_def)
next
  case (client_sends k se bs)
  note o = sessions_okD[OF ok client_sends(3)]
  from client_sends o stream_receive[OF o(1)] show ?thesis
    by (intro sessions_ok_update[OF ok, of _ k "se\<lparr>se_received := se_received se @ bs\<rparr>"]) simp_all
next
  case (read_fails k se n)
  note o = sessions_okD[OF ok read_fails(4)]
  have "stream_ok None (messages_of k tr) (se\<lparr>se_point := Ended\<rparr>)"
    using stream_end[OF o(1) _ refl, of None 0] read_fails(5) by auto
  with read_fails show ?thesis by (intro sessions_ok_update[OF ok, of _ k "se\<lparr>se_point := Ended\<rparr>"]) simp_all
next
  case (write_fails k se buf n)
  note o = sessions_okD[OF ok write_fails(4)]
  have "stream_ok None (messages_of k tr) (se\<lparr>se_written := se_written se @ take n buf, se_point := Ended\<rparr>)"
    using write_fails(5) by (intro stream_end[OF o(1)]) (simp_all add: due_def)
  with write_fails show ?thesis by (intro sessions_ok_update[OF ok, of _ k "se\<lparr>se_written := se_written se @ take n buf, se_point := Ended\<rparr>"]) simp_all
next
  case (size_read k se)
  note o = sessions_okD[OF ok size_read(4)]
  from size_read stream_size[OF o(1) size_read(5,6)] show ?thesis
    by (intro sessions_ok_update[OF ok, of _ k "after_size se"]) (simp_all add: after_size_point)
next
  case (body_read k se n se' ty payload)
  note o = sessions_okD[OF ok body_read(4)]
  from body_read stream_body[OF o(1) body_read(5-7), of k "[]"] show ?thesis
    by (intro sessions_ok_update[OF ok, of _ k "se'"]) auto
next
  case (handler_throws k ty payload seen se e c')
  note o = sessions_okD[OF ok handler_throws(4)]
  from handler_throws stream_throw[OF o(1)[unfolded handler_throws(3)]] o(2) show ?thesis
    by (intro sessions_ok_update[OF ok, of _ k "se\<lparr>se_point := Ended\<rparr>"]) simp_all
next
  case (handler_accepts k ty payload seen re c')
  then obtain se where se: "sv_sessions s k = Some se" using ok by (fastforce simp: sessions_ok_def)
  note o = sessions_okD[OF ok se]
  from handler_accepts se stream_accept[OF o(1)[unfolded handler_accepts(3)]] o(2) show ?thesis
    by (intro sessions_ok_update[OF ok, of _ k se]) (auto simp: fun_upd_idem)
next
  case (publishes k e es rep)
  then obtain se where se: "sv_sessions s k = Some se" using ok by (fastforce simp: sessions_ok_def)
  note o = sessions_okD[OF ok se]
  from publishes se o stream_publish[THEN iffD1] show ?thesis
    by (intro sessions_ok_update[OF ok, of _ k se]) (auto simp: fun_upd_idem)
next
  case (handler_done k rep se)
  note o = sessions_okD[OF ok handler_done(4)]
  from handler_done stream_done[OF o(1)[unfolded handler_done(3)]] o(2) show ?thesis
    by (intro sessions_ok_update[OF ok, of _ k "after_handler rep se"])
      (simp_all add: after_handler_def split: option.splits)
next
  case (reply_written k se buf)
  note o = sessions_okD[OF ok reply_written(4)]
  from reply_written stream_written[OF o(1) reply_written(5)] show ?thesis
    by (intro sessions_ok_update[OF ok, of _ k "after_write buf se"]) (simp_all add: after_write_def)
qed

lemma task_client_see [simp]: "task_client (see c t) = task_client t"
  by (cases t) simp_all

lemma web_step_sessions_ok:
  assumes st: "web_step so L s l s'" and ok: "sessions_ok tr s"
  shows "sessions_ok (tr @ [l]) s'"
  using st
proof cases
  case (http_submits request response tx c')
  then show ?thesis using ok by (auto simp: sessions_ok_def http_submit_effect_def stream_see)
qed (use ok in \<open>simp_all add: sessions_ok_def\<close>)

interpretation run_sessions: run_invariant so L sys sessions_ok for so L sys
proof unfold_locales
  show "sessions_ok [] (do_accept (Server_init sys))" by (simp add: sessions_ok_def server_defs)
  show "sessions_ok tr (server_stop s)" if "sessions_ok tr s" for tr s
    using that by (simp add: sessions_ok_def server_stop_def)
qed (blast intro: tcp_step_sessions_ok web_step_sessions_ok)+


section \<open>A message arrives\<close>

lemma encode_frame_parts:
  "encode_frame ty payload =
     le_bytes 4 (uint (word_of_nat (2 + length payload) :: u32)) @ le_bytes 2 (uint ty) @ payload"
  by (simp add: encode_frame_def put_span_def put_u16_def put_u32_def put_bytes_def)

lemma unat_frame_size:
  "length payload + 2 < 2 ^ 32 \<Longrightarrow> unat (word_of_nat (2 + length payload) :: u32) = 2 + length payload"
  by (rule unat_u32_of_nat) simp

text \<open>A frame that arrives on an idle session leads to the handler of its message.\<close>

lemma frame_read:
  assumes idle: "sv_task s = None"
    and se: "sv_sessions s k = Some se" "se_point se = Await_size" "se_taken se = length (se_received se)"
    and len: "length payload + 2 < 2 ^ 32"
  shows "\<exists>s' se'. tcp_steps so L s [Quiet, Quiet, Quiet] s' \<and>
    s' = set_session k se' s\<lparr>sv_task := Some (Handling k ty payload [])\<rparr> \<and>
    se_point se' = In_handler \<and> se_written se' = se_written se"
proof -
  let ?n = "word_of_nat (2 + length payload) :: u32"
  let ?f = "encode_frame ty payload"
  have n: "unat ?n = 2 + length payload" using len by (rule unat_frame_size)
  then have n2: "\<not> ?n < 2" by (simp add: word_less_nat_alt)
  define se1 where "se1 = se\<lparr>se_received := se_received se @ ?f\<rparr>"
  define se2 where "se2 = se1\<lparr>se_taken := se_taken se1 + 4, se_point := Await_body ?n\<rparr>"
  define se3 where "se3 = se2\<lparr>se_taken := se_taken se2 + unat ?n, se_point := In_handler\<rparr>"
  define s1 where "s1 = set_session k se1 s"
  define s2 where "s2 = set_session k se2 s1"
  define s3 where "s3 = set_session k se3 s2\<lparr>sv_task := Some (Handling k ty payload [])\<rparr>"
  have u1: "unread_bytes se1 = ?f" using se by (simp add: se1_def)
  have u2: "unread_bytes se2 = le_bytes 2 (uint ty) @ payload"
    using se by (simp add: se2_def se1_def encode_frame_parts del: of_nat_add)
  have w: "(word_of_int (le_int (take 4 ?f)) :: u32) = ?n" "(word_of_int (le_int (le_bytes 2 (uint ty))) :: u16) = ty"
    by (simp_all add: encode_frame_parts word_le_roundtrip del: of_nat_add)
  have "tcp_step so L s Quiet s1"
    unfolding s1_def se1_def using se by (intro client_sends) simp_all
  note r1 = tcp_more[OF tcp_none this]
  have "after_size se1 = se2"
    using w(1) n2 by (simp add: after_size_def u1 se2_def Let_def)
  moreover have "tcp_step so L s1 Quiet (set_session k (after_size se1) s1)"
    using idle se u1 by (intro size_read) (simp_all add: s1_def se1_def encode_frame_parts)
  ultimately have "tcp_step so L s1 Quiet s2" by (simp add: s2_def)
  note r2 = tcp_more[OF r1 this]
  have "tcp_step so L s2 Quiet s3"
    unfolding s3_def
  proof (rule body_read)
    show "after_body ?n se2 = (se3, ty, payload)"
      using w(2) n unfolding after_body_def u2 by (simp add: se3_def Let_def)
  qed (use idle n u2 in \<open>simp_all add: s2_def s1_def se2_def\<close>)
  from tcp_more[OF r2 this] have "tcp_steps so L s [Quiet, Quiet, Quiet] s3" by simp
  then show ?thesis
    by (intro exI[of _ s3] exI[of _ se3]) (simp add: s3_def s2_def s1_def se3_def se2_def se1_def)
qed

lemma frame_handled:
  assumes run: "runs so L sys tr s" "\<not> sv_stopped s" "sv_task s = None"
    and se: "sv_sessions s k = Some se" "se_point se = Await_size" "se_taken se = length (se_received se)"
    and len: "length payload + 2 < 2 ^ 32"
  shows "\<exists>s'. runs so L sys (tr @ [Quiet, Quiet, Quiet]) s' \<and> \<not> sv_stopped s' \<and>
    sv_task s' = Some (Handling k ty payload []) \<and> sv_system s' = sv_system s \<and>
    sv_announcing s' = sv_announcing s \<and> (\<exists>se'. sv_sessions s' k = Some se' \<and> se_point se' = In_handler)"
proof -
  obtain s' se' where s': "tcp_steps so L s [Quiet, Quiet, Quiet] s'"
    "s' = set_session k se' s\<lparr>sv_task := Some (Handling k ty payload [])\<rparr>" "se_point se' = In_handler"
    using frame_read[OF run(3) se len, of so L ty] by blast
  from runs_tcp_steps[OF s'(1) run(1,2)] s'(2,3) run(2) show ?thesis by (intro exI[of _ s']) simp
qed

end
