(* ===== verification/Announcements.thy ===== *)
theory Announcements
  imports Sessions Progress
begin

text \<open>
  What the WebSocket connections are told: accepted blocks are announced once each, in the order of the chain, and
  no transaction enters the pool without being announced.
\<close>

section \<open>Blocks\<close>

text \<open>The blocks announced so far, and those whose announcement is under way.\<close>

fun block_of :: "event \<Rightarrow> block list" where
  "block_of (On_block_accepted blk) = [blk]"
| "block_of (On_tx_accepted tx) = []"

definition announced :: "('db, 'conn, 'client) label list \<Rightarrow> event list" where
  "announced tr = concat (map (\<lambda>l. case l of Announced e conns \<Rightarrow> [e] | _ \<Rightarrow> []) tr)"

fun pending_events :: "('client, 'db) task option \<Rightarrow> event list" where
  "pending_events (Some (Publishing k es rep)) = es"
| "pending_events _ = []"

lemma announced_simps [simp]:
  "announced [] = []"
  "announced (tr @ [Quiet]) = announced tr"
  "announced (tr @ [Handled k ty payload r c c']) = announced tr"
  "announced (tr @ [Announced e conns]) = announced tr @ [e]"
  by (simp_all add: announced_def)

lemma pending_events_see [simp]: "pending_events (map_option (see c) task) = pending_events task"
  by (cases task; cases "the task") auto

abbreviation event_blocks :: "event list \<Rightarrow> block list" where
  "event_blocks es \<equiv> concat (map block_of es)"

lemma on_create_tx_events_blocks:
  "on_create_tx so L payload c = (re, c') \<Longrightarrow> event_blocks (events re) = []"
  by (drule on_create_tx_cases) (auto split: if_splits)

lemma on_create_block_events_blocks:
  "on_create_block so L payload c = (re, c') \<Longrightarrow> blocks c' = blocks c @ event_blocks (events re)"
  by (drule on_create_block_cases) (auto dest: add_block_blocks)

lemma handle_msg_events_blocks:
  assumes h: "handle_msg so L iter ty payload c = (Inr re, c')"
  shows "blocks c' = blocks c @ event_blocks (events re)"
proof -
  consider "on_create_block so L payload c = (re, c')" | "on_create_tx so L payload c = (re, c')"
    | "c' = c \<and> events re = []"
    using h by (auto simp: handle_msg_def on_get_utxos_def on_get_tip_def on_get_pool_def on_get_difficulty_def
        replies_def Let_def ebind_Inr_iff split: if_splits prod.splits)
  then show ?thesis
    by cases (use on_create_block_events_blocks on_create_tx_events_blocks on_create_tx_blocks in fastforce)+
qed

lemma handled_blocks:
  assumes h: "handled so L ty payload seen c r c'" and seen: "sorted_wrt http_change (seen @ [c])"
  shows "blocks c' = blocks c @ (case r of Inl e \<Rightarrow> [] | Inr re \<Rightarrow> event_blocks (events re))"
  using handled_linearizable[OF h seen]
proof (elim disjE exE conjE bexE)
  fix iter assume h: "handle_msg so L iter ty payload c = (r, c')"
  show ?thesis
  proof (cases r)
    case (Inl e)
    with h have "c' = c" by (auto simp: handle_msg_def split: if_splits prod.splits)
    with Inl show ?thesis by simp
  qed (use h handle_msg_events_blocks in fastforce)
next
  fix iter d assume "handle_msg so L iter ty payload d = (r, d)" "c' = c"
  then show ?thesis using handle_msg_events_blocks[of so L iter ty payload d _ d] by (cases r) auto
qed (simp add: on_get_pool_def replies_def)

definition blocks_announced :: "('db, 'conn) system \<Rightarrow> ('db, 'conn, 'client) label list \<Rightarrow> ('db, 'conn, 'client) server \<Rightarrow> bool" where
  "blocks_announced sys tr s \<longleftrightarrow>
     blocks (sv_chain s) = blocks (sys_chain sys) @ event_blocks (announced tr @ pending_events (sv_task s))"

lemma task_seen:
  "task_ok s \<Longrightarrow> sv_task s = Some (Handling k ty payload seen) \<Longrightarrow> sorted_wrt http_change (seen @ [sv_chain s])"
  by (simp add: task_ok_def)

lemma tcp_step_blocks_announced:
  assumes "tcp_step so L s l s'" "blocks_announced sys tr s" "task_ok s"
  shows "blocks_announced sys (tr @ [l]) s'"
  using assms(1)
proof cases
  case (handler_throws k ty payload seen se e c')
  with handled_blocks[OF handler_throws(6) task_seen[OF assms(3) handler_throws(3)]] assms(2) show ?thesis by (simp add: blocks_announced_def)
next
  case (handler_accepts k ty payload seen re c')
  with handled_blocks[OF handler_accepts(5) task_seen[OF assms(3) handler_accepts(3)]] assms(2) show ?thesis by (simp add: blocks_announced_def)
qed (use assms(2) in \<open>auto simp: blocks_announced_def server_defs split: option.splits\<close>)

lemma web_step_blocks_announced:
  assumes "web_step so L s l s'" "blocks_announced sys tr s"
  shows "blocks_announced sys (tr @ [l]) s'"
  using assms(1)
proof cases
  case (http_submits request response tx c')
  have "blocks c' = blocks (sv_chain s)"
    using api_transaction_state[OF http_submits(3)] by (auto dest: http_submitted_blocks)
  with http_submits assms(2) show ?thesis by (simp add: blocks_announced_def http_submit_effect_def)
qed (use assms(2) in \<open>simp_all add: blocks_announced_def\<close>)

interpretation block_news: run_invariant so L sys "blocks_announced sys" for so L sys
proof unfold_locales
  show "blocks_announced sys [] (do_accept (Server_init sys))" by (simp add: blocks_announced_def server_defs)
  show "blocks_announced sys tr (server_stop s)" if "blocks_announced sys tr s" for tr s
    using that by (simp add: blocks_announced_def server_stop_def)
qed (blast intro: tcp_step_blocks_announced[OF _ _ task.holds] web_step_blocks_announced)+


section \<open>Transactions\<close>

text \<open>A transaction enters the pool only to be announced, when the databases do not fail.\<close>

lemma add_tx_pool_new:
  assumes "add_tx so L st c = (r, c')" "db_reliable L" "pool c' h = Some tx"
  shows "pool c h = Some tx \<or> (r = Inr TxError_None \<and> tx = st_tx st)"
  using assms db_reliable_add_tx[OF assms(2,1)]
  by (auto simp: add_tx_cases accept_tx_def Let_def split: if_splits prod.splits option.splits)

lemma on_create_tx_pool_new:
  assumes "on_create_tx so L payload c = (re, c')" "db_reliable L" "pool c' h = Some tx"
  shows "pool c h = Some tx \<or> On_tx_accepted tx \<in> set (events re)"
  using on_create_tx_cases[OF assms(1)] assms(2,3) by (auto dest: add_tx_pool_new)

lemma on_create_block_pool_new:
  assumes "on_create_block so L payload c = (re, c')" "db_reliable L" "pool c' h = Some tx"
  shows "pool c h = Some tx"
  using on_create_block_cases[OF assms(1)] assms(3)
  by (auto dest: db_reliable_add_block[OF assms(2)] dest!: add_block_pool simp: restrict_map_def split: if_splits)

lemma handled_pool_new:
  assumes h: "handled so L ty payload seen c r c'" and seen: "sorted_wrt http_change (seen @ [c])"
    and L: "db_reliable L" and p: "pool c' h = Some tx"
  shows "pool c h = Some tx \<or> (\<exists>re. r = Inr re \<and> On_tx_accepted tx \<in> set (events re))"
proof (cases "c' = c")
  case False
  with handled_linearizable[OF h seen] obtain iter where "handle_msg so L iter ty payload c = (r, c')" by blast
  with False consider re where "on_create_tx so L payload c = (re, c')" "r = Inr re"
    | re where "on_create_block so L payload c = (re, c')"
    by (auto simp: handle_msg_def split: if_splits prod.splits)
  then show ?thesis
    by cases (use on_create_tx_pool_new[OF _ L p] on_create_block_pool_new[OF _ L p] in blast)+
qed (use p in simp)

lemma api_transaction_pool_new:
  assumes a: "api_transaction so L request c = (Inr (response, t), c')" and L: "db_reliable L"
    and p: "pool c' h = Some tx"
  shows "pool c h = Some tx \<or> t = Some tx"
  using api_transaction_state[OF a] p by (auto simp: http_submitted_def dest: add_tx_pool_new[OF _ L])

definition pool_announced :: "('db, 'conn) system \<Rightarrow> ('db, 'conn, 'client) label list \<Rightarrow> ('db, 'conn, 'client) server \<Rightarrow> bool" where
  "pool_announced sys tr s \<longleftrightarrow>
     (\<forall>h tx. pool (sv_chain s) h = Some tx \<longrightarrow> pool (sys_chain sys) h = Some tx \<or>
        On_tx_accepted tx \<in> set (announced tr) \<or> On_tx_accepted tx \<in> set (pending_events (sv_task s)) \<or>
        tx \<in># sv_announcing s)"

lemma tcp_step_pool_announced:
  assumes "tcp_step so L s l s'" "db_reliable L" "pool_announced sys tr s" "task_ok s"
  shows "pool_announced sys (tr @ [l]) s'"
  using assms(1)
proof cases
  case (handler_throws k ty payload seen se e c')
  with handled_pool_new[OF handler_throws(6) task_seen[OF assms(4) handler_throws(3)] assms(2)] assms(3) show ?thesis by (auto simp: pool_announced_def)
next
  case (handler_accepts k ty payload seen re c')
  with handled_pool_new[OF handler_accepts(5) task_seen[OF assms(4) handler_accepts(3)] assms(2)] assms(3) show ?thesis by (auto simp: pool_announced_def)
qed (use assms(3) in \<open>auto simp: pool_announced_def server_defs split: option.splits\<close>)

lemma web_step_pool_announced:
  assumes "web_step so L s l s'" "db_reliable L" "pool_announced sys tr s"
  shows "pool_announced sys (tr @ [l]) s'"
  using assms(1)
proof cases
  case (http_submits request response tx c')
  with api_transaction_pool_new[OF http_submits(3) assms(2)] assms(3) show ?thesis
    by (cases tx) (fastforce simp: pool_announced_def http_submit_effect_def)+
next
  case (http_announces tx)
  have "t = tx \<or> t \<in># sv_announcing s - {#tx#}" if "t \<in># sv_announcing s" for t
    using that by (cases "t = tx") (simp_all add: in_diff_count)
  with http_announces assms(3) show ?thesis by (fastforce simp: pool_announced_def)
qed (use assms(3) in \<open>simp_all add: pool_announced_def\<close>)

interpretation pool_news: run_invariant so L sys "\<lambda>tr s. db_reliable L \<longrightarrow> pool_announced sys tr s" for so L sys
proof unfold_locales
  show "db_reliable L \<longrightarrow> pool_announced sys [] (do_accept (Server_init sys))"
    by (simp add: pool_announced_def server_defs)
  show "db_reliable L \<longrightarrow> pool_announced sys tr (server_stop s)" if "db_reliable L \<longrightarrow> pool_announced sys tr s" for tr s
    using that by (simp add: pool_announced_def server_stop_def)
qed (auto intro: tcp_step_pool_announced[OF _ _ _ task.holds] web_step_pool_announced)


section \<open>The order of announcements\<close>

text \<open>
  A submission over HTTP is announced after its thread has released the lock of the chain. A block that confirms
  the transaction may be announced before.
\<close>

lemma client_connects:
  "\<exists>s se. runs so L sys [Quiet] s \<and> \<not> sv_stopped s \<and> sv_task s = None \<and> sv_system s = sys \<and>
     sv_announcing s = {#} \<and> sv_sessions s k = Some se \<and> se_point se = Await_size \<and>
     se_taken se = length (se_received se)"
proof -
  let ?s = "do_accept (Server_init sys)"
  have "tcp_step so L ?s Quiet (accept_handler (Some k) ?s)"
    by (rule accept_client) (simp_all add: server_defs)
  moreover have "\<not> sv_stopped ?s" by (simp add: server_defs)
  ultimately have "runs so L sys ([] @ [Quiet]) (accept_handler (Some k) ?s)"
    by (intro run_tcp[OF run_starts])
  then show ?thesis by (intro exI[of _ "accept_handler (Some k) ?s"]) (simp add: server_defs)
qed

lemma overtaking_run:
  fixes sys :: "('db, 'conn) system"
  assumes http: "api_transaction so L request (sys_chain sys) = (Inr (response, Some tx), c)"
    and tcp: "on_create_block so L payload c = (re, c')" "events re = [On_block_accepted blk]"
    and len: "length payload + 2 < 2 ^ 32" "length (blocks c) < 2 ^ 32"
  shows "\<exists>tr (s :: ('db, 'conn, 'client) server). runs so L sys tr s \<and> sv_chain s = c' \<and>
    announced tr = [On_block_accepted blk, On_tx_accepted tx]"
proof -
  fix k :: 'client
  obtain s0 :: "('db, 'conn, 'client) server" and se where
    s0: "runs so L sys [Quiet] s0" "\<not> sv_stopped s0" "sv_task s0 = None" "sv_system s0 = sys" "sv_announcing s0 = {#}"
    and se: "sv_sessions s0 k = Some se" "se_point se = Await_size" "se_taken se = length (se_received se)"
    using client_connects[of so L sys k] by blast
  obtain s1 where s1: "runs so L sys ([Quiet] @ [Quiet, Quiet, Quiet]) s1" "\<not> sv_stopped s1"
    "sv_task s1 = Some (Handling k (msg_code CreateBlock) payload [])" "sv_system s1 = sys" "sv_announcing s1 = {#}"
    using frame_handled[OF s0(1-3) se len(1)] s0(4,5) by metis
  define s2 where "s2 = http_submit_effect (Some tx) c s1"
  have r2: "runs so L sys (([Quiet] @ [Quiet, Quiet, Quiet]) @ [Quiet]) s2"
    using s1(4) http by (intro run_web[OF s1(1)]) (simp add: s2_def http_submits)
  have s2: "\<not> sv_stopped s2" "sv_task s2 = Some (Handling k (msg_code CreateBlock) payload [sys_chain sys])"
    "sv_chain s2 = c" "sv_announcing s2 = {#tx#}"
    using s1 by (simp_all add: s2_def http_submit_effect_def)
  define s3 where "s3 = set_chain c' s2\<lparr>sv_task := Some (Publishing k (events re) (reply re))\<rparr>"
  have "tcp_step so L s2 (Handled k (msg_code CreateBlock) payload (Inr re) (sv_chain s2) c') s3"
    unfolding s3_def using s2 len(2) on_create_block_handled[OF tcp(1)] by (intro handler_accepts) simp_all
  note r3 = run_tcp[OF r2 s2(1) this]
  define s4 where "s4 = s3\<lparr>sv_task := Some (Publishing k [] (reply re))\<rparr>"
  have "tcp_step so L s3 (Announced (On_block_accepted blk) (sv_conns s3)) s4"
    unfolding s4_def using tcp(2) by (intro publishes) (simp add: s3_def)
  moreover have "\<not> sv_stopped s3" using s2(1) by (simp add: s3_def)
  ultimately have r4: "runs so L sys ((((([Quiet] @ [Quiet, Quiet, Quiet]) @ [Quiet]) @
      [Handled k (msg_code CreateBlock) payload (Inr re) (sv_chain s2) c']) @
      [Announced (On_block_accepted blk) (sv_conns s3)])) s4"
    by (intro run_tcp[OF r3])
  have "web_step so L s4 (Announced (On_tx_accepted tx) (sv_conns s4)) (s4\<lparr>sv_announcing := sv_announcing s4 - {#tx#}\<rparr>)"
    using s2(4) by (intro http_announces) (simp add: s4_def s3_def)
  note r5 = run_web[OF r4 this]
  have chain: "sv_chain (s4\<lparr>sv_announcing := sv_announcing s4 - {#tx#}\<rparr>) = c'" by (simp add: s4_def s3_def)
  show ?thesis
    by (rule exI, rule exI, rule conjI, rule r5) (use chain in \<open>simp add: announced_def\<close>)
qed

end
