(* ===== verification/Service.thy ===== *)
theory Service
  imports Sessions
begin

text \<open>
  Service: what the thread of the TCP server can do on its own. A handler under way can finish, and a client that
  connects then can have any message handled and its reply written.
\<close>

section \<open>A handler finishes\<close>

lemma publishing_finishes:
  "sv_task s = Some (Publishing k es rep) \<Longrightarrow> sv_sessions s k = Some se \<Longrightarrow>
   \<exists>tr. tcp_steps so L s tr (set_session k (after_handler rep se) s\<lparr>sv_task := None\<rparr>)"
proof (induction es arbitrary: s)
  case Nil
  then show ?case using handler_done[OF Nil] by (blast intro: tcp_one)
next
  case (Cons e es)
  let ?s = "s\<lparr>sv_task := Some (Publishing k es rep)\<rparr>"
  have "tcp_steps so L s [Announced e (sv_conns s)] ?s" using publishes[OF Cons.prems(1)] by (rule tcp_one)
  moreover have "sv_task ?s = Some (Publishing k es rep)" "sv_sessions ?s k = Some se" using Cons.prems(2) by simp_all
  then obtain tr where "tcp_steps so L ?s tr (set_session k (after_handler rep se) ?s\<lparr>sv_task := None\<rparr>)"
    using Cons.IH by metis
  ultimately have "tcp_steps so L s ([Announced e (sv_conns s)] @ tr)
      (set_session k (after_handler rep se) ?s\<lparr>sv_task := None\<rparr>)" by (blast intro: tcp_steps_trans)
  moreover have "set_session k (after_handler rep se) ?s\<lparr>sv_task := None\<rparr> =
      set_session k (after_handler rep se) s\<lparr>sv_task := None\<rparr>" by simp
  ultimately show ?case by metis
qed

definition after_message :: "exn + reaction \<Rightarrow> session \<Rightarrow> session" where
  "after_message r se = (case r of Inl e \<Rightarrow> se\<lparr>se_point := Ended\<rparr> | Inr re \<Rightarrow> after_handler (reply re) se)"

lemma handling_finishes:
  assumes task: "sv_task s = Some (Handling k ty payload seen)" and se: "sv_sessions s k = Some se"
    and len: "length (blocks (sv_chain s)) < 2 ^ 32" and h: "handle_msg so L iter ty payload (sv_chain s) = (r, c')"
  shows "\<exists>tr. tcp_steps so L s tr (set_session k (after_message r se) (set_chain c' s)\<lparr>sv_task := None\<rparr>)"
proof (cases r)
  case (Inl e)
  with handler_throws[OF task se len handle_msg_handled[OF h[unfolded Inl]]] show ?thesis
    by (auto simp: after_message_def intro: tcp_one)
next
  case (Inr re)
  let ?s = "set_chain c' s\<lparr>sv_task := Some (Publishing k (events re) (reply re))\<rparr>"
  have "tcp_steps so L s [Handled k ty payload (Inr re) (sv_chain s) c'] ?s"
    by (rule tcp_one, rule handler_accepts[OF task len handle_msg_handled[OF h[unfolded Inr]]])
  moreover have "sv_task ?s = Some (Publishing k (events re) (reply re))" "sv_sessions ?s k = Some se"
    using se by simp_all
  from publishing_finishes[OF this, of so L] obtain tr where
    "tcp_steps so L ?s tr (set_session k (after_handler (reply re) se) ?s\<lparr>sv_task := None\<rparr>)" by blast
  ultimately have "tcp_steps so L s ([Handled k ty payload (Inr re) (sv_chain s) c'] @ tr)
      (set_session k (after_handler (reply re) se) ?s\<lparr>sv_task := None\<rparr>)" by (blast intro: tcp_steps_trans)
  moreover have "set_session k (after_handler (reply re) se) ?s\<lparr>sv_task := None\<rparr> =
      set_session k (after_message r se) (set_chain c' s)\<lparr>sv_task := None\<rparr>" using Inr by (simp add: after_message_def)
  ultimately show ?thesis by metis
qed

text \<open>Whatever the thread is doing, it can become idle, with at most one block more.\<close>

lemma handle_msg_one_block:
  assumes "handle_msg so L iter ty payload c = (r, c')"
  shows "length (blocks c') \<le> Suc (length (blocks c))"
  using handle_msg_state[OF assms]
proof (elim disjE exE)
  fix re assume "on_create_tx so L payload c = (re, c')"
  then show ?thesis by (simp add: on_create_tx_blocks)
next
  fix re assume "on_create_block so L payload c = (re, c')"
  from on_create_block_cases[OF this] show ?thesis by (auto dest: add_block_blocks)
qed simp

lemma becomes_idle:
  assumes ok: "sessions_ok tr0 s" and len: "length (blocks (sv_chain s)) < 2 ^ 32"
  shows "\<exists>tr s'. tcp_steps so L s tr s' \<and> sv_task s' = None \<and>
    length (blocks (sv_chain s')) \<le> Suc (length (blocks (sv_chain s))) \<and>
    (\<forall>k. sv_sessions s k = None \<longrightarrow> sv_sessions s' k = None) \<and> (sv_task s = None \<longrightarrow> s' = s)"
proof (cases "sv_task s")
  case None
  then show ?thesis by (intro exI[of _ "[]"] exI[of _ s]) (simp add: tcp_none)
next
  case (Some t)
  with ok obtain se where se: "sv_sessions s (task_client t) = Some se" by (fastforce simp: sessions_ok_def)
  show ?thesis
  proof (cases t)
    case (Handling k ty payload seen)
    obtain r c' where h: "handle_msg so L (\<lambda>_. []) ty payload (sv_chain s) = (r, c')" by fastforce
    have k: "sv_sessions s k = Some se" using se Handling by simp
    from handling_finishes[OF Some[unfolded Handling] k len h] obtain tr where
      "tcp_steps so L s tr (set_session k (after_message r se) (set_chain c' s)\<lparr>sv_task := None\<rparr>)" by blast
    then show ?thesis
      using handle_msg_one_block[OF h] se Some Handling
      by (intro exI[of _ tr] exI[of _ "set_session k (after_message r se) (set_chain c' s)\<lparr>sv_task := None\<rparr>"]) auto
  next
    case (Publishing k es rep)
    have k: "sv_sessions s k = Some se" using se Publishing by simp
    from publishing_finishes[OF Some[unfolded Publishing] k, of so L] obtain tr where
      "tcp_steps so L s tr (set_session k (after_handler rep se) s\<lparr>sv_task := None\<rparr>)" by blast
    then show ?thesis
      using se Some Publishing
      by (intro exI[of _ tr] exI[of _ "set_session k (after_handler rep se) s\<lparr>sv_task := None\<rparr>"]) auto
  qed
qed


section \<open>A client is served\<close>

lemma client_served:
  assumes s: "sv_accepting s" "sv_task s = None" "sv_sessions s k = None"
    and len: "length payload + 2 < 2 ^ 32" "length (blocks (sv_chain s)) < 2 ^ 32"
    and h: "handle_msg so L iter ty payload (sv_chain s) = (r, c')"
  shows "\<exists>tr s' se. tcp_steps so L s tr s' \<and> sv_task s' = None \<and> sv_chain s' = c' \<and>
    sv_sessions s' k = Some se \<and> se_written se = reply_bytes r"
proof -
  define s1 where "s1 = accept_handler (Some k) s"
  have "tcp_step so L s Quiet s1" unfolding s1_def using s by (rule accept_client)
  note r1 = tcp_one[OF this]
  have f1: "sv_task s1 = None" "sv_sessions s1 k = Some new_session" "sv_system s1 = sv_system s"
    using s by (simp_all add: s1_def accept_handler_def do_accept_def)
  have "se_point new_session = Await_size" "se_taken new_session = length (se_received new_session)"
    by (simp_all add: new_session_def)
  from frame_read[OF f1(1,2) this len(1), of so L ty] obtain s2 se where r2: "tcp_steps so L s1 [Quiet, Quiet, Quiet] s2"
    and s2: "s2 = set_session k se s1\<lparr>sv_task := Some (Handling k ty payload [])\<rparr>" "se_written se = []"
    by (auto simp: new_session_def)
  have f2: "sv_task s2 = Some (Handling k ty payload [])" "sv_sessions s2 k = Some se" "sv_chain s2 = sv_chain s"
    using s2 f1 by simp_all
  define s3 where "s3 = set_session k (after_message r se) (set_chain c' s2)\<lparr>sv_task := None\<rparr>"
  obtain tr where r3: "tcp_steps so L s2 tr s3"
    using handling_finishes[OF f2(1,2)] len(2) h f2(3) unfolding s3_def by metis
  have f3: "sv_task s3 = None" "sv_sessions s3 k = Some (after_message r se)" "sv_chain s3 = c'"
    by (simp_all add: s3_def)
  note r13 = tcp_steps_trans[OF r3 tcp_steps_trans[OF r2 r1]]
  show ?thesis
  proof (cases "\<exists>re buf. r = Inr re \<and> reply re = Some buf")
    case True
    then obtain re buf where re: "r = Inr re" "reply re = Some buf" by blast
    let ?se = "after_write buf (after_message r se)"
    have "tcp_step so L s3 Quiet (set_session k ?se s3)"
      using re by (intro reply_written[OF f3(1,2)]) (simp add: after_message_def after_handler_def)
    note r14 = tcp_more[OF r13 this]
    have "se_written ?se = reply_bytes r"
      using re s2(2) by (simp add: after_message_def after_handler_def after_write_def reply_bytes_def)
    then show ?thesis
      by (intro exI[of _ "((([Quiet] @ [Quiet, Quiet, Quiet]) @ tr) @ [Quiet])"] exI[of _ "set_session k ?se s3"])
        (use f3 r14 in simp)
  next
    case False
    then have "se_written (after_message r se) = reply_bytes r"
      using s2(2) by (cases r) (auto simp: after_message_def after_handler_def reply_bytes_def split: option.splits)
    with r13 f3 show ?thesis by blast
  qed
qed

end
