(* ===== verification/Lifecycle.thy ===== *)
theory Lifecycle
  imports Announcements Service
begin

text \<open>
  \<^verbatim>\<open>src/main.cpp\<close> from the construction of the chain to the end of the process: the main thread, which runs the
  TCP server, the thread of the web server, the signals, and the ways to end. Shown: without a signal both servers
  run and a new client can be served; what a signal does; and when the process can exit.
\<close>

section \<open>The process\<close>

text \<open>
  The main thread is between the start of the web thread and the end of \<^verbatim>\<open>signals.async_wait\<close>, in
  \<^verbatim>\<open>server.run()\<close>, or in \<^verbatim>\<open>web_thread.join()\<close>; or the process has ended, by \<^verbatim>\<open>main\<close> and the runtime or by the default
  action of a signal. The web thread has not yet reached Crow's \<^verbatim>\<open>run\<close>, is in it, or has returned from it.
\<close>

datatype main_point = Starting | Serving | Joining | Ended_with outcome | Killed

datatype web_point = Web_starting | Web_serving | Web_returned

text \<open>
  \<open>pr_signals\<close> counts the signals that were delivered, \<open>pr_caught\<close>: one was delivered to \<^verbatim>\<open>signals\<close>,
  \<open>pr_web_stop\<close>: Crow was told to stop, and will.
\<close>

record ('db, 'conn, 'client) process =
  pr_server :: "('db, 'conn, 'client) server"
  pr_main :: main_point
  pr_web :: web_point
  pr_web_stop :: bool
  pr_signals :: nat
  pr_caught :: bool

text \<open>
  What the repository does not show of Crow: whether a \<^verbatim>\<open>stop\<close> that comes before \<^verbatim>\<open>run\<close> is remembered, and whether
  Crow, once it runs, waits for \<^verbatim>\<open>SIGINT\<close> and \<^verbatim>\<open>SIGTERM\<close> itself and stops on them.
\<close>

record crow_conduct =
  keeps_stop :: bool
  own_signals :: bool

definition process_ended :: "('db, 'conn, 'client) process \<Rightarrow> bool" where
  "process_ended p \<longleftrightarrow> pr_main p = Killed \<or> (\<exists>oc. pr_main p = Ended_with oc)"

text \<open>\<^verbatim>\<open>WebServer::stop\<close>, which calls Crow's \<^verbatim>\<open>stop\<close>.\<close>

definition web_stop :: "crow_conduct \<Rightarrow> ('db, 'conn, 'client) process \<Rightarrow> ('db, 'conn, 'client) process" where
  "web_stop w p = p\<lparr>pr_web_stop := pr_web_stop p \<or> keeps_stop w \<or> pr_web p \<noteq> Web_starting\<rparr>"

text \<open>
  \<^verbatim>\<open>main\<close> up to the start of the web thread, with the results of \<^verbatim>\<open>sodium_init\<close> and of the constructors. The accept
  operation that \<^verbatim>\<open>server.run()\<close> begins with is shown from here on; it can complete only in \<^verbatim>\<open>server.run()\<close>.
\<close>

definition process_start ::
    "int \<Rightarrow> exn + 'db chain \<Rightarrow> exn + unit \<Rightarrow> outcome + ('db, 'conn, 'client) process" where
  "process_start sodium chain servers =
     (if sodium < 0 then Inl (Exit 1)
      else case chain of
             Inl e \<Rightarrow> Inl (Exit 1)
           | Inr c \<Rightarrow>
               (case servers of
                  Inl e \<Rightarrow> Inl (Exit 1)
                | Inr _ \<Rightarrow>
                    Inr \<lparr>pr_server = do_accept (Server_init \<lparr>sys_chain = c, sys_conns = {}\<rparr>),
                         pr_main = Starting, pr_web = Web_starting, pr_web_stop = False,
                         pr_signals = 0, pr_caught = False\<rparr>))"

text \<open>
  A signal is delivered. Before \<^verbatim>\<open>signals\<close> waits for it, it kills the process, unless Crow has installed its own
  handler by then.
\<close>

definition deliver :: "crow_conduct \<Rightarrow> ('db, 'conn, 'client) process \<Rightarrow> ('db, 'conn, 'client) process" where
  "deliver w p =
     (let p' = p\<lparr>pr_signals := Suc (pr_signals p),
                 pr_web_stop := pr_web_stop p \<or> own_signals w \<and> pr_web p = Web_serving\<rparr>
      in if pr_main p \<noteq> Starting then p'\<lparr>pr_caught := True\<rparr>
         else if own_signals w \<and> pr_web p \<noteq> Web_starting then p'
         else p'\<lparr>pr_main := Killed\<rparr>)"

text \<open>The handler that \<^verbatim>\<open>main\<close> gives to \<^verbatim>\<open>signals.async_wait\<close>; it runs once, on the thread of the TCP server.\<close>

definition on_signal :: "crow_conduct \<Rightarrow> ('db, 'conn, 'client) process \<Rightarrow> ('db, 'conn, 'client) process" where
  "on_signal w p = web_stop w (p\<lparr>pr_server := server_stop (pr_server p)\<rparr>)"

text \<open>
  The steps. An exception that leaves the function of a thread ends the process, and so does one that leaves \<^verbatim>\<open>main\<close>'s
  block while the web thread runs, because that thread is not joined when its object is destroyed.
\<close>

inductive process_step ::
    "crow_conduct \<Rightarrow> sodium \<Rightarrow> 'db leveldb \<Rightarrow> ('db, 'conn, 'client) process \<Rightarrow> ('db, 'conn, 'client) process \<Rightarrow> bool"
  for w :: crow_conduct and so :: sodium and L :: "'db leveldb"
where
  signals_wait:
    "pr_main p = Starting \<Longrightarrow> process_step w so L p (p\<lparr>pr_main := Serving\<rparr>)"
| tcp_server:
    "pr_main p = Serving \<Longrightarrow> \<not> sv_stopped (pr_server p) \<Longrightarrow> tcp_step so L (pr_server p) l s' \<Longrightarrow>
     process_step w so L p (p\<lparr>pr_server := s'\<rparr>)"
| signal:
    "\<not> process_ended p \<Longrightarrow> process_step w so L p (deliver w p)"
| signal_handler:
    "pr_main p = Serving \<Longrightarrow> pr_caught p \<Longrightarrow> \<not> sv_stopped (pr_server p) \<Longrightarrow> sv_task (pr_server p) = None \<Longrightarrow>
     process_step w so L p (on_signal w p)"
| server_returns:
    "pr_main p = Serving \<Longrightarrow> run_returns (pr_server p) \<Longrightarrow>
     process_step w so L p (web_stop w (p\<lparr>pr_main := Joining\<rparr>))"
| main_throws:
    "pr_main p = Starting \<or> pr_main p = Serving \<Longrightarrow>
     process_step w so L p (p\<lparr>pr_main := Ended_with Terminate\<rparr>)"
| web_starts:
    "\<not> process_ended p \<Longrightarrow> pr_web p = Web_starting \<Longrightarrow>
     process_step w so L p (p\<lparr>pr_web := Web_serving\<rparr>)"
| web_server:
    "\<not> process_ended p \<Longrightarrow> pr_web p = Web_serving \<Longrightarrow> web_step so L (pr_server p) l s' \<Longrightarrow>
     process_step w so L p (p\<lparr>pr_server := s'\<rparr>)"
| web_returns:
    "\<not> process_ended p \<Longrightarrow> pr_web p = Web_serving \<Longrightarrow> pr_web_stop p \<Longrightarrow>
     process_step w so L p (p\<lparr>pr_web := Web_returned\<rparr>)"
| web_throws:
    "\<not> process_ended p \<Longrightarrow> pr_web p \<noteq> Web_returned \<Longrightarrow>
     process_step w so L p (p\<lparr>pr_main := Ended_with Terminate\<rparr>)"
| joins:
    "pr_main p = Joining \<Longrightarrow> pr_web p = Web_returned \<Longrightarrow>
     process_step w so L p (p\<lparr>pr_main := Ended_with (Exit 0)\<rparr>)"

inductive_cases process_stepE: "process_step w so L p q"

inductive process_steps ::
    "crow_conduct \<Rightarrow> sodium \<Rightarrow> 'db leveldb \<Rightarrow> ('db, 'conn, 'client) process \<Rightarrow> ('db, 'conn, 'client) process \<Rightarrow> bool"
  for w :: crow_conduct and so :: sodium and L :: "'db leveldb" and p :: "('db, 'conn, 'client) process"
where
  no_step: "process_steps w so L p p"
| one_more: "process_steps w so L p q \<Longrightarrow> process_step w so L q r \<Longrightarrow> process_steps w so L p r"

lemma one_step: "process_step w so L p q \<Longrightarrow> process_steps w so L p q"
  using one_more[OF no_step] .

lemma process_steps_trans:
  assumes "process_steps w so L q r" "process_steps w so L p q"
  shows "process_steps w so L p r"
  using assms by induction (auto intro: one_more)

lemma main_function_start:
  "snd (main_function sodium (case chain of Inl e \<Rightarrow> Inl e | Inr c \<Rightarrow> Inr ()) servers running) =
     (case process_start sodium chain servers of
        Inl oc \<Rightarrow> oc
      | Inr (p :: ('db, 'conn, 'client) process) \<Rightarrow> (case running of Inl e \<Rightarrow> Terminate | Inr _ \<Rightarrow> Exit 0))"
  by (simp add: main_function_def process_start_def Let_def split: sum.splits)


section \<open>What the process keeps\<close>

text \<open>
  The servers run as in theory \<open>Server_Loop\<close>; the main thread leaves its loop only after a signal, and returns 0 only
  when the web thread has returned.
\<close>

definition process_inv ::
    "crow_conduct \<Rightarrow> sodium \<Rightarrow> 'db leveldb \<Rightarrow> ('db, 'conn) system \<Rightarrow> ('db, 'conn, 'client) process \<Rightarrow> bool" where
  "process_inv w so L sys p \<longleftrightarrow>
     (\<exists>tr. runs so L sys tr (pr_server p)) \<and>
     (pr_main p = Joining \<or> pr_main p = Ended_with (Exit 0) \<longrightarrow> sv_stopped (pr_server p)) \<and>
     (pr_main p = Ended_with (Exit 0) \<longrightarrow> pr_web p = Web_returned) \<and>
     (pr_web p = Web_returned \<longrightarrow> pr_web_stop p) \<and>
     (pr_web_stop p \<longrightarrow> keeps_stop w \<or> pr_web p \<noteq> Web_starting) \<and>
     (pr_web_stop p \<or> pr_caught p \<or> pr_main p = Killed \<longrightarrow> 0 < pr_signals p) \<and>
     (sv_stopped (pr_server p) \<longrightarrow> pr_caught p) \<and>
     (\<forall>n. pr_main p = Ended_with (Exit n) \<longrightarrow> n = 0)"

lemma run_returns_stopped: "runs so L sys tr s \<Longrightarrow> run_returns s \<Longrightarrow> sv_stopped s"
  by (auto simp: run_returns_def dest: accepting.holds)

lemma process_step_inv:
  assumes "process_step w so L p q" "process_inv w so L sys p"
  shows "process_inv w so L sys q"
  using assms(1)
proof cases
  case (tcp_server l s')
  with assms(2) tcp_step_stopped[OF tcp_server(4)] show ?thesis
    by (auto simp: process_inv_def intro: run_tcp)
next
  case signal
  with assms(2) show ?thesis by (auto simp: process_inv_def deliver_def Let_def process_ended_def)
next
  case signal_handler
  then have "\<exists>tr. runs so L sys tr (server_stop (pr_server p))"
    using assms(2) by (auto simp: process_inv_def intro: run_stops)
  with signal_handler assms(2) show ?thesis
    by (auto simp: process_inv_def on_signal_def web_stop_def)
next
  case server_returns
  then have "sv_stopped (pr_server p)" using assms(2) by (auto simp: process_inv_def dest: run_returns_stopped)
  with server_returns assms(2) show ?thesis by (auto simp: process_inv_def web_stop_def)
next
  case (web_server l s')
  with assms(2) web_step_stopped[OF web_server(4)] show ?thesis
    by (auto simp: process_inv_def intro: run_web)
qed (use assms(2) in \<open>auto simp: process_inv_def process_ended_def\<close>)

lemma process_start_inv:
  assumes "process_start sodium (Inr c) servers = Inr p"
  shows "process_inv w so L \<lparr>sys_chain = c, sys_conns = {}\<rparr> p"
proof -
  let ?sys = "\<lparr>sys_chain = c, sys_conns = {}\<rparr>"
  have "\<exists>tr. runs so L ?sys tr (do_accept (Server_init ?sys))" by (blast intro: run_starts)
  moreover have "\<not> sv_stopped (do_accept (Server_init ?sys))" by (simp add: server_defs)
  ultimately show ?thesis
    using assms by (auto simp: process_start_def process_inv_def split: if_splits sum.splits)
qed

lemma process_steps_inv:
  "process_steps w so L p q \<Longrightarrow> process_inv w so L sys p \<Longrightarrow> process_inv w so L sys q"
  by (induction rule: process_steps.induct) (auto intro: process_step_inv)


section \<open>Serving\<close>

text \<open>The TCP server's thread is free to step while the main thread is in its loop.\<close>

lemma process_tcp_steps:
  "tcp_steps so L (pr_server p) tr s' \<Longrightarrow> pr_main p = Serving \<Longrightarrow> \<not> sv_stopped (pr_server p) \<Longrightarrow>
   process_steps w so L p (p\<lparr>pr_server := s'\<rparr>)"
proof (induction rule: tcp_steps.induct)
  case tcp_none
  then show ?case by (simp add: no_step)
next
  case (tcp_more tr s' l s'')
  let ?p = "p\<lparr>pr_server := s'\<rparr>"
  have "process_step w so L ?p (?p\<lparr>pr_server := s''\<rparr>)"
    using tcp_more tcp_steps_stopped[OF tcp_more(1)] by (intro tcp_server) simp_all
  with tcp_more show ?case by (auto intro: one_more)
qed

text \<open>As long as the loop is not stopped, a new client can have a message handled and its reply written.\<close>

lemma process_serves:
  fixes p :: "('db, 'conn, 'client) process"
  assumes inv: "process_inv w so L sys p" and p: "pr_main p = Serving" "\<not> sv_stopped (pr_server p)"
    and k: "sv_sessions (pr_server p) k = None"
    and len: "length payload + 2 < 2 ^ 32" "Suc (length (blocks (sv_chain (pr_server p)))) < 2 ^ 32"
  shows "\<exists>(q :: ('db, 'conn, 'client) process) c r se. process_steps w so L p q \<and> pr_main q = Serving \<and>
    handle_msg so L iter ty payload c = (r, sv_chain (pr_server q)) \<and>
    (sv_task (pr_server p) = None \<longrightarrow> c = sv_chain (pr_server p)) \<and>
    sv_sessions (pr_server q) k = Some se \<and> se_written se = reply_bytes r"
proof -
  let ?s = "pr_server p"
  obtain tr0 where run: "runs so L sys tr0 ?s" using inv unfolding process_inv_def by blast
  obtain tr s1 where s1: "tcp_steps so L ?s tr s1" "sv_task s1 = None"
    "length (blocks (sv_chain s1)) \<le> Suc (length (blocks (sv_chain ?s)))" "sv_sessions s1 k = None"
    "sv_task ?s = None \<longrightarrow> s1 = ?s"
    using becomes_idle[OF run_sessions.holds[OF run]] len(2) k by (metis Suc_lessD)
  have acc: "sv_accepting s1" using accepting.holds[OF runs_tcp_steps[OF s1(1) run p(2)]] .
  obtain r c' where h: "handle_msg so L iter ty payload (sv_chain s1) = (r, c')" by fastforce
  have "length (blocks (sv_chain s1)) < 2 ^ 32" using s1(3) len(2) by linarith
  from client_served[OF acc s1(2,4) len(1) this h] obtain tr' s2 se where s2: "tcp_steps so L s1 tr' s2"
    "sv_chain s2 = c'" "sv_sessions s2 k = Some se" "se_written se = reply_bytes r" by blast
  have "process_steps w so L p (p\<lparr>pr_server := s2\<rparr>)"
    by (rule process_tcp_steps[OF tcp_steps_trans[OF s2(1) s1(1)] p])
  with h s2 s1(5) p(1) show ?thesis
    by (intro exI[of _ "p\<lparr>pr_server := s2\<rparr>"] exI[of _ "sv_chain s1"] exI[of _ r] exI[of _ se]) auto
qed


section \<open>Shutting down\<close>

text \<open>From a process that is joining and has reached Crow with its stop, the exit is at most three steps away.\<close>

lemma joining_exits:
  assumes "pr_main p = Joining" "pr_web_stop p"
  shows "\<exists>q. process_steps w so L p q \<and> pr_main q = Ended_with (Exit 0) \<and> pr_signals q = pr_signals p"
proof -
  define p1 where "p1 = (if pr_web p = Web_starting then p\<lparr>pr_web := Web_serving\<rparr> else p)"
  have p1: "process_steps w so L p p1"
    using assms(1) web_starts[of p w so L] by (auto simp: p1_def process_ended_def intro: one_more no_step)
  have f1: "pr_main p1 = Joining" "pr_web_stop p1" "pr_web p1 \<noteq> Web_starting" "pr_signals p1 = pr_signals p"
    using assms by (simp_all add: p1_def)
  define p2 where "p2 = p1\<lparr>pr_web := Web_returned\<rparr>"
  have p2: "process_steps w so L p p2"
  proof (cases "pr_web p1")
    case Web_serving
    with f1 web_returns[of p1 w so L] p1 show ?thesis by (auto simp: p2_def process_ended_def intro: one_more)
  next
    case Web_returned
    then have "p2 = p1" by (simp add: p2_def)
    with p1 show ?thesis by simp
  qed (use f1 in simp)
  have "process_step w so L p2 (p2\<lparr>pr_main := Ended_with (Exit 0)\<rparr>)"
    using f1 by (intro joins) (simp_all add: p2_def)
  from one_more[OF p2 this] f1(4) show ?thesis
    by (intro exI[of _ "p2\<lparr>pr_main := Ended_with (Exit 0)\<rparr>"]) (simp add: p2_def)
qed

lemma process_step_signals: "process_step w so L p q \<Longrightarrow> pr_signals p \<le> pr_signals q"
  by (erule process_stepE) (simp_all add: deliver_def on_signal_def web_stop_def Let_def)

text \<open>If the stop was lost, the process never exits, unless a further signal reaches Crow.\<close>

lemma lost_stop_hangs:
  assumes "process_steps w so L p q" "process_inv w so L sys p"
    and "pr_main p = Joining" "\<not> pr_web_stop p" "\<not> own_signals w \<or> pr_signals q = pr_signals p"
  shows "pr_signals p \<le> pr_signals q \<and>
    \<not> pr_web_stop q \<and> (pr_main q = Joining \<or> pr_main q = Ended_with Terminate)"
  using assms
proof induction
  case (one_more q r)
  have inv: "process_inv w so L sys q" using process_steps_inv[OF one_more(1,4)] .
  have "pr_signals p \<le> pr_signals q" by (rule process_steps.induct[OF one_more(1)])
      (auto dest: process_step_signals)
  moreover from this have "\<not> own_signals w \<or> pr_signals q = pr_signals p"
    using one_more(7) process_step_signals[OF one_more(2)] by auto
  ultimately have q: "\<not> pr_web_stop q" "pr_main q = Joining \<or> pr_main q = Ended_with Terminate"
    using one_more(3-6) by auto
  from one_more(2) show ?case
    using q inv one_more(7) \<open>pr_signals p \<le> pr_signals q\<close>
    by cases (auto simp: process_inv_def process_ended_def deliver_def Let_def)
qed simp

text \<open>A further signal that reaches Crow ends it.\<close>

lemma signalled_exits:
  assumes "pr_main p = Joining" "own_signals w" "pr_web p = Web_starting"
  shows "\<exists>q. process_steps w so L p q \<and> pr_main q = Ended_with (Exit 0)"
proof -
  let ?p1 = "p\<lparr>pr_web := Web_serving\<rparr>"
  have "process_step w so L p ?p1" using assms by (intro web_starts) (simp_all add: process_ended_def)
  moreover have "process_step w so L ?p1 (deliver w ?p1)"
    using assms by (intro signal) (simp add: process_ended_def)
  ultimately have s: "process_steps w so L p (deliver w ?p1)" by (blast intro: one_more no_step)
  have "pr_main (deliver w ?p1) = Joining" "pr_web_stop (deliver w ?p1)"
    using assms by (simp_all add: deliver_def Let_def)
  from joining_exits[OF this] process_steps_trans[OF _ s] show ?thesis by blast
qed

end
