(* ===== verification/Balance.thy ===== *)
theory Balance
  imports Supply
begin

text \<open>
  The balance that the HTTP server reports for an address: the sum of its unspent outputs that no pending
  transaction spends. The code adds in 64 bits; without shared identifiers and repeated inputs the sum is below
  what coinbases created, so it is exact while that fits.
\<close>

section \<open>The address index\<close>

lemma ledger_inv_apply_txs:
  "distinct (map txid (us @ vs)) \<Longrightarrow> \<forall>tx \<in> set vs. length (outputs tx) \<le> 2 ^ 32 \<Longrightarrow> ledger_inv l \<Longrightarrow>
   origin_ok (set us) l \<Longrightarrow> ledger_inv (fold apply_tx vs l)"
proof (induction vs arbitrary: us l)
  case (Cons tx vs)
  have new: "txid tx \<notin> txid ` set us" using Cons.prems(1) by auto
  have "fresh_tx tx l"
    unfolding fresh_tx_def
  proof (intro allI impI)
    fix op :: outpoint assume op: "op_txid op = txid tx"
    show "utxo l op = None"
    proof (rule ccontr)
      assume "utxo l op \<noteq> None"
      with Cons.prems(4) obtain t where "t \<in> set us" "txid t = op_txid op"
        by (auto simp: origin_ok_def created_by_def)
      with new op show False by (metis image_eqI)
    qed
  qed
  then have inv: "ledger_inv (apply_tx tx l)" using Cons.prems by (simp add: ledger_inv_apply_tx)
  have "origin_ok (set (us @ [tx])) l"
    using Cons.prems(4) by (fastforce simp: origin_ok_def created_by_def)
  then have "origin_ok (set (us @ [tx])) (apply_tx tx l)"
    using Cons.prems(2) by (intro origin_ok_apply_tx) simp_all
  with Cons.IH[of "us @ [tx]", OF _ _ inv] Cons.prems show ?case by simp
qed simp

lemma replay_all_txs: "replay blks = fold apply_tx (all_txs blks) empty_ledger"
proof -
  have "fold apply_block blks l = fold apply_tx (all_txs blks) l" for l :: ledger
    by (induction blks arbitrary: l) (simp_all add: apply_block_def all_txs_def)
  then show ?thesis by (simp add: replay_def)
qed

lemma ledger_inv_cong:
  "utxo l = utxo m \<Longrightarrow> address_utxo l = address_utxo m \<Longrightarrow> ledger_inv l \<longleftrightarrow> ledger_inv m"
  by (simp add: ledger_inv_def index_complete_def index_sound_def index_pruned_def index_distinct_def index_of_def)

lemma node_inv_ledger_inv:
  assumes inv: "node_inv so contents c" and d: "distinct_ids (blocks c)"
  shows "ledger_inv c"
proof -
  have n: "\<forall>tx \<in> set (all_txs (blocks c)). length (outputs tx) \<le> 2 ^ 32"
    using inv by (force simp: node_inv_def disk_inv_def list_all_iff all_txs_def block_ok_def framed_ok_def tx_ok_def)
  have "ledger_inv (replay (blocks c))"
    unfolding replay_all_txs
    by (rule ledger_inv_apply_txs[of "[]"])
      (use d n in \<open>simp_all add: distinct_ids_def origin_ok_def empty_ledger_def ledger_inv_empty\<close>)
  moreover have rep: "ledger.truncate c = replay (blocks c)" using inv by (simp add: node_inv_def history_inv_def)
  ultimately show ?thesis
    using ledger_inv_cong[of c "replay (blocks c)"] by (metis address_utxo_truncate utxo_truncate)
qed


section \<open>The sum\<close>

definition spendable :: "address \<Rightarrow> 'db chain \<Rightarrow> outpoint set" where
  "spendable addr c = {op. \<exists>out. utxo c op = Some out \<and> recipient out = addr \<and> pool_spent c op = None}"

lemma word_sum_exact:
  "unat (b :: u64) + (\<Sum>p \<leftarrow> ps. unat (snd p)) < 2 ^ 64 \<Longrightarrow>
   unat (foldl (\<lambda>b p. b + snd p) b ps) = unat b + (\<Sum>p \<leftarrow> ps. unat (snd p))"
proof (induction ps arbitrary: b)
  case (Cons p ps)
  then have "unat (b + snd p) = unat b + unat (snd p)" by (simp add: unat_word_ariths)
  with Cons show ?case by simp
qed simp

lemma spendable_value:
  assumes "ledger_inv c" "get_utxos addr [] c = Inr res"
  shows "(\<Sum>p \<leftarrow> res. unat (snd p)) = (\<Sum>op \<in> spendable addr c. unat (amount (the (utxo c op))))"
proof -
  let ?ops = "filter (\<lambda>op. pool_spent c op = None) (index_of addr c)"
  have res: "res = map (\<lambda>op. (op, amount (the (utxo c op)))) ?ops"
    using assms by (simp add: get_utxos_Inr ledger_inv_def)
  have "set ?ops = spendable addr c"
    using assms(1) unfolding ledger_inv_def index_sound_def index_complete_def spendable_def by auto
  moreover have "distinct ?ops" using assms(1) by (simp add: ledger_inv_def index_distinct_def)
  ultimately show ?thesis
    unfolding res by (simp add: comp_def sum_list_distinct_conv_sum_set del: set_filter)
qed

lemma spendable_below_total:
  assumes "finite (dom (utxo c))"
  shows "(\<Sum>op \<in> spendable addr c. unat (amount (the (utxo c op)))) \<le> total_value c"
  unfolding total_value_def using assms by (intro sum_mono2) (auto simp: spendable_def)

lemma utxos_handler_balance:
  assumes inv: "ledger_inv c" "finite (dom (utxo c))" and fits: "total_value c < 2 ^ 64"
    and addr: "from_hex so 20 address_hex = Inr addr"
  shows "\<exists>res. get_utxos addr [] c = Inr res \<and>
    utxos_handler so address_hex c = Inr (json_response 200 (JObject
      [(''address'', JString (to_hex so addr)), (''utxos'', JArray (map (utxo_json so) res)),
       (''balance'', JNum (\<Sum>op \<in> spendable addr c. unat (amount (the (utxo c op)))))]))"
proof -
  obtain res where res: "get_utxos addr [] c = Inr res" using get_utxos_exact[OF inv(1)] by blast
  note sum = spendable_value[OF inv(1) res]
  have "unat (0 :: u64) + (\<Sum>p \<leftarrow> res. unat (snd p)) < 2 ^ 64"
    using spendable_below_total[OF inv(2), of addr] fits by (simp add: sum)
  from word_sum_exact[OF this] show ?thesis using res addr by (simp add: utxos_handler_def sum)
qed

end
