(* ===== verification/Routes.thy ===== *)
theory Routes
  imports Balance
begin

text \<open>
  \<^verbatim>\<open>WebServer::setup_routes\<close>: the routes of \<^verbatim>\<open>src/web.cpp\<close> together. Crow chooses the route and extracts its
  parameters, so a request is the route with them. All handlers but that of submissions only
  read the chain. Shown: every request is answered, with which codes and headers.
\<close>

section \<open>Requests\<close>

datatype route =
    Route_status
  | Route_tip
  | Route_block string
  | Route_blocks "string option" "string option"
  | Route_mempool
  | Route_charts
  | Route_utxos string
  | Route_address string
  | Route_transaction "crow_body option"
  | Route_options string

datatype http_method = GET | POST | OPTIONS

fun route_of :: "route \<Rightarrow> http_method \<times> string" where
  "route_of Route_status = (GET, ''/api/status'')"
| "route_of Route_tip = (GET, ''/api/tip'')"
| "route_of (Route_block block_id) = (GET, ''/api/block/<string>'')"
| "route_of (Route_blocks start count) = (GET, ''/api/blocks'')"
| "route_of Route_mempool = (GET, ''/api/mempool'')"
| "route_of Route_charts = (GET, ''/api/charts'')"
| "route_of (Route_utxos address_hex) = (GET, ''/api/utxos/<string>'')"
| "route_of (Route_address address_hex) = (GET, ''/api/address/<string>'')"
| "route_of (Route_transaction request) = (POST, ''/api/transaction'')"
| "route_of (Route_options path) = (OPTIONS, ''/api/<path>'')"

text \<open>
  The answer: a response, an exception left to Crow, or none when the handler does not return. \<open>cs i h\<close> is the chain
  at call number \<open>i\<close> of a handler (for the charts, at the question of loop \<open>i - 1\<close> for height \<open>h\<close>), \<open>clock i\<close> the
  time at reading number \<open>i\<close>.
\<close>

datatype answer = Responds http_response | Throws exn | Never_returns

definition handle_route ::
    "sodium \<Rightarrow> 'db leveldb \<Rightarrow> (hash, transaction) map_iter \<Rightarrow> (nat \<Rightarrow> u64) \<Rightarrow> route \<Rightarrow>
     (nat \<Rightarrow> u32 \<Rightarrow> 'db chain) \<Rightarrow> answer" where
  "handle_route so L iter clock rt cs =
     (let utxos = (\<lambda>address_hex. case utxos_handler so address_hex (cs 0 0) of
                                   Inl e \<Rightarrow> Throws e | Inr r \<Rightarrow> Responds r)
      in case rt of
           Route_status \<Rightarrow> Responds (api_status so (cs 0 0) (cs 1 0) (cs 2 0))
         | Route_tip \<Rightarrow> Responds (api_tip so (cs 0 0) (cs 1 0))
         | Route_block block_id \<Rightarrow> Responds (api_block so block_id (cs 0 0))
         | Route_blocks start count \<Rightarrow> Responds (api_blocks so start count (cs 0 0) (cs 1 0))
         | Route_mempool \<Rightarrow> Responds (api_mempool so iter (cs 0 0))
         | Route_charts \<Rightarrow>
             (case api_charts (clock 0) (clock 1) (clock 2) (clock 3) (cs 0 0) (\<lambda>p. cs (Suc p)) of
                None \<Rightarrow> Never_returns | Some r \<Rightarrow> Responds r)
         | Route_utxos address_hex \<Rightarrow> utxos address_hex
         | Route_address address_hex \<Rightarrow> utxos address_hex
         | Route_transaction request \<Rightarrow>
             (case fst (api_transaction so L request (cs 0 0)) of
                Inl e \<Rightarrow> Throws e | Inr (r, tx) \<Rightarrow> Responds r)
         | Route_options path \<Rightarrow> Responds api_options)"


section \<open>Answers\<close>

text \<open>What \<^verbatim>\<open>json_response\<close> puts on every response.\<close>

definition json_headers :: "(string \<times> string) list" where
  "json_headers = [(''Content-Type'', ''application/json''), (''Access-Control-Allow-Origin'', ''*''),
     (''Access-Control-Allow-Methods'', ''GET, POST, OPTIONS''),
     (''Access-Control-Allow-Headers'', ''Content-Type, X-API-Key'')]"

lemma response_headers [simp]:
  "headers (json_response code j) = json_headers" "headers (error_response code m) = json_headers"
  by (simp_all add: json_headers_def json_response_def error_response_def)

text \<open>The codes of each route.\<close>

fun route_codes :: "route \<Rightarrow> nat set" where
  "route_codes Route_status = {200}"
| "route_codes Route_tip = {200, 404}"
| "route_codes (Route_block block_id) = {200, 400, 404}"
| "route_codes (Route_blocks start count) = {200, 400}"
| "route_codes Route_mempool = {200}"
| "route_codes Route_charts = {200}"
| "route_codes (Route_utxos address_hex) = {200, 400}"
| "route_codes (Route_address address_hex) = {200, 400}"
| "route_codes (Route_transaction request) = {200, 400, 413}"
| "route_codes (Route_options path) = {204}"

definition well_answered :: "nat set \<Rightarrow> http_response \<Rightarrow> bool" where
  "well_answered codes r \<longleftrightarrow> headers r = json_headers \<and> status r \<in> codes"

lemma well_answered_simps [simp]:
  "well_answered codes (json_response code j) \<longleftrightarrow> code \<in> codes"
  "well_answered codes (error_response code m) \<longleftrightarrow> code \<in> codes"
  by (simp_all add: well_answered_def)

text \<open>The exception is that of \<^verbatim>\<open>has\<close> for a body that is not an object.\<close>

fun has_throws :: "crow_body option \<Rightarrow> exn option" where
  "has_throws (Some (Crow_not_object e)) = e"
| "has_throws request = None"

lemma has_throws_Some: "has_throws request = Some e \<longleftrightarrow> request = Some (Crow_not_object (Some e))"
  by (cases request rule: has_throws.cases) auto

lemma api_transaction_answered:
  "case has_throws request of
     None \<Rightarrow> \<exists>r tx. fst (api_transaction so L request c) = Inr (r, tx) \<and> well_answered {200, 400, 413} r
   | Some e \<Rightarrow> fst (api_transaction so L request c) = Inl e"
  by (cases request rule: has_throws.cases)
    (auto simp: api_transaction_def submit_raw_tx_def ebind_def Let_def
      split: option.splits crow_value.splits sum.splits prod.splits)

lemma reading_routes_answered:
  "well_answered {200} (api_status so c1 c2 c3)" "well_answered {200, 404} (api_tip so c1 c2)"
  "well_answered {200, 400, 404} (api_block so block_id c)"
  "well_answered {200, 400} (api_blocks so start count c1 c2)"
  "well_answered {200} (api_mempool so iter c)" "well_answered {204} api_options"
  by (auto simp: api_status_def api_tip_def api_block_def api_blocks_def api_mempool_def api_options_def Let_def
      split: option.splits sum.splits)

lemma utxos_handler_answered:
  assumes "index_sound c"
  shows "\<exists>r. utxos_handler so address_hex c = Inr r \<and> well_answered {200, 400} r"
  using get_utxos_Inr[OF assms] by (cases "from_hex so 20 address_hex") (simp_all add: utxos_handler_def)

lemma api_charts_answered:
  assumes "unat now1 < 2 ^ 64 - 16" "unat now3 < 2 ^ 64 - 16"
  shows "\<exists>r. api_charts now1 now2 now3 now4 c cs = Some r \<and> well_answered {200} r"
  using chart_slots_Some[OF assms(1)] chart_slots_Some[OF assms(2)]
  by (auto simp: api_charts_def blocks_over_time_def avg_block_size_def Let_def)

text \<open>What a route answers: the exception of a body that is not an object, or a response.\<close>

definition answered :: "route \<Rightarrow> answer \<Rightarrow> bool" where
  "answered rt a \<longleftrightarrow>
     (case (case rt of Route_transaction request \<Rightarrow> has_throws request | _ \<Rightarrow> None) of
        Some e \<Rightarrow> a = Throws e
      | None \<Rightarrow> \<exists>r. a = Responds r \<and> well_answered (route_codes rt) r)"

lemma route_answered:
  assumes "\<And>a. rt = Route_utxos a \<or> rt = Route_address a \<Longrightarrow> index_sound (cs 0 0)"
    and "rt = Route_charts \<Longrightarrow> unat (clock 0) < 2 ^ 64 - 16 \<and> unat (clock 2) < 2 ^ 64 - 16"
  shows "answered rt (handle_route so L iter clock rt cs)"
proof (cases rt)
  case (Route_transaction request)
  then show ?thesis
    using api_transaction_answered[where request = request and so = so and L = L and c = "cs 0 0"]
    by (auto simp: answered_def handle_route_def split: option.splits)
next
  case (Route_utxos a)
  then obtain r where "utxos_handler so a (cs 0 0) = Inr r" "well_answered {200, 400} r"
    using utxos_handler_answered[OF assms(1)] by blast
  with Route_utxos show ?thesis by (simp add: answered_def handle_route_def)
next
  case (Route_address a)
  then obtain r where "utxos_handler so a (cs 0 0) = Inr r" "well_answered {200, 400} r"
    using utxos_handler_answered[OF assms(1)] by blast
  with Route_address show ?thesis by (simp add: answered_def handle_route_def)
next
  case Route_charts
  then obtain r where "api_charts (clock 0) (clock 1) (clock 2) (clock 3) (cs 0 0) (\<lambda>p. cs (Suc p)) = Some r"
    "well_answered {200} r"
    using api_charts_answered assms(2) by blast
  with Route_charts show ?thesis by (simp add: answered_def handle_route_def)
qed (simp_all add: answered_def handle_route_def reading_routes_answered)

end
