(* ===== verification/Test_Suite.thy ===== *)
theory Test_Suite
  imports Block
begin

text \<open>
  \<^verbatim>\<open>tests/core_serialization_tests.cpp\<close>: the test driver of the repository, each test as the conjunction of its
  assertions; an exception that leaves a test fails it.
\<close>

section \<open>Tests\<close>

definition test_tx_roundtrip :: "sodium \<Rightarrow> bool" where
  "test_tx_roundtrip so =
     (let alice = replicate 20 0x11; bob = replicate 20 0x22; id = replicate 32 0x33;
          original = mk_transaction so [\<lparr>op_txid = id, op_index = 7\<rparr>]
            [\<lparr>recipient = bob, amount = 42\<rparr>, \<lparr>recipient = alice, amount = 3\<rparr>] 123456789
      in case tx_of_bytes (tx_serialize_str original) of
           Inl e \<Rightarrow> False
         | Inr restored \<Rightarrow>
             txid restored = txid original \<and> tx_timestamp restored = tx_timestamp original \<and>
             length (inputs restored) = 1 \<and> op_txid (inputs restored ! 0) = id \<and>
             op_index (inputs restored ! 0) = 7 \<and> length (outputs restored) = 2 \<and>
             recipient (outputs restored ! 0) = bob \<and> amount (outputs restored ! 0) = 42)"

definition test_block_roundtrip :: "sodium \<Rightarrow> bool" where
  "test_block_roundtrip so =
     (let coinbase = mk_transaction so [] [\<lparr>recipient = replicate 20 0x44, amount = 99\<rparr>] 123456789;
          original = mk_block so (replicate 32 0x55) [coinbase] 123456789 9
      in case block_of_bytes so (block_serialize_str original) of
           Inl e \<Rightarrow> False
         | Inr restored \<Rightarrow>
             block_hash restored = block_hash original \<and>
             prev_hash (header restored) = prev_hash (header original) \<and>
             merkle_root (header restored) = merkle_root (header original) \<and>
             nonce (header restored) = nonce (header original) \<and>
             hd_timestamp (header restored) = hd_timestamp (header original) \<and>
             length (transactions restored) = 1 \<and>
             txid (transactions restored ! 0) = txid (transactions original ! 0))"

definition test_malformed_rejected :: bool where
  "test_malformed_rejected = (\<exists>e. tx_of_bytes [] = Inl (Runtime_error e))"

definition test_coinbase :: "sodium \<Rightarrow> bool" where
  "test_coinbase so = is_coinbase (mk_transaction so [] [\<lparr>recipient = replicate 20 0xAA, amount = 100\<rparr>] 0)"

definition test_merkle :: "sodium \<Rightarrow> bool" where
  "test_merkle so =
     (let a = replicate 32 1; b = replicate 32 2
      in compute_merkle_root so [a, b] = blake2b so (a @ b))"

text \<open>The driver, with the result of \<^verbatim>\<open>sodium_init\<close>: its exit code, or \<open>None\<close> when an assertion fails.\<close>

definition test_main :: "sodium \<Rightarrow> int \<Rightarrow> int option" where
  "test_main so sodium =
     (if sodium < 0 then Some 1
      else if test_tx_roundtrip so \<and> test_block_roundtrip so \<and> test_malformed_rejected \<and>
              test_coinbase so \<and> test_merkle so
      then Some 0 else None)"


section \<open>They pass\<close>

lemma test_tx_passes: "sodium_ok so \<Longrightarrow> test_tx_roundtrip so"
  unfolding test_tx_roundtrip_def Let_def
  by (subst tx_of_bytes_serialize[where rest = "[]", simplified])
    (simp_all add: tx_ok_def outpoint_ok_def txoutput_ok_def)

lemma test_block_passes:
  assumes "sodium_ok so"
  shows "test_block_roundtrip so"
  unfolding test_block_roundtrip_def Let_def
proof (subst block_of_bytes_serialize)
  show "block_ok so (mk_block so (replicate 32 0x55)
      [mk_transaction so [] [\<lparr>recipient = replicate 20 0x44, amount = 99\<rparr>] 123456789] 123456789 9)"
    using assms by (simp add: block_ok_def header_ok_def framed_ok_def tx_ok_def txoutput_ok_def
        length_tx_serialize compute_block_merkle_root_def length_compute_merkle_root)
qed simp

lemma test_malformed_passes: "test_malformed_rejected"
proof (cases "tx_of_bytes []")
  case (Inl e)
  then show ?thesis
    using tx_of_bytes_exn[OF Inl] by (simp add: test_malformed_rejected_def reader_eof_def)
next
  case (Inr tx)
  from tx_of_bytes_Inr[OF this] show ?thesis using length_tx_serialize[of tx] by auto
qed

lemma test_coinbase_passes: "test_coinbase so"
  by (simp add: test_coinbase_def is_coinbase_def)

lemma test_merkle_passes: "test_merkle so"
  by (simp add: test_merkle_def Let_def compute_merkle_root_two combine_hash_def)

lemma test_main_passes: "sodium_ok so \<Longrightarrow> 0 \<le> sodium \<Longrightarrow> test_main so sodium = Some 0"
  by (simp add: test_main_def test_tx_passes test_block_passes test_malformed_passes test_coinbase_passes
      test_merkle_passes)

end
