(* ===== verification/Server_Properties.thy ===== *)
theory Server_Properties
  imports Pending_Instance Lifecycle Routes Test_Suite
begin

text \<open>
  Properties of the running servers: the process from its start to its end, the sessions of TCP clients, the
  announcements, and what the HTTP server answers.
\<close>

section \<open>The process\<close>

lemma ex_system_eq: "\<lparr>sys_chain = ex_node, sys_conns = {}\<rparr> = ex_system"
  by (simp add: ex_system_def)

definition ex_process :: "(ex_db, nat, nat) process" where
  "ex_process = \<lparr>pr_server = do_accept (Server_init ex_system), pr_main = Starting, pr_web = Web_starting,
     pr_web_stop = False, pr_signals = 0, pr_caught = False\<rparr>"

lemma ex_process_start: "process_start 0 (Inr ex_node) (Inr ()) = Inr ex_process"
  by (simp add: process_start_def ex_process_def ex_system_def)

text \<open>The process in its loop, and after a signal, at the end of the loop and joining its web thread.\<close>

definition ex_serving :: "(ex_db, nat, nat) process" where
  "ex_serving = ex_process\<lparr>pr_main := Serving\<rparr>"

definition ex_signalled :: "crow_conduct \<Rightarrow> (ex_db, nat, nat) process" where
  "ex_signalled w = on_signal w (deliver w ex_serving)"

definition ex_joining :: "crow_conduct \<Rightarrow> (ex_db, nat, nat) process" where
  "ex_joining w = web_stop w ((ex_signalled w)\<lparr>pr_main := Joining\<rparr>)"

lemmas ex_process_defs = ex_process_def ex_serving_def ex_signalled_def ex_joining_def deliver_def on_signal_def
  web_stop_def process_ended_def Let_def

lemma ex_serving_steps: "process_steps w so L ex_process ex_serving"
  unfolding ex_serving_def by (rule one_step, rule signals_wait) (simp add: ex_process_def)

lemma ex_signalled_steps: "process_steps w so L ex_process (ex_signalled w)"
proof -
  have "process_step w so L ex_serving (deliver w ex_serving)" by (rule signal) (simp add: ex_process_defs)
  moreover have "process_step w so L (deliver w ex_serving) (ex_signalled w)"
    unfolding ex_signalled_def by (rule signal_handler) (simp_all add: ex_process_defs server_defs)
  ultimately show ?thesis by (blast intro: one_more ex_serving_steps)
qed

lemma ex_loop_ends: "process_step w so L (ex_signalled w) (ex_joining w)"
  unfolding ex_joining_def
  by (rule server_returns) (simp_all add: ex_process_defs run_returns_def server_stop_def)



text \<open>The process is the servers with its signals and its end.\<close>

lemma process_refines_system:
  fixes p q :: "('db, 'conn, 'client) process"
  assumes "process_start sodium (Inr c) servers = Inr p"
    and "reachable so L (\<lparr>sys_chain = c, sys_conns = {}\<rparr> :: ('db, 'conn) system)"
    and "process_steps w so L p q"
  shows "reachable so L (sv_system (pr_server q))"
proof -
  obtain tr where "runs so L \<lparr>sys_chain = c, sys_conns = {}\<rparr> tr (pr_server q)"
    using process_steps_inv[OF assms(3) process_start_inv[OF assms(1)]] unfolding process_inv_def by blast
  then show ?thesis using run_chain.holds assms(2) unfolding refines_def by blast
qed

text \<open>C23. Until a signal is delivered the process is serving, or an exception has terminated it: the main thread does
  not leave the loop of the TCP server and the HTTP server does not stop. While the loop is not stopped, whatever
  the thread is doing, a client that is not connected yet can connect, send any message and have it handled and the
  reply written, with at most one handler finishing before. And when \<^verbatim>\<open>main\<close> returns, it returns 0,
  after a signal, with both servers stopped.\<close>

theorem process_serves_until_signal:
  fixes p q :: "('db, 'conn, 'client) process"
  assumes "process_start sodium (Inr c) servers = Inr p" "process_steps w so L p q"
  shows "(pr_signals q = 0 \<longrightarrow> pr_main q \<in> {Starting, Serving, Ended_with Terminate} \<and> pr_web q \<noteq> Web_returned) \<and>
    (pr_main q = Serving \<and> \<not> sv_stopped (pr_server q) \<and> sv_sessions (pr_server q) k = None \<and>
       length payload + 2 < 2 ^ 32 \<and> Suc (length (blocks (sv_chain (pr_server q)))) < 2 ^ 32 \<longrightarrow>
     (\<exists>(x :: ('db, 'conn, 'client) process) c r se. process_steps w so L q x \<and> pr_main x = Serving \<and>
        handle_msg so L iter ty payload c = (r, sv_chain (pr_server x)) \<and>
        (sv_task (pr_server q) = None \<longrightarrow> c = sv_chain (pr_server q)) \<and>
        sv_sessions (pr_server x) k = Some se \<and> se_written se = reply_bytes r)) \<and>
    (\<forall>code. pr_main q = Ended_with (Exit code) \<longrightarrow>
       code = 0 \<and> 0 < pr_signals q \<and> sv_stopped (pr_server q) \<and> pr_web q = Web_returned)"
proof -
  have inv: "process_inv w so L \<lparr>sys_chain = c, sys_conns = {}\<rparr> q"
    by (rule process_steps_inv[OF assms(2) process_start_inv[OF assms(1)]])
  have exits: "code = 0 \<and> 0 < pr_signals q \<and> sv_stopped (pr_server q) \<and> pr_web q = Web_returned"
    if "pr_main q = Ended_with (Exit code)" for code
    using inv that by (auto simp: process_inv_def)
  have "pr_main q \<in> {Starting, Serving, Ended_with Terminate} \<and> pr_web q \<noteq> Web_returned" if "pr_signals q = 0"
  proof -
    have q: "\<not> sv_stopped (pr_server q)" "pr_main q \<noteq> Killed" "pr_web q \<noteq> Web_returned"
      using inv that by (auto simp: process_inv_def)
    then have "pr_main q \<noteq> Joining" using inv by (auto simp: process_inv_def)
    moreover have "pr_main q \<noteq> Ended_with (Exit code)" for code using exits that by auto
    ultimately have "pr_main q \<in> {Starting, Serving, Ended_with Terminate}"
      using q(2) by (metis insertCI main_point.exhaust outcome.exhaust)
    with q(3) show ?thesis by blast
  qed
  with exits process_serves[OF inv] show ?thesis by blast
qed

theorem process_serves_until_signal_witness:
  "\<exists>(x :: (ex_db, nat, nat) process) r se. process_steps \<lparr>keeps_stop = False, own_signals = False\<rparr>
       ex_sodium ex_leveldb ex_serving x \<and> pr_main x = Serving \<and>
     handle_msg ex_sodium ex_leveldb (\<lambda>_. []) (msg_code GetTip) [] ex_node = (r, sv_chain (pr_server x)) \<and>
     sv_sessions (pr_server x) 0 = Some se \<and> se_written se = reply_bytes r"
proof -
  have "pr_main ex_serving = Serving \<and> \<not> sv_stopped (pr_server ex_serving) \<and>
      sv_sessions (pr_server ex_serving) 0 = None \<and> sv_task (pr_server ex_serving) = None \<and>
      sv_chain (pr_server ex_serving) = ex_node"
    by (simp add: ex_process_defs server_defs ex_system_def)
  moreover have "length ([] :: bytes) + 2 < 2 ^ 32" "Suc (length (blocks ex_node)) < 2 ^ 32"
    by (simp_all add: ex_node_blocks)
  ultimately show ?thesis
    using process_serves_until_signal[OF ex_process_start ex_serving_steps[of "\<lparr>keeps_stop = False, own_signals = False\<rparr>" ex_sodium ex_leveldb], of 0 "[]" "\<lambda>_. []"
        "msg_code GetTip"] by metis
qed

text \<open>C24. Shutting down: when the main thread leaves its loop it stops the HTTP server as well. From then on the process
  can exit with code 0 without another signal exactly if that stop reaches Crow: Crow remembers a stop that comes before
  its \<^verbatim>\<open>run\<close>, or the web thread had reached \<^verbatim>\<open>run\<close> by then. Otherwise the process waits for the web thread
  and exits only if a further signal comes that Crow handles itself.\<close>

theorem shutdown_completes:
  assumes "process_start sodium (Inr c) servers = Inr p" "process_steps w so L p q"
    and "process_step w so L q r" "pr_main q = Serving" "pr_main r = Joining"
  shows "((\<exists>x. process_steps w so L r x \<and> pr_main x = Ended_with (Exit 0) \<and> pr_signals x = pr_signals r) \<longleftrightarrow>
      keeps_stop w \<or> pr_web q \<noteq> Web_starting) \<and>
    ((\<exists>x. process_steps w so L r x \<and> pr_main x = Ended_with (Exit 0)) \<longleftrightarrow>
      keeps_stop w \<or> pr_web q \<noteq> Web_starting \<or> own_signals w)"
proof -
  have inv: "process_inv w so L \<lparr>sys_chain = c, sys_conns = {}\<rparr> q"
    by (rule process_steps_inv[OF assms(2) process_start_inv[OF assms(1)]])
  from assms(3-5) have r: "r = web_stop w (q\<lparr>pr_main := Joining\<rparr>)"
    by (cases rule: process_step.cases) (auto simp: on_signal_def web_stop_def deliver_def Let_def)
  have web: "pr_web r = pr_web q" by (simp add: r web_stop_def)
  have stop: "pr_web_stop r \<longleftrightarrow> keeps_stop w \<or> pr_web q \<noteq> Web_starting"
    using inv by (auto simp: r web_stop_def process_inv_def)
  note lost = lost_stop_hangs[OF _ process_step_inv[OF assms(3) inv] assms(5)]
  show ?thesis
  proof (cases "pr_web_stop r")
    case True
    with joining_exits[OF assms(5)] stop show ?thesis by metis
  next
    case False
    then have "\<not> (\<exists>x. process_steps w so L r x \<and> pr_main x = Ended_with (Exit 0) \<and>
        (\<not> own_signals w \<or> pr_signals x = pr_signals r))"
      using lost by fastforce
    with False stop signalled_exits[OF assms(5), of w so L] web show ?thesis by metis
  qed
qed

theorem shutdown_completes_witness:
  "(\<exists>x. process_steps \<lparr>keeps_stop = True, own_signals = False\<rparr> ex_sodium ex_leveldb
      (ex_joining \<lparr>keeps_stop = True, own_signals = False\<rparr>) x \<and> pr_main x = Ended_with (Exit 0)) \<and>
   \<not> (\<exists>x. process_steps \<lparr>keeps_stop = False, own_signals = False\<rparr> ex_sodium ex_leveldb
      (ex_joining \<lparr>keeps_stop = False, own_signals = False\<rparr>) x \<and> pr_main x = Ended_with (Exit 0))"
proof -
  have "pr_main (ex_signalled w) = Serving" "pr_main (ex_joining w) = Joining" "pr_web (ex_signalled w) = Web_starting" for w
    by (simp_all add: ex_process_defs)
  then show ?thesis
    using shutdown_completes[OF ex_process_start ex_signalled_steps ex_loop_ends, of _ ex_sodium ex_leveldb] by simp
qed


section \<open>Sessions\<close>

text \<open>C9. Whatever clients send in whatever pieces, and however the sessions and the HTTP threads interleave: the
  bytes taken from a client are the frames of its handled messages, in order, followed by what is begun of the
  next; the bytes written to it are the replies to them, in order, up to what is still due. An idle session
  has nothing begun and nothing due.\<close>

theorem clients_answered_in_order:
  assumes "runs so L sys tr s" "sv_sessions s k = Some se" "ms = messages_of k tr"
  shows "\<exists>begun due. take (se_taken se) (se_received se) =
      concat (map (\<lambda>(ty, payload, r). encode_frame ty payload) ms) @ begun \<and>
    concat (map (\<lambda>(ty, payload, r). reply_bytes r) ms) = se_written se @ due \<and>
    (se_point se = Await_size \<longrightarrow> begun = [] \<and> due = [])"
  using sessions_okD(1)[OF run_sessions.holds[OF assms(1)] assms(2)] assms(3)
  by (cases "se_point se = Ended") (auto simp: stream_ok_def begun_def due_def)

theorem clients_answered_in_order_witness:
  "\<exists>tr (s :: (ex_db, nat, nat) server) se. runs ex_sodium ex_leveldb ex_system tr s \<and>
    sv_task s = Some (Handling 0 5 [] []) \<and> sv_sessions s 0 = Some se \<and>
    (\<exists>begun due. take (se_taken se) (se_received se) =
        concat (map (\<lambda>(ty, payload, r). encode_frame ty payload) (messages_of 0 tr)) @ begun \<and>
      concat (map (\<lambda>(ty, payload, r). reply_bytes r) (messages_of 0 tr)) = se_written se @ due \<and>
      (se_point se = Await_size \<longrightarrow> begun = [] \<and> due = []))"
proof -
  obtain s0 :: "(ex_db, nat, nat) server" and se where s0: "runs ex_sodium ex_leveldb ex_system [Quiet] s0"
    "\<not> sv_stopped s0" "sv_task s0 = None" "sv_sessions s0 0 = Some se" "se_point se = Await_size"
    "se_taken se = length (se_received se)"
    using client_connects[of ex_sodium ex_leveldb ex_system 0] by blast
  from frame_handled[OF this, of "[]" 5] obtain s :: "(ex_db, nat, nat) server" and se' where
    s: "runs ex_sodium ex_leveldb ex_system ([Quiet] @ [Quiet, Quiet, Quiet]) s"
      "sv_task s = Some (Handling 0 5 [] [])" "sv_sessions s 0 = Some se'" by auto
  from clients_answered_in_order[OF s(1,3) refl] s show ?thesis by blast
qed



section \<open>Announcements\<close>

lemma ex_overtaking:
  "\<exists>tr (s :: (ex_db, nat, nat) server). runs ex_sodium ex_leveldb ex_system tr s \<and>
     announced tr = [On_block_accepted ex_listed_block, On_tx_accepted ex_spend]"
proof -
  obtain response where http: "api_transaction ex_sodium ex_leveldb ex_request (sys_chain ex_system) =
      (Inr (response, Some ex_spend), ex_paid)"
    using ex_http_pays by (auto simp: ex_system_def)
  obtain re c' where "on_create_block ex_sodium ex_leveldb (put_create_block ex_listing []) ex_paid = (re, c')"
    "events re = [On_block_accepted ex_listed_block]"
    by (rule ex_listing_confirmed)
  from overtaking_run[OF http this] show ?thesis
    by (auto simp: ex_paid_fields length_put_create_block[OF ex_listing_ok]) (auto simp: ex_listing_def)
qed

text \<open>C10. The accepted blocks are announced once each and in the order of the chain: the chain is the one at the
  start, followed by the blocks announced so far and the one whose announcement is under way.\<close>

theorem blocks_announced_in_order:
  assumes "runs so L sys tr s"
  shows "blocks (sv_chain s) =
    blocks (sys_chain sys) @ concat (map block_of (announced tr @ pending_events (sv_task s)))"
  using block_news.holds[OF assms] by (simp add: blocks_announced_def)

theorem blocks_announced_in_order_witness:
  "\<exists>tr (s :: (ex_db, nat, nat) server). runs ex_sodium ex_leveldb ex_system tr s \<and>
     blocks (sv_chain s) = [ex_genesis, ex_listed_block] @ concat (map block_of (pending_events (sv_task s)))"
proof -
  obtain tr and s :: "(ex_db, nat, nat) server" where run: "runs ex_sodium ex_leveldb ex_system tr s"
    and tr: "announced tr = [On_block_accepted ex_listed_block, On_tx_accepted ex_spend]"
    using ex_overtaking by blast
  from blocks_announced_in_order[OF run]
  have "blocks (sv_chain s) = [ex_genesis, ex_listed_block] @ concat (map block_of (pending_events (sv_task s)))"
    unfolding tr by (simp add: ex_system_def ex_node_blocks)
  with run show ?thesis by blast
qed

text \<open>C15. With databases that do not fail, every transaction that enters the pool, over either server, has been
  announced or its announcement is under way.\<close>

theorem pending_transactions_announced:
  assumes "runs so L sys tr s" "db_reliable L"
    and "pool (sv_chain s) h = Some tx" "pool (sys_chain sys) h \<noteq> Some tx"
  shows "On_tx_accepted tx \<in> set (announced tr) \<or> On_tx_accepted tx \<in> set (pending_events (sv_task s)) \<or>
    tx \<in># sv_announcing s"
  using pool_news.holds[OF assms(1)] assms(2-4) by (auto simp: pool_announced_def)

theorem pending_transactions_announced_witness:
  "\<exists>tr (s :: (ex_db, nat, nat) server). runs ex_sodium ex_leveldb ex_system tr s \<and>
     pool (sv_chain s) (txid ex_spend) = Some ex_spend \<and>
     (On_tx_accepted ex_spend \<in> set (announced tr) \<or> On_tx_accepted ex_spend \<in> set (pending_events (sv_task s)) \<or>
      ex_spend \<in># sv_announcing s)"
proof -
  let ?s = "do_accept (Server_init ex_system) :: (ex_db, nat, nat) server"
  obtain response where "api_transaction ex_sodium ex_leveldb ex_request (sv_chain ?s) =
      (Inr (response, Some ex_spend), ex_paid)"
    using ex_http_pays by (auto simp: ex_system_def server_defs)
  from run_web[OF run_starts http_submits[OF this]]
  have run: "runs ex_sodium ex_leveldb ex_system ([] @ [Quiet]) (http_submit_effect (Some ex_spend) ex_paid ?s)" .
  have p: "pool (sv_chain (http_submit_effect (Some ex_spend) ex_paid ?s)) (txid ex_spend) = Some ex_spend"
    "pool (sys_chain ex_system) (txid ex_spend) \<noteq> Some ex_spend"
    by (simp_all add: http_submit_effect_def ex_paid_fields ex_system_def ex_node_fields)
  from pending_transactions_announced[OF run ex_leveldb_reliable p] run p(1) show ?thesis by blast
qed

text \<open>C29. The order of announcements is not that of the chain: when a transaction is submitted over HTTP and a
  block that is being submitted over TCP confirms it, the WebSocket connections may be told of the block before they
  are told of the transaction.\<close>

theorem announcement_overtaken:
  fixes sys :: "('db, 'conn) system"
  assumes "api_transaction so L request (sys_chain sys) = (Inr (response, Some tx), c)"
    and "on_create_block so L payload c = (re, c')" "events re = [On_block_accepted blk]"
    and "length payload + 2 < 2 ^ 32" "length (blocks c) < 2 ^ 32"
  shows "\<exists>tr (s :: ('db, 'conn, 'client) server). runs so L sys tr s \<and> sv_chain s = c' \<and>
    announced tr = [On_block_accepted blk, On_tx_accepted tx]"
  by (rule overtaking_run[OF assms])

theorem announcement_overtaken_witness:
  "ex_spend \<in> set (transactions ex_listed_block) \<and>
   (\<exists>tr (s :: (ex_db, nat, nat) server). runs ex_sodium ex_leveldb ex_system tr s \<and>
      announced tr = [On_block_accepted ex_listed_block, On_tx_accepted ex_spend])"
proof -
  obtain response where http: "api_transaction ex_sodium ex_leveldb ex_request (sys_chain ex_system) =
      (Inr (response, Some ex_spend), ex_paid)"
    using ex_http_pays by (auto simp: ex_system_def)
  obtain re c' where tcp: "on_create_block ex_sodium ex_leveldb (put_create_block ex_listing []) ex_paid = (re, c')"
    "events re = [On_block_accepted ex_listed_block]"
    by (rule ex_listing_confirmed)
  have "length (put_create_block ex_listing []) + 2 < 2 ^ 32" "length (blocks ex_paid) < 2 ^ 32"
    by (simp_all add: ex_paid_fields length_put_create_block[OF ex_listing_ok]) (simp add: ex_listing_def)
  from announcement_overtaken[OF http tcp this] show ?thesis by (auto simp: ex_listed_block_def)
qed



section \<open>The HTTP server\<close>

text \<open>C25. What each route answers in a reachable state. A handler always returns, its response has one of the
  codes of its route, and the headers declare JSON and allow every origin. An exception reaches Crow exactly for a
  transaction whose body is JSON but not an object, when Crow's \<^verbatim>\<open>has\<close> throws for it. The queries of an
  address need that no two transactions share an identifier, the charts that the clock is before the last
  16 seconds of 64 bits.\<close>

theorem every_route_answers:
  assumes "leveldb_ok L contents" "db_reliable L" "sodium_ok so" "reachable so L s"
    and "cs 0 0 = sys_chain s"
    and "\<And>a. rt = Route_utxos a \<or> rt = Route_address a \<Longrightarrow> inj_on txid (block_txs (blocks (sys_chain s)))"
    and "rt = Route_charts \<Longrightarrow> unat (clock 0) < 2 ^ 64 - 16 \<and> unat (clock 2) < 2 ^ 64 - 16"
  shows "handle_route so L iter clock rt cs \<noteq> Never_returns \<and>
    (\<forall>e. handle_route so L iter clock rt cs = Throws e \<longleftrightarrow> rt = Route_transaction (Some (Crow_not_object (Some e)))) \<and>
    (\<forall>r. handle_route so L iter clock rt cs = Responds r \<longrightarrow> status r \<in> route_codes rt \<and>
      headers r = [(''Content-Type'', ''application/json''), (''Access-Control-Allow-Origin'', ''*''),
        (''Access-Control-Allow-Methods'', ''GET, POST, OPTIONS''),
        (''Access-Control-Allow-Headers'', ''Content-Type, X-API-Key'')])"
proof -
  have "answered rt (handle_route so L iter clock rt cs)"
    using reachable_index[OF assms(1-4)] assms(5-7) by (intro route_answered) auto
  then show ?thesis
    by (cases rt) (auto simp: answered_def well_answered_def json_headers_def has_throws_Some split: option.splits)
qed

theorem every_route_answers_witness:
  "\<exists>r. handle_route ex_sodium ex_leveldb (\<lambda>_. []) (\<lambda>_. 1781548000) Route_charts (\<lambda>_ _. ex_node) = Responds r \<and>
     status r = 200"
proof (cases "handle_route ex_sodium ex_leveldb (\<lambda>_. []) (\<lambda>_. 1781548000) Route_charts (\<lambda>_ _. ex_node)")
qed (use every_route_answers[OF ex_leveldb_ok ex_leveldb_reliable ex_sodium_ok ex_reachable,
      of "\<lambda>_ _. ex_node" Route_charts "\<lambda>_. 1781548000" "\<lambda>_. []"] in \<open>auto simp: ex_system_def ex_system_one_tx\<close>)

text \<open>C26. The charts are consistent although the handler asks the chain for one block at a time: whatever blocks
  other threads append meanwhile, the answer is the one for the chain at the moment the height was read.\<close>

theorem charts_consistent:
  assumes "leveldb_ok L contents" "db_reliable L" "sodium_ok so" "reachable so L s" "c = sys_chain s"
    and "\<And>p h. \<exists>bs. blocks (cs p h) = blocks c @ bs"
  shows "api_charts now1 now2 now3 now4 c cs = api_charts now1 now2 now3 now4 c (\<lambda>_ _. c)"
proof (rule api_charts_atomic)
  have "height c = word_of_nat (length (blocks c))"
    using reachable_system_inv[OF assms(1-4)] assms(5)
    by (simp add: system_inv_def node_inv_def history_inv_def height_def)
  then show "unat (height c) \<le> length (blocks c)" by (simp add: unsigned_of_nat take_bit_eq_mod)
qed (rule assms(6))

theorem charts_consistent_witness:
  "api_charts 1781548000 1781548000 1781548000 1781548001 ex_node
     (\<lambda>p h. ex_node\<lparr>blocks := [ex_genesis, ex_listed_block]\<rparr>) =
   api_charts 1781548000 1781548000 1781548000 1781548001 ex_node (\<lambda>_ _. ex_node)"
  by (rule charts_consistent[OF ex_leveldb_ok ex_leveldb_reliable ex_sodium_ok ex_reachable])
    (simp_all add: ex_system_def ex_node_blocks)

text \<open>C11. When the balance reported for an address is exact: in every reachable state, crashes included, whose chain
  has no two transactions with the same identifier, no transaction that lists an input twice, and coinbases worth
  less than \<open>2 ^ 64\<close> together, it is the sum of the unspent outputs of the address that no pending transaction
  spends. Without the first condition it is wrong: \<open>repeated_coinbase_doubles_balance\<close>.\<close>

theorem balance_exact:
  assumes "leveldb_ok L contents" "db_reliable L" "sodium_ok so" "reachable_crash so L s"
    and "c = sys_chain s" "txs = concat (map transactions (blocks c))"
    and "distinct (map txid txs)" "\<forall>tx \<in> set txs. distinct (inputs tx)"
    and "(\<Sum>tx \<leftarrow> txs. if is_coinbase tx then outputs_value (outputs tx) else 0) < 2 ^ 64"
    and "from_hex so 20 address_hex = Inr addr"
  shows "\<exists>res. get_utxos addr [] c = Inr res \<and>
    utxos_handler so address_hex c = Inr (json_response 200 (JObject
      [(''address'', JString (to_hex so addr)), (''utxos'', JArray (map (utxo_json so) res)),
       (''balance'', JNum (\<Sum>op \<in> {op. \<exists>out. utxo c op = Some out \<and> recipient out = addr \<and> pool_spent c op = None}.
          unat (amount (the (utxo c op)))))]))"
proof -
  have inv: "supply_inv c" using reachable_crash_supply[OF assms(1-4)] assms(5) by simp
  have node: "node_inv so contents c"
    using reachable_crash_inv[OF assms(1-4)] assms(5) by (simp add: system_inv_def)
  have ids: "distinct_ids (blocks c)" using assms(6,7) by (simp add: distinct_ids_def all_txs_def)
  have "total_value c < 2 ^ 64"
    using inv ids assms(6,8,9)
    by (simp add: supply_inv_def distinct_inputs_def all_txs_def minted_by_def is_coinbase_def)
  moreover have "finite (dom (utxo c))" using inv by (simp add: supply_inv_def)
  ultimately show ?thesis
    using utxos_handler_balance[OF node_inv_ledger_inv[OF node ids] _ _ assms(10)] by (simp add: spendable_def)
qed

theorem balance_exact_witness:
  "\<exists>res. get_utxos ex_addr [] ex_node = Inr res \<and>
    utxos_handler ex_sodium (to_hex ex_sodium ex_addr) ex_node = Inr (json_response 200 (JObject
      [(''address'', JString (to_hex ex_sodium ex_addr)), (''utxos'', JArray (map (utxo_json ex_sodium) res)),
       (''balance'', JNum 15000000)]))"
proof -
  have txs: "concat (map transactions (blocks ex_node)) = transactions ex_genesis"
    by (simp add: ex_node_blocks)
  have c: "sys_chain ex_system = ex_node" by (simp add: ex_system_def)
  have "{op. \<exists>out. utxo ex_node op = Some out \<and> recipient out = ex_addr \<and> pool_spent ex_node op = None} = {ex_op}"
    by (auto simp: ex_node_fields split: if_splits)
  moreover have "from_hex ex_sodium 20 (to_hex ex_sodium ex_addr) = Inr ex_addr"
    using hex_roundtrip[OF ex_sodium_ok, of ex_addr] by (simp add: length_ex_addr)
  ultimately show ?thesis
    using balance_exact[OF ex_leveldb_ok ex_leveldb_reliable ex_sodium_ok without_crash[OF ex_reachable] c[symmetric]
        txs[symmetric], of "to_hex ex_sodium ex_addr" ex_addr]
    by (simp add: ex_genesis_def genesis_block_def Let_def is_coinbase_def outputs_value_def UNITS_def ex_node_fields)
qed

end
