(* ===== verification/Spec2Isabelle.thy ===== *)
theory Spec2Isabelle
  imports Codec_Properties Ledger_Properties Chain_Properties Node_Properties Fault_Properties Program_Properties
    Console_Properties Server_Properties
begin

text \<open>
  Axis, a node of a blockchain with unspent transaction outputs (C++23, \<^verbatim>\<open>include/axis\<close> and \<^verbatim>\<open>src\<close>). This
  development models the program and proves what its parts promise and what the whole keeps.

  \<^bold>\<open>The program.\<close> \<^verbatim>\<open>Chain\<close> holds the accepted blocks, the unspent outputs with an index by address, and the
  pool of pending transactions, with two LevelDB databases behind it. Two servers share it: \<^verbatim>\<open>Server\<close>
  speaks a binary protocol over TCP on one thread, \<^verbatim>\<open>WebServer\<close> speaks HTTP and WebSocket on its own
  threads. Every public method of \<^verbatim>\<open>Chain\<close> holds the lock for its whole body. Wallets submit signed
  transactions (over either server), miners submit blocks over TCP that name pending transactions
  by identifier. \<^verbatim>\<open>main\<close> forwards accepted transactions and blocks to the WebSocket connections.

  \<^bold>\<open>Theories and sources.\<close>
    \<^item> \<^verbatim>\<open>Axis_Prelude\<close>: machine words, the exceptions as values, actions on a state that may throw.
    \<^item> Wire: \<^verbatim>\<open>Writer\<close> and \<^verbatim>\<open>Reader\<close> of \<^verbatim>\<open>types.h\<close>. The contract between a writer method and its reader method is
      the locale \<open>lax_codec\<close> (what was written is read back) and its extension \<open>codec\<close> (nothing else is
      accepted), with sequences (\<open>codec_seq\<close>) and counted lists built once inside them; interpreted on every
      pair of methods here, and on out-points, outputs, transactions, headers, blocks and requests in
      the theories below.
    \<^item> Crypto: \<^verbatim>\<open>crypto.cpp\<close> and the conversions of \<^verbatim>\<open>util.h\<close>; the Merkle loop and its specification as a tree.
      Calendar: \<^verbatim>\<open>format_timestamp\<close> of \<^verbatim>\<open>util.h\<close>, with what it uses of \<^verbatim>\<open>gmtime\<close> and \<^verbatim>\<open>strftime\<close>.
    \<^item> Tx, Block: \<^verbatim>\<open>tx.h/.cpp\<close>, \<^verbatim>\<open>block.h/.cpp\<close>: constructors, identifiers, binary forms.
    \<^item> Ledger: \<^verbatim>\<open>Chain::apply_tx\<close> and \<^verbatim>\<open>rebuild_utxo\<close> on \<^verbatim>\<open>utxo_\<close> and \<^verbatim>\<open>address_utxo_\<close> (record \<open>ledger\<close>); the exact effect
      on the unspent outputs, the agreement of index and outputs, the total value.
    \<^item> Storage: the keys of the databases and the order of the block keys.
    \<^item> Chain: the state (record \<open>chain\<close>, extending \<open>ledger\<close>) and every method of \<^verbatim>\<open>chain.cpp\<close>: queries, start-up
      (\<open>Chain_init\<close>), \<open>add_tx\<close>, \<open>add_block\<close>. A method that may throw returns the exception together with
      the state it leaves behind.
    \<^item> \<^verbatim>\<open>Chain_Queries\<close>: what the queries return. Mempool: what \<open>add_tx\<close> accepts, stated over unbounded sums
      (\<open>tx_acceptable\<close>), and the invariant of the pool. Recovery: the ledger as a replay of the blocks, the
      contents of the databases, and that constructing a \<^verbatim>\<open>Chain\<close> from them restores the state.
    \<^item> Net: \<^verbatim>\<open>net.h/.cpp\<close>: message types, replies, the two request parsers, every handler, the session loop.
      Node: the request formats as writers, the two handlers that change the state, the invariant \<open>node_inv\<close>.
    \<^item> Web, Charts, \<^verbatim>\<open>Web_Facts\<close>: \<^verbatim>\<open>web.h/.cpp\<close>: every route with its JSON reply, the submission of a
      transaction, the WebSocket callbacks, the charts; facts about them.
    \<^item> Consensus: what accepted blocks have in common, and that the tip commits to all headers.
    \<^item> Console: what is written to the console: log lines, the stream operators of \<^verbatim>\<open>tx.cpp\<close> and \<^verbatim>\<open>block.cpp\<close>,
      \<^verbatim>\<open>dump_utxo\<close>, the report of the constructor (\<open>Chain_start\<close>), the output of the TCP handlers, and the exit codes
      of \<^verbatim>\<open>main\<close>. An output is \<open>None\<close> where \<^verbatim>\<open>format_timestamp\<close> passes a null pointer to \<^verbatim>\<open>strftime\<close>.
    \<^item> System: the program as a state machine (\<open>system_step\<close>, \<open>reachable\<close>): TCP messages, HTTP submissions,
      WebSocket callbacks, restarts; its invariant. Writing to the console does not change the state, so
      a message whose output is undefined still is a step here: the states are those of a program that
      survives it, and a program that does not has fewer. Interleaving: a block submission whose calls of the
      chain alternate with HTTP submissions. Crash: \<open>reachable_crash\<close>, with one more step, the process killed between two
      database writes of \<open>add_block\<close> and restarted.
    \<^item> History: where unspent outputs come from, and when the address index is sound. Progress: what becomes
      of pending transactions; the lengths of hashes and addresses. Supply: the value of the unspent
      outputs against what coinbases created.
      Balance: the balance the HTTP server reports. Routes: all routes of the HTTP server together.
    \<^item> \<^verbatim>\<open>Server_Loop\<close>: the servers while they run: accepting, one coroutine per client on the thread of the TCP
      server, the HTTP threads, and the announcements, as steps that interleave (\<open>tcp_step\<close>, \<open>web_step\<close>, \<open>runs\<close>). What a
      property of runs needs is the locale \<open>run_invariant\<close>, interpreted on the task of the TCP thread, the accept
      operation, the refinement of System, the sessions (theory Sessions) and the two kinds of news (theory
      Announcements). A handler locks the chain for each of its calls (\<open>handled\<close>), so submissions over HTTP may come
      between them. Service: a handler finishes, and a new client can be served.
      Lifecycle: \<^verbatim>\<open>main\<close> with its threads, the signals and the ways to end (\<open>process_step\<close>).
    \<^item> \<^verbatim>\<open>Test_Suite\<close>: \<^verbatim>\<open>tests/core_serialization_tests.cpp\<close>, and that it passes.
    \<^item> Instances, \<^verbatim>\<open>Pending_Instance\<close>: concrete libraries, a concrete node, and the node after a
      payment, for the witnesses.
    \<^item> \<^verbatim>\<open>Codec_Properties\<close>, \<^verbatim>\<open>Ledger_Properties\<close>, \<^verbatim>\<open>Chain_Properties\<close>, \<^verbatim>\<open>Node_Properties\<close>, \<^verbatim>\<open>Fault_Properties\<close>, \<^verbatim>\<open>Program_Properties\<close>,
      \<^verbatim>\<open>Console_Properties\<close>, \<^verbatim>\<open>Server_Properties\<close>, and below: the properties, each with a witness that applies it to concrete data
      where it has hypotheses.

  \<^bold>\<open>Libraries.\<close> libsodium and LevelDB are the records \<open>sodium\<close> and \<open>leveldb\<close>, arguments of every definition that
  calls them. \<open>sodium_ok\<close> states the lengths of hashes and that hex strings are read back; no property
  assumes that BLAKE2b has no collisions: those about commitments name the strings that must not collide.
  \<open>leveldb_ok\<close> states that a scan sees the writes, in the order of the keys; \<open>db_reliable\<close>, that operations do
  not fail, is assumed only where a property says so. The order of an \<^verbatim>\<open>unordered_map\<close> is an argument. Of Asio the
  steps use that operations complete at any time, with all bytes asked for or an error; of Crow, that its
  \<^verbatim>\<open>run\<close> returns after \<^verbatim>\<open>stop\<close>. Whether Crow remembers a stop before its run, and whether it stops on signals of its
  own accord, is the argument \<open>w\<close> (record \<open>crow_conduct\<close>); whether its \<^verbatim>\<open>has\<close> throws for a body that is not an
  object is part of the request (\<open>crow_body\<close>).

  \<^bold>\<open>Bounds.\<close> Amounts, indices, heights, counts, timestamps are words of the width of the code, with its
  wrap-around. Sizes (\<^verbatim>\<open>size_t\<close>) are natural numbers. Payloads are shorter than \<open>2 ^ 32\<close> bytes because a frame
  says so in 32 bits; states with \<open>2 ^ 32\<close> blocks are where the height would wrap, and TCP steps are those
  before it. No definition uses fuel: loops are structural or have a measure, and the one loop that can run
  forever, over the hours of a chart, is a \<^theory_text>\<open>partial_function\<close>: \<open>charts_answered\<close> says when it ends. The
  bound \<open>2 ^ 33\<close> in C22 is two lookups for each of fewer than \<open>2 ^ 32\<close> identifiers.

  \<^bold>\<open>What the properties show.\<close> C1 to C3 hold in every reachable state: the pool never spends an output twice and its
  inputs are unspent, a restart restores the chain, the blocks are linked and carry proof of work. C5 extends this to
  crashes, C30 to start-up on any database. C7 carries it over to the servers with their threads and sessions: what
  holds in reachable states holds there, and every message is answered as on a reachable chain, since block submissions
  are atomic in effect (C22). C23 and C24 are about the life of the process: it serves, and how it ends. C4 and C8 say exactly which submissions are accepted, C21
  that both servers agree. C9: clients are answered in order. C10 and C15: blocks and transactions are announced.
  C13 and C14: a pending transaction can be confirmed and is not lost. C6, C11, C17 and C20 are about value, balances and
  the address index; C25 and C26 about the HTTP server; C28 and C37 about commitments; C33 and C34 about formats; C35
  and C36 compare the dump and the Merkle root with their specifications.
  Some properties state what the code does where it falls short: an output listed twice in one transaction
  is counted twice (C12), the identifier does not commit to the number of inputs (C27), headers are not verified and
  rewards not limited (C32), a crash loses pending transactions (C19), the number of transactions is not committed
  to (C38), a timestamp far in the future makes the output of the server (C16) and of every restart (C18) undefined,
  a block may be announced before a transaction in it (C29), a stop may be lost (C24), an exception of Crow leaves a
  handler (C25), a repeated coinbase is counted twice (C31), a failed write leaves a half-applied block (C39), and the
  oldest hour of the charts is always empty (C40). Among the theorems without a number, the tip may be shown under the
  wrong height (\<open>tip_reply_torn\<close>).

  \<^bold>\<open>Not modelled.\<close> The insides of Asio and Crow: sockets, scheduling, routing, the text form of JSON. Allocation failures
  (\<^verbatim>\<open>reserve\<close> with a count from the network); what the constructor of \<^verbatim>\<open>Chain\<close> prints before it throws, and the log
  lines around starting and stopping the servers; the interleaving of console output. \<^verbatim>\<open>Timestamp::now\<close> is never called,
  and \<^verbatim>\<open>verify_tx\<close> and \<^verbatim>\<open>verify_block\<close> are declared but not defined in the source.
\<close>


section \<open>Reachable states\<close>

text \<open>C1. In every reachable state of the program, whatever TCP and HTTP clients have sent and however
  often it was restarted, the pending transactions are stored under their identifiers, each has inputs,
  every input is an unspent output of the chain, no two of them spend the same output, and the spent
  marks are exactly their inputs.\<close>

theorem reachable_pool_consistent:
  assumes "leveldb_ok L contents" "db_reliable L" "sodium_ok so" "reachable so L s"
    and "c = sys_chain s"
  shows "(\<forall>h tx. pool c h = Some tx \<longrightarrow>
        txid tx = h \<and> inputs tx \<noteq> [] \<and> (\<forall>op \<in> set (inputs tx). utxo c op \<noteq> None)) \<and>
    (\<forall>h h' tx tx'. pool c h = Some tx \<longrightarrow> pool c h' = Some tx' \<longrightarrow> h \<noteq> h' \<longrightarrow>
        set (inputs tx) \<inter> set (inputs tx') = {}) \<and>
    (\<forall>op. pool_spent c op \<noteq> None \<longleftrightarrow> (\<exists>h tx. pool c h = Some tx \<and> op \<in> set (inputs tx)))"
  using reachable_system_inv[OF assms(1-4)] assms(5)
  by (simp add: system_inv_def node_inv_def pool_inv_def pool_entries_ok_def pool_disjoint_def
      pool_spent_exact_def)

theorem reachable_pool_consistent_witness:
  "\<forall>op. pool_spent (sys_chain ex_system) op \<noteq> None \<longleftrightarrow>
     (\<exists>h tx. pool (sys_chain ex_system) h = Some tx \<and> op \<in> set (inputs tx))"
  using reachable_pool_consistent[OF ex_leveldb_ok ex_leveldb_reliable ex_sodium_ok ex_reachable refl] by blast

text \<open>C3. In every reachable state the chain starts with the genesis block, each later block names the hash
  of its predecessor and has three leading zero bytes in its own, every block carries the hash of its
  header and the Merkle root of its transactions, and its first transaction is a coinbase with one output.\<close>

theorem reachable_chain_valid:
  assumes "leveldb_ok L contents" "db_reliable L" "sodium_ok so" "reachable so L s"
    and "bs = blocks (sys_chain s)"
  shows "(\<exists>addr. GENESIS_ADDR so = Inr addr \<and> bs \<noteq> [] \<and> hd bs = genesis_block so addr) \<and>
    (\<forall>i. Suc i < length bs \<longrightarrow> prev_hash (header (bs ! Suc i)) = block_hash (bs ! i) \<and>
       leading_zero_bytes 3 (block_hash (bs ! Suc i))) \<and>
    (\<forall>blk \<in> set bs. block_hash blk = header_hash so (header blk) \<and>
       merkle_root (header blk) = compute_block_merkle_root so (transactions blk) \<and>
       (\<exists>cb txs. transactions blk = cb # txs \<and> is_coinbase cb \<and> length (outputs cb) = 1))"
proof -
  have inv: "consensus_inv so (sys_chain s)"
    using reachable_system_inv[OF assms(1-4)] by (simp add: system_inv_def)
  have "leading_zero_bytes 3 (block_hash (bs ! Suc i))" if "Suc i < length bs" for i
  proof -
    have "bs ! Suc i \<in> set (tl bs)" using that by (cases bs) auto
    with inv assms(5) show ?thesis by (simp add: consensus_inv_def proof_of_work_def)
  qed
  with inv assms(5) show ?thesis
    by (auto simp: consensus_inv_def linked_def list_all_iff block_sealed_def block_hash_def is_coinbase_def)
qed

theorem reachable_chain_valid_witness:
  "\<exists>cb txs. transactions (hd (blocks (sys_chain ex_system))) = cb # txs \<and> is_coinbase cb \<and> length (outputs cb) = 1"
proof -
  have "hd (blocks (sys_chain ex_system)) \<in> set (blocks (sys_chain ex_system))"
    by (simp add: ex_system_def ex_node_blocks)
  then show ?thesis
    using reachable_chain_valid[OF ex_leveldb_ok ex_leveldb_reliable ex_sodium_ok ex_reachable refl] by blast
qed

text \<open>In every reachable state the unspent outputs and the address index are those obtained by
  replaying the accepted blocks from nothing, and the height is the number of blocks.\<close>

theorem reachable_ledger_is_replay:
  assumes "leveldb_ok L contents" "db_reliable L" "sodium_ok so" "reachable so L s"
  shows "utxo (sys_chain s) = utxo (replay (blocks (sys_chain s))) \<and>
    address_utxo (sys_chain s) = address_utxo (replay (blocks (sys_chain s))) \<and>
    height (sys_chain s) = word_of_nat (length (blocks (sys_chain s)))"
proof -
  have h: "history_inv (sys_chain s)"
    using reachable_system_inv[OF assms] by (simp add: system_inv_def node_inv_def)
  then have "ledger.truncate (sys_chain s) = replay (blocks (sys_chain s))" by (simp add: history_inv_def)
  then have "utxo (sys_chain s) = utxo (replay (blocks (sys_chain s)))"
    "address_utxo (sys_chain s) = address_utxo (replay (blocks (sys_chain s)))"
    by (metis utxo_truncate, metis address_utxo_truncate)
  with h show ?thesis by (simp add: height_def history_inv_def)
qed

theorem reachable_ledger_is_replay_witness:
  "utxo (sys_chain ex_system) = utxo (replay [ex_genesis]) \<and> height (sys_chain ex_system) = 1"
  using reachable_ledger_is_replay[OF ex_leveldb_ok ex_leveldb_reliable ex_sodium_ok ex_reachable]
  by (simp add: ex_system_def ex_node_blocks)

text \<open>C2. Restarting the program in any reachable state, on the databases it leaves, succeeds and restores
  exactly the chain it had: ledger, index, blocks, pool, spent marks, height and target.\<close>

theorem restart_restores_chain:
  assumes "leveldb_ok L contents" "db_reliable L" "sodium_ok so" "reachable so L s"
    and "GENESIS_ADDR so = Inr addr"
    and "opened ''blocks'' = Inr (blocks_db (sys_chain s))" "opened ''pool'' = Inr (pool_db (sys_chain s))"
  shows "Chain_init so L opened = Inr (sys_chain s)"
proof -
  have scan: "db_scan L db = (fst (db_scan L db), None)" for db
    using assms(2) by (metis db_reliable_def prod.collapse)
  show ?thesis
    using reachable_system_inv[OF assms(1-4)]
    by (intro Chain_init_restart[OF assms(1,3) _ _ _ scan scan assms(6,7,5)])
      (simp_all add: system_inv_def node_inv_def)
qed

theorem restart_restores_chain_witness:
  "Chain_init ex_sodium ex_leveldb
     (\<lambda>name. if name = ''blocks'' then Inr (blocks_db ex_node) else Inr (pool_db ex_node)) = Inr ex_node"
  using restart_restores_chain[OF ex_leveldb_ok ex_leveldb_reliable ex_sodium_ok ex_reachable ex_genesis_addr,
      of "\<lambda>name. if name = ''blocks'' then Inr (blocks_db ex_node) else Inr (pool_db ex_node)"]
  by (simp add: ex_system_def)

text \<open>On two empty databases the constructor creates the genesis block: one block, an empty pool, and
  one unspent output of 15 coins for the genesis address.\<close>

theorem first_start_state:
  assumes "opened ''blocks'' = Inr bdb" "opened ''pool'' = Inr pdb"
    and "db_scan L bdb = ([], None)" "db_scan L pdb = ([], None)"
    and "GENESIS_ADDR so = Inr addr"
    and "db_put L (block_key 0) (block_serialize_str (genesis_block so addr)) bdb = (None, bdb')"
  shows "\<exists>c. Chain_init so L opened = Inr c \<and> blocks c = [genesis_block so addr] \<and> height c = 1 \<and>
    pool c = Map.empty \<and> blocks_db c = bdb' \<and>
    utxo c = [\<lparr>op_txid = txid (hd (transactions (genesis_block so addr))), op_index = 0\<rparr> \<mapsto>
                \<lparr>recipient = addr, amount = 15000000\<rparr>]"
  using Chain_init_empty[OF assms]
  by (simp add: genesis_apply apply_tx_def create_output_def blank_chain_def height_def genesis_block_def
      Let_def UNITS_def)

theorem first_start_state_witness:
  "utxo ex_node = [ex_op \<mapsto> \<lparr>recipient = ex_addr, amount = 15000000\<rparr>] \<and> pool ex_node = Map.empty"
proof -
  obtain bdb' where "db_put ex_leveldb (block_key 0) (block_serialize_str (genesis_block ex_sodium ex_addr)) [] =
      (None, bdb')"
    by (simp add: ex_leveldb_def)
  from first_start_state[OF _ _ ex_scan_empty ex_scan_empty ex_genesis_addr this, of ex_opened]
  show ?thesis by (simp add: ex_opened_def ex_init ex_op_def ex_genesis_def)
qed


text \<open>The accepted blocks are never replaced: a step of the program leaves the chain as it is or appends
  one block, and then sends its announcement to exactly the open WebSocket connections.\<close>

theorem chain_append_only:
  assumes "leveldb_ok L contents" "db_reliable L" "sodium_ok so" "reachable so L s"
    and "system_step so L s sent s'"
  shows "blocks (sys_chain s') = blocks (sys_chain s) \<or>
    (\<exists>blk. blocks (sys_chain s') = blocks (sys_chain s) @ [blk] \<and>
       sent = (\<lambda>conn. (conn, Ws_json (event_new_block_json so blk))) ` sys_conns s)"
  using step_blocks[OF assms(1-3) reachable_system_inv[OF assms(1-4)] assms(5)]
  by (simp add: block_announced_def broadcast_new_block_def broadcast_text_def)

theorem chain_append_only_witness:
  "\<exists>s' sent. system_step ex_sodium ex_leveldb ex_system sent s' \<and>
    (blocks (sys_chain s') = [ex_genesis] \<or>
     (\<exists>blk. blocks (sys_chain s') = [ex_genesis, blk] \<and>
        sent = (\<lambda>conn. (conn, Ws_json (event_new_block_json ex_sodium blk))) ` sys_conns ex_system))"
proof -
  let ?payload = "put_create_block (ex_block 0 0xFFFFFFFFFFFFFFFF) []"
  have bs: "blocks (sys_chain ex_system) = [ex_genesis]" by (simp add: ex_system_def ex_node_blocks)
  obtain r c' where h: "handle_msg ex_sodium ex_leveldb (\<lambda>_. []) 8 ?payload (sys_chain ex_system) = (r, c')"
    by fastforce
  have "length ?payload + 2 < 2 ^ 32"
    using ex_block_ok[of 0 "0xFFFFFFFFFFFFFFFF"]
    by (simp add: put_create_block_unfold block_request_ok_def) (simp add: ex_block_def)
  from tcp_message[OF this _ h] have st: "system_step ex_sodium ex_leveldb ex_system
      (tcp_messages ex_sodium (sys_conns ex_system) r) (ex_system\<lparr>sys_chain := c'\<rparr>)"
    by (simp add: bs)
  from chain_append_only[OF ex_leveldb_ok ex_leveldb_reliable ex_sodium_ok ex_reachable st]
  show ?thesis using st unfolding bs append_Cons append_Nil by blast
qed


section \<open>What a tip stands for\<close>

text \<open>The hash of the tip commits to the headers of the whole chain: two linked chains of sealed blocks
  of the same length with the same tip hash have the same headers, unless two different headers among
  them have the same hash.\<close>

theorem tip_commits_to_headers:
  assumes "\<forall>blk \<in> set xs \<union> set ys. header_ok (header blk) \<and> block_sealed so blk"
    and "inj_on (blake2b so) ((\<lambda>blk. header_serialize (header blk) []) ` (set xs \<union> set ys))"
    and "linked xs" "linked ys" "length xs = length ys" "xs \<noteq> []"
    and "block_hash (last xs) = block_hash (last ys)"
  shows "map header xs = map header ys"
  by (rule tip_commits_headers[OF assms])

theorem tip_commits_to_headers_witness:
  "map header [ex_genesis] = map header [ex_genesis\<lparr>transactions := transactions ex_genesis\<rparr>]"
  by (rule tip_commits_to_headers[of _ _ ex_sodium])
    (use ex_genesis_ok in \<open>simp_all add: linked_def block_ok_def ex_genesis_def genesis_sealed\<close>)


section \<open>The two servers together\<close>

text \<open>Parsing a block submission is atomic in effect: although the HTTP thread may submit transactions
  between the lookups in the pool, the result is that of all lookups on the chain of one moment
  during the parse, since submissions only add to the pool.\<close>

theorem block_parse_linearizable:
  assumes "\<And>i. cs (Suc i) = cs i \<or> (\<exists>request response. api_transaction so L request (cs i) = (response, cs (Suc i)))"
  shows "\<exists>j. k \<le> j \<and> j \<le> k + 2 * n \<and> resolve_interleaved cs k n r = resolve_txs (cs j) n r"
proof (rule resolve_interleaved_atomic)
  fix i
  show "pool (cs i) \<subseteq>\<^sub>m pool (cs (Suc i))"
    using assms[of i] http_change_api unfolding http_change_def by (metis map_le_refl)
qed

theorem block_parse_linearizable_witness:
  "\<exists>j. 0 \<le> j \<and> j \<le> 0 + 2 * (1 :: nat) \<and>
    resolve_interleaved (\<lambda>i. if i = 0 then ex_chain else snd (api_transaction ex_sodium ex_leveldb None ex_chain))
      0 1 (mk_reader (replicate 32 1)) =
    resolve_txs (if j = 0 then ex_chain else snd (api_transaction ex_sodium ex_leveldb None ex_chain))
      1 (mk_reader (replicate 32 1))"
proof (rule block_parse_linearizable[where so = ex_sodium and L = ex_leveldb])
  fix i :: nat
  show "(if Suc i = 0 then ex_chain else snd (api_transaction ex_sodium ex_leveldb None ex_chain)) =
      (if i = 0 then ex_chain else snd (api_transaction ex_sodium ex_leveldb None ex_chain)) \<or>
    (\<exists>request response. api_transaction ex_sodium ex_leveldb request
        (if i = 0 then ex_chain else snd (api_transaction ex_sodium ex_leveldb None ex_chain)) =
      (response, (if Suc i = 0 then ex_chain else snd (api_transaction ex_sodium ex_leveldb None ex_chain))))"
  proof (cases "i = 0")
    case True
    have "\<exists>request response. api_transaction ex_sodium ex_leveldb request ex_chain =
        (response, snd (api_transaction ex_sodium ex_leveldb None ex_chain))"
      by (intro exI, rule prod.collapse[symmetric])
    with True show ?thesis by simp
  qed simp
qed

text \<open>C22. A block submission is atomic in effect. The handler locks the chain for each of its calls only, and
  the HTTP server may handle transaction submissions between any two of them: the lookups in the pool, the
  reading of the target and of the tip, and \<^verbatim>\<open>add_block\<close>. Still the reply, the announcement and the new
  chain are those of the uninterrupted handler on the last chain, or the handler changes nothing and
  replies as the uninterrupted one would have on an earlier chain, changing nothing either.\<close>

theorem block_submission_linearizable:
  assumes "\<And>i. cs (Suc i) = cs i \<or> (\<exists>request response. api_transaction so L request (cs i) = (response, cs (Suc i)))"
    and "2 ^ 33 \<le> t" "t \<le> u" "u \<le> v"
    and "on_create_block_interleaved so L payload cs t u v = (r, c')"
  shows "on_create_block so L payload (cs v) = (r, c') \<or>
    (c' = cs v \<and> (\<exists>j \<le> v. on_create_block so L payload (cs j) = (r, cs j)))"
proof (rule on_create_block_linearizable[OF _ assms(2-5)])
  show "http_change (cs i) (cs (Suc i))" for i
    using assms(1)[of i] http_change_api by (metis http_change_refl)
qed

text \<open>A transaction is submitted over HTTP after the first call.\<close>

theorem block_submission_linearizable_witness:
  "\<exists>cs :: nat \<Rightarrow> ex_db chain. cs 0 = ex_node \<and> pool (cs 0) = Map.empty \<and> pool (cs 1) = [txid ex_spend \<mapsto> ex_spend] \<and>
     (let payload = put_create_block ex_listing []; m = 2 ^ 33;
          (r, c') = on_create_block_interleaved ex_sodium ex_leveldb payload cs m m m
      in on_create_block ex_sodium ex_leveldb payload (cs m) = (r, c') \<or>
         (c' = cs m \<and> (\<exists>j \<le> m. on_create_block ex_sodium ex_leveldb payload (cs j) = (r, cs j))))"
proof -
  define cs where "cs i = (if i = 0 then ex_node else ex_paid)" for i :: nat
  obtain response where "api_transaction ex_sodium ex_leveldb ex_request ex_node = (Inr (response, Some ex_spend), ex_paid)"
    by (rule ex_http_pays)
  then have step: "cs (Suc i) = cs i \<or>
      (\<exists>request response. api_transaction ex_sodium ex_leveldb request (cs i) = (response, cs (Suc i)))" for i
    by (cases i) (auto simp: cs_def)
  have m: "(2 :: nat) ^ 33 \<le> 2 ^ 33" by simp
  obtain r c' where "on_create_block_interleaved ex_sodium ex_leveldb (put_create_block ex_listing []) cs
      (2 ^ 33) (2 ^ 33) (2 ^ 33) = (r, c')"
    by fastforce
  with block_submission_linearizable[OF step m le_refl le_refl this] show ?thesis
    by (intro exI[of _ cs]) (simp add: Let_def, simp add: cs_def ex_node_fields ex_paid_fields)
qed

text \<open>C21. A transaction submitted over HTTP is admitted as over TCP: the same payload leads to the same chain
  and, when it is accepted, the same announcement to exactly the open WebSocket connections.\<close>

theorem submissions_agree:
  assumes "hex_to_bytes so raw = Inr payload" "length raw \<le> kMaxRawTxHexChars"
    and "parse_signed_transaction_payload so payload = Inr st"
    and "add_tx so L st c = (Inr err, c')"
  shows "snd (on_create_tx so L payload c) = c' \<and>
    (\<exists>response tx. api_transaction so L (Some (Crow_object [''rawTx'' \<mapsto> Crow_String raw])) c =
        (Inr (response, tx), c') \<and>
      http_messages so conns tx =
        (if err = TxError_None then (\<lambda>conn. (conn, Ws_json (event_new_tx_json so (st_tx st)))) ` conns else {})) \<and>
    tcp_messages so conns (Inr (fst (on_create_tx so L payload c))) =
      (if err = TxError_None then (\<lambda>conn. (conn, Ws_json (event_new_tx_json so (st_tx st)))) ` conns else {})"
proof -
  obtain p where p: "parse_create_tx_payload payload = Inr p" "st = submitted_tx so p"
    using assms(3) unfolding parse_signed_iff parse_create_tx_iff by (metis append_Nil2)
  have http: "api_transaction so L (Some (Crow_object [''rawTx'' \<mapsto> Crow_String raw])) c =
    (Inr (if err \<noteq> TxError_None then (error_response 400 (tx_error_to_string err), None)
     else (json_response 200 (JObject [(''txid'', JString (to_hex so (txid (st_tx st)))),
             (''status'', JString ''submitted'')]), Some (st_tx st))), c')"
    using assms by (simp add: api_transaction_def submit_raw_tx_def)
  show ?thesis
    using assms(4) p
    by (simp add: http on_create_tx_parsed[OF p(1)] http_messages_def tcp_messages_def tx_reply_def
        broadcast_new_tx_def broadcast_text_def)
qed

theorem submissions_agree_witness:
  "\<exists>response tx c'. api_transaction ex_sodium ex_leveldb
      (Some (Crow_object [''rawTx'' \<mapsto> Crow_String (hex_encode (put_create_tx (ex_payment [ex_op] 15000000) []))]))
      ex_chain = (Inr (response, tx), c') \<and>
    http_messages ex_sodium {1 :: nat, 2} tx =
    {(1, Ws_json (event_new_tx_json ex_sodium ex_spend)), (2, Ws_json (event_new_tx_json ex_sodium ex_spend))}"
proof -
  let ?p = "ex_payment [ex_op] 15000000"
  let ?payload = "put_create_tx ?p []"
  have ok: "create_tx_ok ?p" by (rule ex_payment_ok) (simp_all add: ex_op_ok)
  have len: "length (hex_encode ?payload) \<le> kMaxRawTxHexChars"
    by (simp add: length_hex_encode length_put_create_tx[OF ok] kMaxRawTxHexChars_def) (simp add: ex_payment_def)
  have st: "parse_signed_transaction_payload ex_sodium ?payload = Inr (ex_signed [ex_op] 15000000)"
    unfolding parse_signed_iff ex_signed_def using ok by blast
  have "check_tx ex_sodium (ex_signed [ex_op] 15000000) ex_chain = TxError_None"
    using ex_signed_acceptable by (simp add: check_tx_None_iff)
  then obtain c' where add: "add_tx ex_sodium ex_leveldb (ex_signed [ex_op] 15000000) ex_chain = (Inr TxError_None, c')"
    by (simp add: add_tx_def Let_def ex_leveldb_def)
  have "st_tx (ex_signed [ex_op] 15000000) = ex_spend" by (simp add: ex_signed_def ex_spend_def)
  with submissions_agree[OF ex_hex_to_bytes len st add, of "{1 :: nat, 2}"] show ?thesis by auto
qed

end
